(* ===== verification/Prelude.thy ===== *)
theory Prelude
  imports Main "HOL-Library.Sublist"
begin

text \<open>
  Shared vocabulary of the development: byte strings, the collections of rewrite rules that
  the component theories extend, and the generic facts on lists and maps that more than one
  component uses.
\<close>

section \<open>Bytes and strings\<close>

text \<open>
  A Go \<open>string\<close> and a Go \<open>[]byte\<close> are both sequences of bytes, and the program converts
  between them without copying semantics mattering.  Isabelle's \<open>char\<close> is exactly one byte,
  so both are \<open>char list\<close>.
\<close>

type_synonym bytes = "string"

abbreviation slash :: char where
  "slash \<equiv> CHR ''/''"

section \<open>Collections of rewrite rules\<close>

named_theorems go_path "facts about normalised paths and the keys built from them"
named_theorems go_codec "round trips of the encodings the program stores"
named_theorems kv_frame "how one request changes the contents of the key space"

section \<open>Lists\<close>

lemma takeWhile_append_stop:
  "(\<forall>x \<in> set xs. P x) \<Longrightarrow> \<not> P y \<Longrightarrow> takeWhile P (xs @ y # ys) = xs"
  by (induction xs) auto

lemma dropWhile_append_stop:
  "(\<forall>x \<in> set xs. P x) \<Longrightarrow> \<not> P y \<Longrightarrow> dropWhile P (xs @ y # ys) = y # ys"
  by (induction xs) auto

lemma prefix_append_cancel: "prefix (xs @ ys) (xs @ zs) \<longleftrightarrow> prefix ys zs"
  by simp

section \<open>Maps\<close>

lemma map_upd_other: "k \<noteq> k' \<Longrightarrow> (m(k \<mapsto> v)) k' = m k'"
  by simp

end
