(* ===== verification/Go_Base64.thy ===== *)
theory Go_Base64
  imports Prelude
begin

text \<open>
  \<open>base64.StdEncoding\<close>: every value, metadata record and lock the program writes to etcd goes
  through \<open>EncodeToString\<close>, and every one it reads through \<open>DecodeString\<close>.  The decoder
  follows the Go package: line breaks are skipped anywhere, padding is mandatory, trailing
  bits are not checked (the encoding is not strict).
\<close>

section \<open>The contract of an encoding\<close>

text \<open>
  What the program needs of each of its encodings: a decoder undoes the encoder on the values
  the program encodes.
\<close>

locale codec =
  fixes enc :: "'a \<Rightarrow> 'b" and dec :: "'b \<Rightarrow> 'a option" and ok :: "'a \<Rightarrow> bool"
  assumes dec_enc: "ok x \<Longrightarrow> dec (enc x) = Some x"
begin

lemma enc_inject: "ok x \<Longrightarrow> ok y \<Longrightarrow> enc x = enc y \<longleftrightarrow> x = y"
  by (metis dec_enc option.inject)

lemma dec_enc_map: "list_all ok xs \<Longrightarrow> map (dec \<circ> enc) xs = map Some xs"
  by (induction xs) (auto simp: dec_enc)

end

section \<open>Alphabet\<close>

definition b64_alphabet :: string where
  "b64_alphabet = ''ABCDEFGHIJKLMNOPQRSTUVWXYZabcdefghijklmnopqrstuvwxyz0123456789+/''"

definition b64_char :: "nat \<Rightarrow> char" where
  "b64_char n = b64_alphabet ! n"

fun position :: "'a \<Rightarrow> 'a list \<Rightarrow> nat option" where
  "position x [] = None"
| "position x (y # ys) = (if x = y then Some 0 else map_option Suc (position x ys))"

definition b64_val :: "char \<Rightarrow> nat option" where
  "b64_val c = position c b64_alphabet"

lemma position_nth: "distinct xs \<Longrightarrow> n < length xs \<Longrightarrow> position (xs ! n) xs = Some n"
  by (induction xs arbitrary: n) (auto simp: nth_Cons split: nat.splits)

lemma position_Some: "position x xs = Some n \<Longrightarrow> n < length xs \<and> xs ! n = x"
  by (induction xs arbitrary: n) (auto split: if_splits)

lemma length_b64_alphabet: "length b64_alphabet = 64"
  by (simp add: b64_alphabet_def)

lemma distinct_b64_alphabet: "distinct b64_alphabet"
  by (simp add: b64_alphabet_def)

lemma b64_val_char [simp]: "n < 64 \<Longrightarrow> b64_val (b64_char n) = Some n"
  by (simp add: b64_val_def b64_char_def position_nth distinct_b64_alphabet
      length_b64_alphabet)

lemma b64_char_in: "n < 64 \<Longrightarrow> b64_char n \<in> set b64_alphabet"
  by (simp add: b64_char_def length_b64_alphabet)

lemma b64_special: "CHR ''='' \<notin> set b64_alphabet" "CHR 0x0A \<notin> set b64_alphabet"
  "CHR 0x0D \<notin> set b64_alphabet"
  by (simp_all add: b64_alphabet_def)

lemma b64_char_special [simp]:
  assumes "n < 64"
  shows "b64_char n \<noteq> CHR ''=''" "b64_char n \<noteq> CHR 0x0A" "b64_char n \<noteq> CHR 0x0D"
  using b64_char_in [OF assms] b64_special by metis+

section \<open>Encoding and decoding\<close>

abbreviation byte_of :: "nat \<Rightarrow> char" where
  "byte_of \<equiv> char_of"

abbreviation nat_of_byte :: "char \<Rightarrow> nat" where
  "nat_of_byte \<equiv> of_char"

lemma nat_of_byte_bound [simp]: "nat_of_byte c < 256"
  by (metis nat_of_char_less_256)

fun EncodeToString :: "bytes \<Rightarrow> string" where
  "EncodeToString [] = []"
| "EncodeToString [a] =
     (let x = nat_of_byte a
      in [b64_char (x div 4), b64_char (x mod 4 * 16), CHR ''='', CHR ''=''])"
| "EncodeToString [a, b] =
     (let x = nat_of_byte a; y = nat_of_byte b
      in [b64_char (x div 4), b64_char (x mod 4 * 16 + y div 16),
          b64_char (y mod 16 * 4), CHR ''=''])"
| "EncodeToString (a # b # c # cs) =
     (let x = nat_of_byte a; y = nat_of_byte b; z = nat_of_byte c
      in b64_char (x div 4) # b64_char (x mod 4 * 16 + y div 16)
         # b64_char (y mod 16 * 4 + z div 64) # b64_char (z mod 64)
         # EncodeToString cs)"

text \<open>One quantum of four digits, all present.\<close>

definition quantum :: "nat \<Rightarrow> nat \<Rightarrow> nat \<Rightarrow> nat \<Rightarrow> bytes" where
  "quantum p q r s =
     [byte_of (p * 4 + q div 16), byte_of (q mod 16 * 16 + r div 4),
      byte_of (r mod 4 * 64 + s)]"

text \<open>The decoder on input from which line breaks have been removed.\<close>

fun decode_quanta :: "string \<Rightarrow> bytes option" where
  "decode_quanta [] = Some []"
| "decode_quanta (a # b # c # d # rest) =
     (case (b64_val a, b64_val b) of
        (Some p, Some q) \<Rightarrow>
          if c = CHR ''='' then
            (if d = CHR ''='' \<and> rest = [] then Some (take 1 (quantum p q 0 0)) else None)
          else
            (case b64_val c of
               None \<Rightarrow> None
             | Some r \<Rightarrow>
                 if d = CHR ''='' then
                   (if rest = [] then Some (take 2 (quantum p q r 0)) else None)
                 else
                   (case b64_val d of
                      None \<Rightarrow> None
                    | Some s \<Rightarrow> map_option (\<lambda>bs. quantum p q r s @ bs) (decode_quanta rest)))
      | _ \<Rightarrow> None)"
| "decode_quanta _ = None"

definition DecodeString :: "string \<Rightarrow> bytes option" where
  "DecodeString s = decode_quanta (filter (\<lambda>c. c \<noteq> CHR 0x0A \<and> c \<noteq> CHR 0x0D) s)"

section \<open>Round trip\<close>

lemma quantum_one: "x < 256 \<Longrightarrow> take 1 (quantum (x div 4) (x mod 4 * 16) 0 0) = [byte_of x]"
  by (simp add: quantum_def)

lemma quantum_two:
  assumes "x < 256" "y < 256"
  shows "take 2 (quantum (x div 4) (x mod 4 * 16 + y div 16) (y mod 16 * 4) 0)
    = [byte_of x, byte_of y]"
proof -
  have "(x mod 4 * 16 + y div 16) div 16 = x mod 4" and
    "(x mod 4 * 16 + y div 16) mod 16 = y div 16"
    using assms by auto
  then show ?thesis by (simp add: quantum_def)
qed

lemma quantum_three:
  assumes "x < 256" "y < 256" "z < 256"
  shows "quantum (x div 4) (x mod 4 * 16 + y div 16) (y mod 16 * 4 + z div 64) (z mod 64)
    = [byte_of x, byte_of y, byte_of z]"
proof -
  have "(x mod 4 * 16 + y div 16) div 16 = x mod 4" and
    "(x mod 4 * 16 + y div 16) mod 16 = y div 16" and
    "(y mod 16 * 4 + z div 64) div 4 = y mod 16" and
    "(y mod 16 * 4 + z div 64) mod 4 = z div 64"
    using assms by auto
  then show ?thesis by (simp add: quantum_def)
qed

lemma b64_digit_bounds:
  fixes x y z :: nat
  assumes "x < 256" "y < 256" "z < 256"
  shows "x div 4 < 64" "x mod 4 * 16 < 64" "x mod 4 * 16 + y div 16 < 64"
    "y mod 16 * 4 < 64" "y mod 16 * 4 + z div 64 < 64" "z mod 64 < 64"
  using assms by auto

lemma decode_quanta_encode: "decode_quanta (EncodeToString bs) = Some bs"
proof (induction bs rule: EncodeToString.induct)
  case (2 a)
  then show ?case
    using quantum_one [of "nat_of_byte a"] b64_digit_bounds [of "nat_of_byte a" 0 0]
    by (simp add: Let_def)
next
  case (3 a b)
  then show ?case
    using quantum_two [of "nat_of_byte a" "nat_of_byte b"]
      b64_digit_bounds [of "nat_of_byte a" "nat_of_byte b" 0]
    by (simp add: Let_def)
next
  case (4 a b c cs)
  then show ?case
    using quantum_three [of "nat_of_byte a" "nat_of_byte b" "nat_of_byte c"]
      b64_digit_bounds [of "nat_of_byte a" "nat_of_byte b" "nat_of_byte c"]
    by (simp add: Let_def)
qed simp

lemma EncodeToString_no_breaks:
  "c \<in> set (EncodeToString bs) \<Longrightarrow> c \<noteq> CHR 0x0A \<and> c \<noteq> CHR 0x0D"
proof (induction bs rule: EncodeToString.induct)
  case (2 a)
  then show ?case
    using b64_digit_bounds [of "nat_of_byte a" 0 0] by (auto simp: Let_def)
next
  case (3 a b)
  then show ?case
    using b64_digit_bounds [of "nat_of_byte a" "nat_of_byte b" 0] by (auto simp: Let_def)
next
  case (4 a b c cs)
  then show ?case
    using b64_digit_bounds [of "nat_of_byte a" "nat_of_byte b" "nat_of_byte c"]
    by (auto simp: Let_def)
qed simp

lemma DecodeString_Encode [simp, go_codec]: "DecodeString (EncodeToString bs) = Some bs"
proof -
  have "filter (\<lambda>c. c \<noteq> CHR 0x0A \<and> c \<noteq> CHR 0x0D) (EncodeToString bs) = EncodeToString bs"
    using EncodeToString_no_breaks by (intro filter_True) blast
  then show ?thesis
    by (simp add: DecodeString_def decode_quanta_encode)
qed

interpretation base64: codec EncodeToString DecodeString "\<lambda>_. True"
  by unfold_locales (rule DecodeString_Encode)

lemma EncodeToString_empty_iff [simp]: "EncodeToString bs = [] \<longleftrightarrow> bs = []"
  using base64.enc_inject [of bs "[]"] by simp

end
