(* ===== verification/Go_Time.thy ===== *)
theory Go_Time
  imports Go_Base64 "HOL-Library.Monad_Syntax"
begin

text \<open>
  Package \<open>time\<close>: instants, and the RFC 3339 text form in which the program stores the
  moment a lock was obtained and the timestamp of a metadata record.

  An instant is the number of nanoseconds since Go's zero time, 0001-01-01 00:00:00 UTC, as
  an unbounded integer; \<open>Time.IsZero\<close> is equality with 0 and \<open>Time.After\<close> is \<open>>\<close>.
  \<open>Time.UnmarshalText\<close> first runs the strict parser \<open>parseRFC3339\<close> and, if that fails, the
  general one, \<open>Parse\<close>, with the layout RFC3339, which also takes hours of one digit, a comma
  before the fraction and offsets up to 24 hours and 60 minutes.
\<close>

type_synonym time = int

definition Second :: int where
  "Second = 1000000000"

definition Minute :: int where
  "Minute = 60 * Second"

definition day_ns :: int where
  "day_ns = 86400 * Second"

definition max_duration :: int where
  "max_duration = 2 ^ 63 - 1"

definition min_duration :: int where
  "min_duration = - (2 ^ 63)"

text \<open>\<open>Time.Sub\<close> saturates at the ends of the range of \<open>time.Duration\<close>.\<close>

definition time_Sub :: "time \<Rightarrow> time \<Rightarrow> int" where
  "time_Sub t u = max min_duration (min max_duration (t - u))"

lemma time_Sub_ge_iff: "0 < d \<Longrightarrow> d \<le> max_duration \<Longrightarrow> d \<le> time_Sub t u \<longleftrightarrow> d \<le> t - u"
  by (auto simp: time_Sub_def min_duration_def max_duration_def)

lemma time_Sub_ge: "d \<le> t - u \<Longrightarrow> d \<le> max_duration \<Longrightarrow> d \<le> time_Sub t u"
  by (auto simp: time_Sub_def min_duration_def max_duration_def)

section \<open>Decimal digits\<close>

definition digit :: "nat \<Rightarrow> char" where
  "digit n = char_of (48 + n)"

definition is_digit :: "char \<Rightarrow> bool" where
  "is_digit c \<longleftrightarrow> 48 \<le> (of_char c :: nat) \<and> (of_char c :: nat) \<le> 57"

definition digit_val :: "char \<Rightarrow> nat" where
  "digit_val c = of_char c - 48"

lemma digit_char [simp]: "n < 10 \<Longrightarrow> is_digit (digit n)" "n < 10 \<Longrightarrow> digit_val (digit n) = n"
  by (simp_all add: digit_def is_digit_def digit_val_def)

fun digs :: "nat \<Rightarrow> nat \<Rightarrow> string" where
  "digs 0 n = []"
| "digs (Suc w) n = digs w (n div 10) @ [digit (n mod 10)]"

definition dec_val :: "string \<Rightarrow> nat" where
  "dec_val s = foldl (\<lambda>v c. 10 * v + digit_val c) 0 s"

lemma length_digs [simp]: "length (digs w n) = w"
  by (induction w arbitrary: n) auto

lemma digs_digits [simp]: "c \<in> set (digs w n) \<Longrightarrow> is_digit c"
  by (induction w arbitrary: n) auto

lemma list_all_digs [simp]: "list_all is_digit (digs w n)"
  by (simp add: list_all_iff)

lemma dec_val_snoc [simp]: "dec_val (s @ [c]) = 10 * dec_val s + digit_val c"
  by (simp add: dec_val_def)

lemma dec_val_digs [simp]: "n < 10 ^ w \<Longrightarrow> dec_val (digs w n) = n"
proof (induction w arbitrary: n)
  case 0
  then show ?case by (simp add: dec_val_def)
next
  case (Suc w)
  then have "n div 10 < 10 ^ w" by (simp add: less_mult_imp_div_less mult.commute)
  with Suc.IH have "dec_val (digs w (n div 10)) = n div 10" by blast
  then show ?case by simp
qed

section \<open>The calendar\<close>

definition leap :: "int \<Rightarrow> bool" where
  "leap y \<longleftrightarrow> y mod 4 = 0 \<and> (y mod 100 \<noteq> 0 \<or> y mod 400 = 0)"

definition month_lengths :: "bool \<Rightarrow> int list" where
  "month_lengths l = [31, if l then 29 else 28, 31, 30, 31, 30, 31, 31, 30, 31, 30, 31]"

text \<open>Cycles of 400, 100, 4 and 1 years, as in Go's \<open>absDate\<close>; days count from 0001-01-01.\<close>

definition year_of_days :: "int \<Rightarrow> int \<times> int" where
  "year_of_days d =
     (let n400 = d div 146097; r = d mod 146097;
          n100 = min 3 (r div 36524); r2 = r - 36524 * n100;
          n4 = r2 div 1461; r3 = r2 - 1461 * n4;
          n1 = min 3 (r3 div 365)
      in (400 * n400 + 100 * n100 + 4 * n4 + n1 + 1, r3 - 365 * n1))"

definition days_before_year :: "int \<Rightarrow> int" where
  "days_before_year y =
     (let z = y - 1; c = z mod 400; k = c mod 100
      in 146097 * (z div 400) + 36524 * (c div 100) + 1461 * (k div 4) + 365 * (k mod 4))"

fun month_day :: "int list \<Rightarrow> int \<Rightarrow> nat \<times> int" where
  "month_day [] d = (0, d)"
| "month_day (m # ms) d =
     (if d < m then (0, d) else (case month_day ms (d - m) of (i, r) \<Rightarrow> (Suc i, r)))"

definition date_of_days :: "int \<Rightarrow> int \<times> nat \<times> int" where
  "date_of_days d =
     (case year_of_days d of (y, yd) \<Rightarrow>
        case month_day (month_lengths (leap y)) yd of (m, r) \<Rightarrow> (y, m + 1, r + 1))"

definition days_of_date :: "int \<Rightarrow> nat \<Rightarrow> int \<Rightarrow> int" where
  "days_of_date y m d =
     days_before_year y + sum_list (take (m - 1) (month_lengths (leap y))) + (d - 1)"

lemma month_day_spec:
  assumes "0 \<le> d" "d < sum_list ms" "month_day ms d = (i, r)"
  shows "i < length ms \<and> 0 \<le> r \<and> r < ms ! i \<and> d = sum_list (take i ms) + r"
  using assms
  by (induction ms d arbitrary: i r rule: month_day.induct)
     (fastforce split: if_splits prod.splits)+

lemma cycles:
  fixes d :: int
  defines "n400 \<equiv> d div 146097" and "r \<equiv> d mod 146097"
  defines "n100 \<equiv> min 3 (r div 36524)"
  defines "r2 \<equiv> r - 36524 * n100"
  defines "n4 \<equiv> r2 div 1461"
  defines "r3 \<equiv> r2 - 1461 * n4"
  defines "n1 \<equiv> min 3 (r3 div 365)"
  shows "0 \<le> n100 \<and> n100 \<le> 3" "0 \<le> n4 \<and> n4 \<le> 24" "0 \<le> n1 \<and> n1 \<le> 3"
    "0 \<le> r3 - 365 * n1 \<and> r3 - 365 * n1 \<le> 365"
    "r3 - 365 * n1 = 365 \<Longrightarrow> n1 = 3 \<and> (n4 = 24 \<longrightarrow> n100 = 3)"
    "d = 146097 * n400 + 36524 * n100 + 1461 * n4 + 365 * n1 + (r3 - 365 * n1)"
proof -
  have r: "0 \<le> r" "r < 146097" by (simp_all add: r_def)
  have er: "r = 36524 * (r div 36524) + r mod 36524" "0 \<le> r mod 36524" "r mod 36524 < 36524"
    by simp_all
  show n100: "0 \<le> n100 \<and> n100 \<le> 3" using r by (auto simp: n100_def pos_imp_zdiv_nonneg_iff)
  have r2: "0 \<le> r2" "r2 \<le> 36524" "n100 < 3 \<Longrightarrow> r2 < 36524"
    using r unfolding r2_def n100_def by (auto simp: min_def split: if_splits)
  have e4: "r2 = 1461 * n4 + r3" "0 \<le> r3" "r3 < 1461"
    unfolding r3_def n4_def by (simp_all add: minus_mult_div_eq_mod)
  show n4: "0 \<le> n4 \<and> n4 \<le> 24" using r2 e4 by linarith
  have r3: "n4 \<noteq> 24 \<or> n100 = 3 \<or> r3 < 1460" using r2(3) e4 n100 by linarith
  have e1: "r3 = 365 * (r3 div 365) + r3 mod 365" "0 \<le> r3 mod 365" "r3 mod 365 < 365"
    by simp_all
  show n1: "0 \<le> n1 \<and> n1 \<le> 3" using e4 by (auto simp: n1_def pos_imp_zdiv_nonneg_iff)
  show "0 \<le> r3 - 365 * n1 \<and> r3 - 365 * n1 \<le> 365"
    using e4(2,3) e1 unfolding n1_def min_def by (cases "3 \<le> r3 div 365") auto
  show "r3 - 365 * n1 = 365 \<Longrightarrow> n1 = 3 \<and> (n4 = 24 \<longrightarrow> n100 = 3)"
    using e4(2,3) e1 r3 n100 unfolding n1_def min_def
    by (cases "3 \<le> r3 div 365") auto
  show "d = 146097 * n400 + 36524 * n100 + 1461 * n4 + 365 * n1 + (r3 - 365 * n1)"
    unfolding r3_def r2_def n400_def r_def by simp
qed

lemma year_of_days_spec:
  assumes "year_of_days d = (y, yd)"
  shows "0 \<le> yd \<and> yd \<le> 365 \<and> (yd = 365 \<longrightarrow> leap y) \<and> d = days_before_year y + yd"
proof -
  define n400 r where "n400 = d div 146097" and "r = d mod 146097"
  define n100 where "n100 = min 3 (r div 36524)"
  define r2 where "r2 = r - 36524 * n100"
  define n4 where "n4 = r2 div 1461"
  define r3 where "r3 = r2 - 1461 * n4"
  define n1 where "n1 = min 3 (r3 div 365)"
  note c = cycles [of d, folded n400_def r_def, folded n100_def, folded r2_def,
      folded n4_def, folded r3_def, folded n1_def]
  have y: "y = 400 * n400 + 100 * n100 + 4 * n4 + n1 + 1" and yd: "yd = r3 - 365 * n1"
    using assms [unfolded year_of_days_def Let_def, folded n400_def r_def, folded n100_def,
        folded r2_def, folded n4_def, folded r3_def, folded n1_def] by simp_all
  have z: "y - 1 = 400 * n400 + (100 * n100 + (4 * n4 + n1))" using y by simp
  have b: "0 \<le> 100 * n100 + (4 * n4 + n1)" "100 * n100 + (4 * n4 + n1) < 400"
    "0 \<le> 4 * n4 + n1" "4 * n4 + n1 < 100"
    using c(1-3) by linarith+
  have q: "(y - 1) div 400 = n400" "(y - 1) mod 400 = 100 * n100 + (4 * n4 + n1)"
    unfolding z using b(1,2) by (simp_all add: int_div_pos_eq int_mod_pos_eq)
  have q2: "(100 * n100 + (4 * n4 + n1)) div 100 = n100"
    "(100 * n100 + (4 * n4 + n1)) mod 100 = 4 * n4 + n1"
    using b(3,4) by (simp_all add: int_div_pos_eq int_mod_pos_eq)
  have q3: "(4 * n4 + n1) div 4 = n4" "(4 * n4 + n1) mod 4 = n1"
    using c(3) by (simp_all add: int_div_pos_eq int_mod_pos_eq)
  have "days_before_year y = 146097 * n400 + 36524 * n100 + 1461 * n4 + 365 * n1"
    using b(3,4) c(3) by (simp add: days_before_year_def Let_def q q2 q3 mod_pos_pos_trivial)
  moreover have "leap y" if "yd = 365"
  proof -
    have n1: "n1 = 3" and n4: "n4 = 24 \<longrightarrow> n100 = 3" using c(5) that yd by auto
    have y': "y = 4 * (100 * n400 + 25 * n100 + n4 + 1)" using y n1 by simp
    then have "y mod 4 = 0" by simp
    moreover have "y mod 100 \<noteq> 0 \<or> y mod 400 = 0"
    proof (cases "n4 = 24")
      case True
      then have "y = 400 * (n400 + 1)" using n4 y n1 by simp
      then show ?thesis by simp
    next
      case False
      then have "y = 100 * (4 * n400 + n100) + (4 * n4 + 4)" "0 < 4 * n4 + 4" "4 * n4 + 4 < 100"
        using y n1 c(2) by auto
      then have "y mod 100 = 4 * n4 + 4"
        by (intro int_mod_pos_eq [where q = "4 * n400 + n100"]) auto
      then show ?thesis using c(2) by auto
    qed
    ultimately show ?thesis by (simp add: leap_def)
  qed
  ultimately show ?thesis using c(4,6) yd by auto
qed

lemma sum_month_lengths: "sum_list (month_lengths l) = (if l then 366 else 365)"
  by (simp add: month_lengths_def)

lemma length_month_lengths [simp]: "length (month_lengths l) = 12"
  by (simp add: month_lengths_def)

lemma month_lengths_bound: "i < 12 \<Longrightarrow> month_lengths l ! i \<le> 31"
  by (auto simp: month_lengths_def less_Suc_eq numeral_eq_Suc)

lemma date_of_days_spec:
  assumes "date_of_days d = (y, m, dd)"
  shows "1 \<le> m \<and> m \<le> 12 \<and> 1 \<le> dd \<and> dd \<le> month_lengths (leap y) ! (m - 1) \<and>
    days_of_date y m dd = d"
proof -
  obtain yd where yd: "year_of_days d = (y, yd)"
    using assms by (auto simp: date_of_days_def split: prod.splits)
  obtain i r where md: "month_day (month_lengths (leap y)) yd = (i, r)" by fastforce
  have mdd: "m = i + 1" "dd = r + 1"
    using assms by (simp_all add: date_of_days_def yd md)
  note s = year_of_days_spec [OF yd]
  have "yd < sum_list (month_lengths (leap y))"
    using s by (auto simp: sum_month_lengths)
  from month_day_spec [OF _ this md] s
  have "i < 12 \<and> 0 \<le> r \<and> r < month_lengths (leap y) ! i \<and>
    yd = sum_list (take i (month_lengths (leap y))) + r" by auto
  then show ?thesis
    using s mdd by (auto simp: days_of_date_def)
qed

section \<open>RFC 3339\<close>

text \<open>\<open>Time.MarshalText\<close> of a UTC instant; an error outside the years 0 to 9999.\<close>

definition strip_zeros :: "string \<Rightarrow> string" where
  "strip_zeros s = rev (dropWhile (\<lambda>c. c = CHR ''0'') (rev s))"

definition format_frac :: "nat \<Rightarrow> string" where
  "format_frac ns = (if ns = 0 then [] else CHR ''.'' # strip_zeros (digs 9 ns))"

definition format_time :: "nat \<Rightarrow> nat \<Rightarrow> nat \<Rightarrow> nat \<Rightarrow> nat \<Rightarrow> string" where
  "format_time y m d sec ns =
     digs 4 y @ ''-'' @ digs 2 m @ ''-'' @ digs 2 d @ ''T''
     @ digs 2 (sec div 3600) @ '':'' @ digs 2 (sec div 60 mod 60) @ '':''
     @ digs 2 (sec mod 60) @ format_frac ns @ ''Z''"

definition MarshalText :: "time \<Rightarrow> string option" where
  "MarshalText t =
     (case date_of_days (t div day_ns) of (y, m, d) \<Rightarrow>
        if y < 0 \<or> 9999 < y then None
        else Some (format_time (nat y) m (nat d) (nat (t mod day_ns div Second))
                     (nat (t mod Second))))"

text \<open>\<open>parseUint\<close> of Go's \<open>parseRFC3339\<close>.\<close>

definition parse_range :: "string \<Rightarrow> nat \<Rightarrow> nat \<Rightarrow> nat option" where
  "parse_range s lo hi =
     (if list_all is_digit s \<and> lo \<le> dec_val s \<and> dec_val s \<le> hi then Some (dec_val s) else None)"

text \<open>\<open>parseNanoseconds\<close> on the digits after the point: nine are kept.\<close>

definition nanos :: "string \<Rightarrow> nat" where
  "nanos ds = dec_val (take 9 (ds @ replicate 9 (CHR ''0'')))"

definition parse_zone :: "string \<Rightarrow> int option" where
  "parse_zone s =
     (if s = ''Z'' then Some 0
      else if length s = 6 \<and> s ! 3 = CHR '':'' \<and> (s ! 0 = CHR ''+'' \<or> s ! 0 = CHR ''-'') then
        (case (parse_range (take 2 (drop 1 s)) 0 23, parse_range (drop 4 s) 0 59) of
           (Some h, Some m) \<Rightarrow>
             let off = int ((h * 60 + m) * 60)
             in Some (if s ! 0 = CHR ''-'' then - off else off)
         | _ \<Rightarrow> None)
      else None)"

definition parseRFC3339 :: "string \<Rightarrow> time option" where
  "parseRFC3339 s =
     (if length s < 19 then None
      else case (parse_range (take 4 s) 0 9999, parse_range (take 2 (drop 5 s)) 1 12) of
        (Some y, Some mo) \<Rightarrow>
          (case (parse_range (take 2 (drop 8 s)) 1
                   (nat (month_lengths (leap (int y)) ! (mo - 1))),
                 parse_range (take 2 (drop 11 s)) 0 23,
                 parse_range (take 2 (drop 14 s)) 0 59,
                 parse_range (take 2 (drop 17 s)) 0 59) of
             (Some d, Some h, Some mi, Some se) \<Rightarrow>
               if s ! 4 = CHR ''-'' \<and> s ! 7 = CHR ''-'' \<and> s ! 10 = CHR ''T''
                  \<and> s ! 13 = CHR '':'' \<and> s ! 16 = CHR '':'' then
                 (let r = drop 19 s;
                      frac = (if 2 \<le> length r \<and> r ! 0 = CHR ''.'' \<and> is_digit (r ! 1)
                              then takeWhile is_digit (tl r) else []);
                      z = (if frac = [] then r else drop (Suc (length frac)) r)
                  in map_option
                       (\<lambda>off. (days_of_date (int y) mo (int d) * 86400
                                + int (h * 3600 + mi * 60 + se) - off) * Second
                              + int (nanos frac))
                       (parse_zone z))
               else None
           | _ \<Rightarrow> None)
      | _ \<Rightarrow> None)"

text \<open>The general parser takes one field after the other: \<open>getnum\<close> is a number of two digits,
  or of one if that is not excluded.\<close>

fun getnum :: "bool \<Rightarrow> string \<Rightarrow> (nat \<times> string) option" where
  "getnum fixed [] = None"
| "getnum fixed [a] = (if is_digit a \<and> \<not> fixed then Some (digit_val a, []) else None)"
| "getnum fixed (a # b # s) =
     (if \<not> is_digit a then None
      else if is_digit b then Some (10 * digit_val a + digit_val b, s)
      else if fixed then None
      else Some (digit_val a, b # s))"

definition get_range :: "bool \<Rightarrow> nat \<Rightarrow> nat \<Rightarrow> string \<Rightarrow> (nat \<times> string) option" where
  "get_range fixed lo hi s =
     (case getnum fixed s of
        None \<Rightarrow> None
      | Some (n, r) \<Rightarrow> if lo \<le> n \<and> n \<le> hi then Some (n, r) else None)"

fun get_mark :: "char \<Rightarrow> string \<Rightarrow> string option" where
  "get_mark c [] = None"
| "get_mark c (x # s) = (if x = c then Some s else None)"

definition get_year :: "string \<Rightarrow> (nat \<times> string) option" where
  "get_year s =
     (if length s < 4 \<or> \<not> list_all is_digit (take 4 s) then None
      else Some (dec_val (take 4 s), drop 4 s))"

definition get_fraction :: "string \<Rightarrow> nat \<times> string" where
  "get_fraction s =
     (if 2 \<le> length s \<and> (s ! 0 = CHR ''.'' \<or> s ! 0 = CHR '','') \<and> is_digit (s ! 1) then
        let ds = takeWhile is_digit (tl s) in (nanos ds, drop (Suc (length ds)) s)
      else (0, s))"

text \<open>The offset of the zone in seconds; it must end the text.\<close>

definition get_zone :: "string \<Rightarrow> int option" where
  "get_zone s =
     (if s = ''Z'' then Some 0
      else if length s = 6 \<and> s ! 3 = CHR '':'' then
        (case (get_range True 0 24 (take 2 (drop 1 s)), get_range True 0 60 (drop 4 s)) of
           (Some (h, _), Some (m, _)) \<Rightarrow>
             let off = int ((h * 60 + m) * 60) in
             if s ! 0 = CHR ''+'' then Some off
             else if s ! 0 = CHR ''-'' then Some (- off)
             else None
         | _ \<Rightarrow> None)
      else None)"

definition parse_layout :: "string \<Rightarrow> time option" where
  "parse_layout s0 = do {
     (y, s) \<leftarrow> get_year s0;
     s \<leftarrow> get_mark (CHR ''-'') s;
     (mo, s) \<leftarrow> get_range True 1 12 s;
     s \<leftarrow> get_mark (CHR ''-'') s;
     (d, s) \<leftarrow> getnum True s;
     s \<leftarrow> get_mark (CHR ''T'') s;
     (h, s) \<leftarrow> get_range False 0 23 s;
     s \<leftarrow> get_mark (CHR '':'') s;
     (mi, s) \<leftarrow> get_range True 0 59 s;
     s \<leftarrow> get_mark (CHR '':'') s;
     (se, s) \<leftarrow> get_range True 0 59 s;
     off \<leftarrow> get_zone (snd (get_fraction s));
     if d < 1 \<or> month_lengths (leap (int y)) ! (mo - 1) < int d then None
     else Some ((days_of_date (int y) mo (int d) * 86400 + int (h * 3600 + mi * 60 + se) - off) * Second
                + int (fst (get_fraction s)))
   }"

definition UnmarshalText :: "string \<Rightarrow> time option" where
  "UnmarshalText s = (case parseRFC3339 s of Some t \<Rightarrow> Some t | None \<Rightarrow> parse_layout s)"

section \<open>Round trip of instants\<close>

definition valid_time :: "time \<Rightarrow> bool" where
  "valid_time t \<longleftrightarrow> MarshalText t \<noteq> None"

lemma strip_zeros_pad: "\<exists>k. s = strip_zeros s @ replicate k (CHR ''0'')"
proof -
  have "\<exists>k. takeWhile (\<lambda>c. c = CHR ''0'') (rev s) = replicate k (CHR ''0'')"
    by (rule exI [of _ "length (takeWhile (\<lambda>c. c = CHR ''0'') (rev s))"])
       (auto intro!: replicate_eqI dest: set_takeWhileD)
  then obtain k where "takeWhile (\<lambda>c. c = CHR ''0'') (rev s) = replicate k (CHR ''0'')" ..
  then have "rev s = replicate k (CHR ''0'') @ dropWhile (\<lambda>c. c = CHR ''0'') (rev s)"
    by (metis takeWhile_dropWhile_id)
  then have "s = strip_zeros s @ replicate k (CHR ''0'')"
    by (metis rev_append rev_replicate rev_rev_ident strip_zeros_def)
  then show ?thesis ..
qed

lemma nanos_strip:
  assumes "n < 10 ^ 9"
  shows "nanos (strip_zeros (digs 9 n)) = n"
proof -
  obtain k where k: "digs 9 n = strip_zeros (digs 9 n) @ replicate k (CHR ''0'')"
    using strip_zeros_pad by blast
  then have "length (digs 9 n) = length (strip_zeros (digs 9 n)) + k"
    by (metis length_append length_replicate)
  then have le: "k \<le> 9" and l9: "length (strip_zeros (digs 9 n)) + k = 9" by simp_all
  have "take 9 (strip_zeros (digs 9 n) @ replicate 9 (CHR ''0''))
      = strip_zeros (digs 9 n) @ replicate k (CHR ''0'')"
    using l9 by (simp add: min_def)
  then show ?thesis
    using assms k by (metis dec_val_digs nanos_def)
qed

lemma strip_zeros_digits: "list_all is_digit (strip_zeros (digs 9 n))"
  using strip_zeros_pad [of "digs 9 n"] list_all_digs [of 9 n] by (metis list_all_append)

lemma dec_val_zeros: "dec_val (replicate k (CHR ''0'')) = 0"
  by (induction k) (simp_all add: dec_val_def digit_val_def)

lemma strip_zeros_nonempty:
  assumes "0 < n" "n < 10 ^ 9"
  shows "strip_zeros (digs 9 n) \<noteq> []"
proof
  assume "strip_zeros (digs 9 n) = []"
  then have "nanos (strip_zeros (digs 9 n)) = 0"
    using dec_val_zeros [of 9] by (simp add: nanos_def)
  with assms show False by (simp add: nanos_strip)
qed

lemma parse_range_digs: "n < 10 ^ w \<Longrightarrow> lo \<le> n \<Longrightarrow> n \<le> hi \<Longrightarrow> parse_range (digs w n) lo hi = Some n"
  by (simp add: parse_range_def)

lemma drop_format_time:
  "drop 19 (format_time y m d sec ns) = format_frac ns @ ''Z''"
  by (simp add: format_time_def)

lemma format_time_fields:
  "take 4 (format_time y m d sec ns) = digs 4 y"
  "take 2 (drop 5 (format_time y m d sec ns)) = digs 2 m"
  "take 2 (drop 8 (format_time y m d sec ns)) = digs 2 d"
  "take 2 (drop 11 (format_time y m d sec ns)) = digs 2 (sec div 3600)"
  "take 2 (drop 14 (format_time y m d sec ns)) = digs 2 (sec div 60 mod 60)"
  "take 2 (drop 17 (format_time y m d sec ns)) = digs 2 (sec mod 60)"
  by (simp_all add: format_time_def)

lemma format_time_marks:
  "format_time y m d sec ns ! 4 = CHR ''-''" "format_time y m d sec ns ! 7 = CHR ''-''"
  "format_time y m d sec ns ! 10 = CHR ''T''" "format_time y m d sec ns ! 13 = CHR '':''"
  "format_time y m d sec ns ! 16 = CHR '':''" "19 \<le> length (format_time y m d sec ns)"
  by (simp_all add: format_time_def nth_append)

lemma frac_zone:
  assumes "ns < 10 ^ 9"
  defines "r \<equiv> format_frac ns @ ''Z''"
  defines "frac \<equiv> (if 2 \<le> length r \<and> r ! 0 = CHR ''.'' \<and> is_digit (r ! 1)
                   then takeWhile is_digit (tl r) else [])"
  shows "nanos frac = ns" "(if frac = [] then r else drop (Suc (length frac)) r) = ''Z''"
proof -
  have nz: "nanos [] = 0" using dec_val_zeros [of 9] by (simp add: nanos_def)
  have "nanos frac = ns \<and> (if frac = [] then r else drop (Suc (length frac)) r) = ''Z''"
  proof (cases "ns = 0")
    case True
    then show ?thesis by (simp add: r_def frac_def format_frac_def nz)
  next
    case False
    let ?d = "strip_zeros (digs 9 ns)"
    have ne: "?d \<noteq> []" using False assms(1) strip_zeros_nonempty by simp
    have dg: "\<forall>c \<in> set ?d. is_digit c" using strip_zeros_digits by (simp add: list_all_iff)
    have r: "r = CHR ''.'' # ?d @ ''Z''" using False by (simp add: r_def format_frac_def)
    have "takeWhile is_digit (?d @ ''Z'') = ?d"
      using dg by (intro takeWhile_append_stop) (auto simp: is_digit_def)
    moreover have "is_digit (r ! 1)" using ne dg r by (cases ?d) auto
    moreover have "2 \<le> length r" using ne r by (cases ?d) auto
    ultimately have "frac = ?d" by (simp add: frac_def r)
    then show ?thesis using ne r assms(1) nanos_strip by simp
  qed
  then show "nanos frac = ns" "(if frac = [] then r else drop (Suc (length frac)) r) = ''Z''"
    by blast+
qed

lemma clock_fields:
  fixes t :: int
  defines "sec \<equiv> nat (t mod day_ns div Second)" and "ns \<equiv> nat (t mod Second)"
  shows "sec < 86400" "ns < 10 ^ 9"
    "(t div day_ns * 86400 + int sec) * Second + int ns = t"
proof -
  have b: "0 \<le> t mod day_ns" "t mod day_ns < day_ns" by (simp_all add: day_ns_def Second_def)
  then show "sec < 86400" by (simp add: sec_def day_ns_def Second_def)
  show "ns < 10 ^ 9" by (simp add: ns_def Second_def)
  have "t mod day_ns mod Second = t mod Second"
    by (simp add: day_ns_def Second_def mod_mod_cancel)
  then have "t mod day_ns = Second * (t mod day_ns div Second) + t mod Second"
    by (metis mult_div_mod_eq)
  moreover have "t = day_ns * (t div day_ns) + t mod day_ns" by simp
  moreover have "int sec = t mod day_ns div Second" "int ns = t mod Second"
    using b by (simp_all add: sec_def ns_def Second_def pos_imp_zdiv_nonneg_iff)
  moreover have "(q * 86400 + i) * Second = day_ns * q + Second * i" for q i
    by (simp add: day_ns_def Second_def algebra_simps)
  ultimately show "(t div day_ns * 86400 + int sec) * Second + int ns = t"
    by (metis add.assoc)
qed

lemma clock_join: "(sec div 3600) * 3600 + (sec div 60 mod 60) * 60 + sec mod 60 = (sec :: nat)"
proof -
  have "sec div 3600 = sec div 60 div 60" by (simp add: div_mult2_eq [symmetric])
  moreover have "sec div 60 div 60 * 60 + sec div 60 mod 60 = sec div 60"
    "sec div 60 * 60 + sec mod 60 = sec"
    by simp_all
  ultimately show ?thesis by linarith
qed

lemma parseRFC3339_MarshalText:
  assumes "MarshalText t = Some s"
  shows "parseRFC3339 s = Some t"
proof -
  obtain yi m di where ymd: "date_of_days (t div day_ns) = (yi, m, di)"
    by (metis prod_cases3)
  define sec ns where "sec = nat (t mod day_ns div Second)" and "ns = nat (t mod Second)"
  note date = date_of_days_spec [OF ymd]
  have "0 \<le> yi" "yi \<le> 9999"
    using assms by (auto simp: MarshalText_def ymd split: if_splits)
  then obtain y where y: "yi = int y" "y \<le> 9999" by (auto elim: nonneg_int_cases)
  have "0 \<le> di" using date by simp
  then obtain d where d: "di = int d" by (rule nonneg_int_cases)
  have s: "s = format_time y m d sec ns"
    using assms y d by (simp add: MarshalText_def ymd sec_def ns_def split: if_splits)
  note clock = clock_fields [of t, folded sec_def ns_def]
  have d31: "d \<le> 31" using date d month_lengths_bound [of "m - 1" "leap yi"] by linarith
  have py: "parse_range (take 4 s) 0 9999 = Some y"
    and pm: "parse_range (take 2 (drop 5 s)) 1 12 = Some m"
    and ph: "parse_range (take 2 (drop 11 s)) 0 23 = Some (sec div 3600)"
    and pi: "parse_range (take 2 (drop 14 s)) 0 59 = Some (sec div 60 mod 60)"
    and ps: "parse_range (take 2 (drop 17 s)) 0 59 = Some (sec mod 60)"
    unfolding s format_time_fields using y(2) date clock(1) by (simp_all add: parse_range_digs)
  have "1 \<le> d" "d \<le> nat (month_lengths (leap (int y)) ! (m - 1))"
    using date y(1) d by auto
  then have pd: "parse_range (take 2 (drop 8 s)) 1
      (nat (month_lengths (leap (int y)) ! (m - 1))) = Some d"
    unfolding s format_time_fields nat_int using d31 by (intro parse_range_digs) simp_all
  have len: "(length s < 19) = False"
    using format_time_marks(6) [of y m d sec ns] by (simp add: s)
  have z: "parse_zone ''Z'' = Some 0" by (simp add: parse_zone_def)
  have t: "(days_of_date (int y) m (int d) * 86400 +
      int (sec div 3600 * 3600 + sec div 60 mod 60 * 60 + sec mod 60) - 0) * Second + int ns = t"
    using clock(3) date y(1) d by (simp only: clock_join) simp
  show ?thesis
    unfolding parseRFC3339_def len if_False py pm pd ph pi ps option.case prod.case
      format_time_marks [of y m d sec ns, folded s] simp_thms if_True Let_def
      drop_format_time [of y m d sec ns, folded s] frac_zone [OF clock(2)] z option.map t ..
qed

lemma UnmarshalText_MarshalText [go_codec]: "MarshalText t = Some s \<Longrightarrow> UnmarshalText s = Some t"
  by (simp add: UnmarshalText_def parseRFC3339_MarshalText)

text \<open>Both parsers on a text without fraction, and texts only the general one takes.\<close>

lemma nines: "replicate 9 x = [x, x, x, x, x, x, x, x, x]"
  by (simp add: numeral_eq_Suc)

lemma UnmarshalText_examples:
  "parse_layout ''2024-02-29T12:30:00Z'' = parseRFC3339 ''2024-02-29T12:30:00Z''"
  "parseRFC3339 ''2024-02-29T1:30:00,5+24:60'' = None"
  "UnmarshalText ''2024-02-29T1:30:00,5+24:60'' =
     map_option (\<lambda>t. t + 500000000) (parseRFC3339 ''2024-02-28T00:30:00Z'')"
  "UnmarshalText ''2023-02-29T12:30:00Z'' = None"
  by (simp_all add: UnmarshalText_def parse_layout_def parseRFC3339_def parse_range_def get_year_def
      get_range_def get_fraction_def get_zone_def parse_zone_def is_digit_def dec_val_def digit_val_def
      nanos_def leap_def month_lengths_def days_of_date_def days_before_year_def Let_def Second_def
      take_Cons' drop_Cons' nth_Cons' nines)

interpretation time_text: codec "\<lambda>t. the (MarshalText t)" UnmarshalText valid_time
  by unfold_locales (auto simp: valid_time_def UnmarshalText_MarshalText)

text \<open>Every instant from the zero time to the end of the year 9999 has a text form.\<close>

lemma year_bounds:
  assumes "0 \<le> d" "d < 3652059"
  shows "1 \<le> fst (year_of_days d) \<and> fst (year_of_days d) \<le> 9999"
proof -
  obtain y yd where yd: "year_of_days d = (y, yd)" by fastforce
  note s = year_of_days_spec [OF yd]
  define a c where "a = (y - 1) div 400" and "c = (y - 1) mod 400"
  define p q where "p = c div 100" and "q = c mod 100"
  define v w where "v = q div 4" and "w = q mod 4"
  have e: "y - 1 = 400 * a + c" "c = 100 * p + q" "q = 4 * v + w"
    by (simp_all add: a_def c_def p_def q_def v_def w_def)
  have b: "0 \<le> c" "c < 400" "0 \<le> q" "q < 100" "0 \<le> w" "w < 4"
    by (simp_all add: c_def q_def w_def)
  have d: "d = 146097 * a + 36524 * p + 1461 * v + 365 * w + yd"
    using s unfolding days_before_year_def Let_def a_def p_def c_def v_def q_def w_def by blast
  have "0 \<le> a \<and> a \<le> 24 \<and> (a = 24 \<longrightarrow> c \<le> 398)" using d assms s e b by linarith
  then have "0 \<le> y - 1 \<and> y - 1 \<le> 9998" using e(1) b(1,2) by (cases "a = 24") linarith+
  then show ?thesis using yd by simp
qed

lemma valid_timeI: "0 \<le> t \<Longrightarrow> t < 3652059 * day_ns \<Longrightarrow> valid_time t"
proof -
  assume "0 \<le> t" "t < 3652059 * day_ns"
  then have "0 \<le> t div day_ns" "t div day_ns < 3652059"
    by (simp_all add: day_ns_def Second_def pos_imp_zdiv_nonneg_iff int_div_less_self
        div_less_iff_less_mult)
  from year_bounds [OF this] show ?thesis
    by (auto simp: valid_time_def MarshalText_def date_of_days_def split: prod.splits)
qed

end
