(* ===== verification/Go_Json_String.thy ===== *)
theory Go_Json_String
  imports Go_Time
begin

text \<open>
  String literals of package \<open>encoding/json\<close>: how \<open>json.Marshal\<close> quotes a Go string (HTML
  characters and line separators escaped, invalid UTF-8 replaced) and how \<open>json.Unmarshal\<close>
  reads a literal back.  The two are inverse up to the replacement of invalid UTF-8.
\<close>

section \<open>UTF-8\<close>

definition cont_byte :: "nat \<Rightarrow> bool" where
  "cont_byte b \<longleftrightarrow> 128 \<le> b \<and> b \<le> 191"

definition lead3 :: "nat \<Rightarrow> nat \<Rightarrow> bool" where
  "lead3 a b \<longleftrightarrow> a = 224 \<and> 160 \<le> b \<and> b \<le> 191 \<or> a = 237 \<and> 128 \<le> b \<and> b \<le> 159 \<or>
     225 \<le> a \<and> a \<le> 239 \<and> a \<noteq> 237 \<and> cont_byte b"

definition lead4 :: "nat \<Rightarrow> nat \<Rightarrow> bool" where
  "lead4 a b \<longleftrightarrow> a = 240 \<and> 144 \<le> b \<and> b \<le> 191 \<or> a = 244 \<and> 128 \<le> b \<and> b \<le> 143 \<or>
     241 \<le> a \<and> a \<le> 243 \<and> cont_byte b"

text \<open>The length of the multi-byte sequence at the head of the bytes, 0 where it is invalid.\<close>

fun utf8_len :: "bytes \<Rightarrow> nat" where
  "utf8_len (a # b # r) =
     (let x = nat_of_byte a; y = nat_of_byte b in
      if 194 \<le> x \<and> x \<le> 223 \<and> cont_byte y then 2
      else if lead3 x y then
        (case r of c # _ \<Rightarrow> if cont_byte (nat_of_byte c) then 3 else 0 | [] \<Rightarrow> 0)
      else if lead4 x y then
        (case r of c # d # _ \<Rightarrow>
             if cont_byte (nat_of_byte c) \<and> cont_byte (nat_of_byte d) then 4 else 0
         | _ \<Rightarrow> 0)
      else 0)"
| "utf8_len _ = 0"

definition utf8_encode :: "nat \<Rightarrow> bytes" where
  "utf8_encode n =
     (if n < 128 then [byte_of n]
      else if n < 2048 then [byte_of (192 + n div 64), byte_of (128 + n mod 64)]
      else if n < 65536 then
        [byte_of (224 + n div 4096), byte_of (128 + n div 64 mod 64), byte_of (128 + n mod 64)]
      else
        [byte_of (240 + n div 262144), byte_of (128 + n div 4096 mod 64),
         byte_of (128 + n div 64 mod 64), byte_of (128 + n mod 64)])"

definition rune_error :: bytes where
  "rune_error = [CHR 0xEF, CHR 0xBF, CHR 0xBD]"

lemma utf8_len_le: "utf8_len s \<le> length s"
  by (cases s rule: utf8_len.cases) (auto simp: Let_def split: list.splits)

lemma utf8_len_range: "utf8_len s \<noteq> 0 \<Longrightarrow> 2 \<le> utf8_len s \<and> utf8_len s \<le> 4"
  by (cases s rule: utf8_len.cases) (auto simp: Let_def split: list.splits if_splits)

lemma utf8_len_take:
  "utf8_len s \<noteq> 0 \<Longrightarrow> utf8_len (take (utf8_len s) s @ t) = utf8_len s"
  by (cases s rule: utf8_len.cases)
     (auto simp: Let_def numeral_eq_Suc split: list.splits if_splits)

section \<open>Quoting\<close>

abbreviation bsl :: char where
  "bsl \<equiv> CHR 0x5C"

definition hex_digit :: "nat \<Rightarrow> char" where
  "hex_digit n = (if n < 10 then digit n else char_of (87 + n))"

definition hex_val :: "char \<Rightarrow> nat option" where
  "hex_val c =
     (let n = nat_of_byte c in
      if 48 \<le> n \<and> n \<le> 57 then Some (n - 48)
      else if 97 \<le> n \<and> n \<le> 102 then Some (n - 87)
      else if 65 \<le> n \<and> n \<le> 70 then Some (n - 55) else None)"

lemma hex_val_digit [simp]: "n < 16 \<Longrightarrow> hex_val (hex_digit n) = Some n"
  by (auto simp: hex_val_def hex_digit_def digit_def Let_def)

definition u00 :: "char \<Rightarrow> string" where
  "u00 c = (bsl # ''u00'') @ [hex_digit (nat_of_byte c div 16), hex_digit (nat_of_byte c mod 16)]"

definition quote_ascii :: "char \<Rightarrow> string" where
  "quote_ascii c =
     (if c = bsl \<or> c = CHR 0x22 then [bsl, c]
      else if c = CHR 0x08 then (bsl # ''b'') else if c = CHR 0x0C then (bsl # ''f'')
      else if c = CHR 0x0A then (bsl # ''n'') else if c = CHR 0x0D then (bsl # ''r'')
      else if c = CHR 0x09 then (bsl # ''t'')
      else if nat_of_byte c < 32 \<or> c = CHR ''<'' \<or> c = CHR ''>'' \<or> c = CHR ''&'' then u00 c
      else [c])"

function quote_body :: "bytes \<Rightarrow> string" where
  "quote_body [] = []"
| "quote_body (x # xs) =
     (if nat_of_byte x < 128 then quote_ascii x @ quote_body xs
      else
        let n = utf8_len (x # xs) in
        if n = 0 then (bsl # ''ufffd'') @ quote_body xs
        else if take 3 (x # xs) = [CHR 0xE2, CHR 0x80, CHR 0xA8] then
          (bsl # ''u2028'') @ quote_body (drop 2 xs)
        else if take 3 (x # xs) = [CHR 0xE2, CHR 0x80, CHR 0xA9] then
          (bsl # ''u2029'') @ quote_body (drop 2 xs)
        else take n (x # xs) @ quote_body (drop (n - 1) xs))"
  by pat_completeness auto
termination
  by (relation "measure length") auto

section \<open>Reading a literal\<close>

fun getu4 :: "string \<Rightarrow> nat option" where
  "getu4 (a # b # c # d # _) =
     (case (hex_val a, hex_val b, hex_val c, hex_val d) of
        (Some p, Some q, Some r, Some s) \<Rightarrow> Some (((p * 16 + q) * 16 + r) * 16 + s)
      | _ \<Rightarrow> None)"
| "getu4 _ = None"

definition unescape :: "char \<Rightarrow> char option" where
  "unescape e =
     (if e = CHR 0x22 \<or> e = bsl \<or> e = slash then Some e
      else if e = CHR ''b'' then Some (CHR 0x08) else if e = CHR ''f'' then Some (CHR 0x0C)
      else if e = CHR ''n'' then Some (CHR 0x0A) else if e = CHR ''r'' then Some (CHR 0x0D)
      else if e = CHR ''t'' then Some (CHR 0x09) else None)"

definition app_fst :: "'a list \<Rightarrow> ('a list \<times> 'b) option \<Rightarrow> ('a list \<times> 'b) option" where
  "app_fst xs = map_option (\<lambda>(ys, r). (xs @ ys, r))"

lemma app_fst_Some [simp]: "app_fst xs (Some (ys, r)) = Some (xs @ ys, r)"
  by (simp add: app_fst_def)

text \<open>The low half of a surrogate pair written as a second escape.\<close>

definition low_surrogate :: "string \<Rightarrow> nat option" where
  "low_surrogate s =
     (if take 2 s = (bsl # ''u'') then
        (case getu4 (drop 2 s) of
           Some l \<Rightarrow> if 56320 \<le> l \<and> l \<le> 57343 then Some l else None
         | None \<Rightarrow> None)
      else None)"

text \<open>The input starts after the opening quote; the result is the decoded string and the
  text after the closing quote.\<close>

function unquote :: "string \<Rightarrow> (bytes \<times> string) option" where
  "unquote [] = None"
| "unquote (x # xs) =
     (if x = CHR 0x22 then Some ([], xs)
      else if x = bsl then
        (case xs of
           [] \<Rightarrow> None
         | e # ys \<Rightarrow>
             if e = CHR ''u'' then
               (case getu4 ys of
                  None \<Rightarrow> None
                | Some u \<Rightarrow>
                    if 55296 \<le> u \<and> u \<le> 57343 then
                      (case (if u < 56320 then low_surrogate (drop 4 ys) else None) of
                         Some l \<Rightarrow>
                           app_fst (utf8_encode (65536 + (u - 55296) * 1024 + (l - 56320)))
                             (unquote (drop 10 ys))
                       | None \<Rightarrow> app_fst rune_error (unquote (drop 4 ys)))
                    else app_fst (utf8_encode u) (unquote (drop 4 ys)))
             else
               (case unescape e of
                  None \<Rightarrow> None
                | Some c \<Rightarrow> app_fst [c] (unquote ys)))
      else if nat_of_byte x < 32 then None
      else if nat_of_byte x < 128 then app_fst [x] (unquote xs)
      else
        let n = utf8_len (x # xs) in
        if n = 0 then app_fst rune_error (unquote xs)
        else app_fst (take n (x # xs)) (unquote (drop (n - 1) xs)))"
  by pat_completeness auto
termination
  by (relation "measure length") auto

text \<open>What a round trip does to a string: invalid UTF-8 becomes U+FFFD.\<close>

function sanitize :: "bytes \<Rightarrow> bytes" where
  "sanitize [] = []"
| "sanitize (x # xs) =
     (if nat_of_byte x < 128 then x # sanitize xs
      else
        let n = utf8_len (x # xs) in
        if n = 0 then rune_error @ sanitize xs
        else take n (x # xs) @ sanitize (drop (n - 1) xs))"
  by pat_completeness auto
termination
  by (relation "measure length") auto

declare quote_body.simps(2) [simp del] unquote.simps(2) [simp del] sanitize.simps(2) [simp del]

lemma sanitize_ascii: "list_all (\<lambda>c. nat_of_byte c < 128) s \<Longrightarrow> sanitize s = s"
  by (induction s) (auto simp: sanitize.simps(2))

section \<open>Round trip of strings\<close>

lemma nat_of_byte_eq_iff: "nat_of_byte c = n \<longleftrightarrow> n < 256 \<and> c = char_of n"
  by auto

lemma byte_of_nat [simp]: "byte_of (nat_of_byte c) = c"
  by simp

lemma unquote_bsl:
  "unquote (bsl # e # ys) =
     (if e = CHR ''u'' then
        (case getu4 ys of
           None \<Rightarrow> None
         | Some u \<Rightarrow>
             if 55296 \<le> u \<and> u \<le> 57343 then
               (case (if u < 56320 then low_surrogate (drop 4 ys) else None) of
                  Some l \<Rightarrow>
                    app_fst (utf8_encode (65536 + (u - 55296) * 1024 + (l - 56320)))
                      (unquote (drop 10 ys))
                | None \<Rightarrow> app_fst rune_error (unquote (drop 4 ys)))
             else app_fst (utf8_encode u) (unquote (drop 4 ys)))
      else (case unescape e of None \<Rightarrow> None | Some c \<Rightarrow> app_fst [c] (unquote ys)))"
  by (subst unquote.simps(2)) simp

lemma getu4_u00: "getu4 (tl (tl (u00 c)) @ t) = Some (nat_of_byte c)"
proof -
  have "nat_of_byte c div 16 < 16" by (simp add: less_mult_imp_div_less)
  moreover have "hex_val (CHR ''0'') = Some 0" by (simp add: hex_val_def)
  ultimately show ?thesis by (simp add: u00_def)
qed

lemma unquote_u00:
  assumes "nat_of_byte c < 128"
  shows "unquote (u00 c @ t) = app_fst [c] (unquote t)"
  using assms getu4_u00 [of c t]
  by (simp add: u00_def unquote_bsl utf8_encode_def)

lemma unquote_quote_ascii:
  assumes "nat_of_byte c < 128"
  shows "unquote (quote_ascii c @ t) = app_fst [c] (unquote t)"
proof -
  have plain: "unquote (c # t) = app_fst [c] (unquote t)"
    if "c \<noteq> bsl" "c \<noteq> CHR 0x22" "\<not> nat_of_byte c < 32"
    using that assms by (simp add: unquote.simps(2))
  show ?thesis
    using assms by (auto simp: quote_ascii_def unquote_bsl unescape_def unquote_u00 plain)
qed

lemma unquote_multibyte:
  assumes "\<not> nat_of_byte x < 128" and n: "n = utf8_len (x # xs)" "n \<noteq> 0"
  shows "unquote (take n (x # xs) @ t) = app_fst (take n (x # xs)) (unquote t)"
proof -
  obtain m where m: "n = Suc m" using n(2) by (cases n) auto
  have len: "n \<le> length (x # xs)" using n(1) utf8_len_le by metis
  have u: "utf8_len (x # take m xs @ t) = n"
    using utf8_len_take [of "x # xs" t, folded n(1)] n(2) m by simp
  have x: "x \<noteq> CHR 0x22" "x \<noteq> bsl" "\<not> nat_of_byte x < 32" using assms(1) by auto
  show ?thesis
    using len x assms(1)
    by (simp add: m unquote.simps(2) [of x "take m xs @ t"] u [unfolded m] Let_def)
qed

lemma byte_of_utf8 [simp]:
  "byte_of 226 = CHR 0xE2" "byte_of 128 = CHR 0x80" "byte_of 168 = CHR 0xA8"
  "byte_of 169 = CHR 0xA9" "byte_of 239 = CHR 0xEF" "byte_of 191 = CHR 0xBF"
  "byte_of 189 = CHR 0xBD"
  by code_simp+

lemma unquote_ufffd: "unquote (bsl # ''ufffd'' @ t) = app_fst rune_error (unquote t)"
  by (simp add: unquote_bsl hex_val_def utf8_encode_def rune_error_def)

lemma unquote_u2028:
  "unquote (bsl # ''u2028'' @ t) = app_fst [CHR 0xE2, CHR 0x80, CHR 0xA8] (unquote t)"
  "unquote (bsl # ''u2029'' @ t) = app_fst [CHR 0xE2, CHR 0x80, CHR 0xA9] (unquote t)"
  by (simp_all add: unquote_bsl hex_val_def utf8_encode_def)

lemma utf8_len_separators:
  assumes "take 3 s = [CHR 0xE2, CHR 0x80, b]" "cont_byte (nat_of_byte b)"
  shows "utf8_len s = 3"
  using assms
  by (cases s rule: utf8_len.cases)
     (auto simp: Let_def lead3_def cont_byte_def numeral_eq_Suc split: list.splits)

lemma separator_eqs:
  assumes "\<not> nat_of_byte x < 128" "take 3 (x # xs) = [CHR 0xE2, CHR 0x80, b]"
    "cont_byte (nat_of_byte b)"
  shows "sanitize (x # xs) = [CHR 0xE2, CHR 0x80, b] @ sanitize (drop 2 xs)"
    "b = CHR 0xA8 \<Longrightarrow> quote_body (x # xs) = bsl # ''u2028'' @ quote_body (drop 2 xs)"
    "b = CHR 0xA9 \<Longrightarrow> quote_body (x # xs) = bsl # ''u2029'' @ quote_body (drop 2 xs)"
  using utf8_len_separators [OF assms(2,3)] assms(1,2)
  by (simp_all only: sanitize.simps(2) quote_body.simps(2) Let_def if_False if_True) auto

lemma unquote_quote [go_codec]:
  "unquote (quote_body s @ CHR 0x22 # t) = Some (sanitize s, t)"
proof (induction s rule: quote_body.induct)
  case 1
  then show ?case by (simp add: unquote.simps(2))
next
  case (2 x xs)
  let ?n = "utf8_len (x # xs)"
  consider (ascii) "nat_of_byte x < 128"
    | (bad) "\<not> nat_of_byte x < 128" "?n = 0"
    | (ls) "\<not> nat_of_byte x < 128" "?n \<noteq> 0" "take 3 (x # xs) = [CHR 0xE2, CHR 0x80, CHR 0xA8]"
    | (ps) "\<not> nat_of_byte x < 128" "?n \<noteq> 0" "take 3 (x # xs) = [CHR 0xE2, CHR 0x80, CHR 0xA9]"
    | (copy) "\<not> nat_of_byte x < 128" "?n \<noteq> 0"
        "take 3 (x # xs) \<noteq> [CHR 0xE2, CHR 0x80, CHR 0xA8]"
        "take 3 (x # xs) \<noteq> [CHR 0xE2, CHR 0x80, CHR 0xA9]"
    by blast
  then show ?case
  proof cases
    case ascii
    with 2(1) show ?thesis
      by (simp add: quote_body.simps(2) sanitize.simps(2) unquote_quote_ascii)
  next
    case bad
    with 2(2) [OF bad(1) refl bad(2)] show ?thesis
      using unquote_ufffd by (simp add: quote_body.simps(2) sanitize.simps(2))
  next
    case ls
    have b: "cont_byte (nat_of_byte (CHR 0xA8))" by (simp add: cont_byte_def)
    show ?thesis
      using 2(3) [OF ls(1) refl ls(2,3)] unquote_u2028(1)
        separator_eqs(1) [OF ls(1,3) b] separator_eqs(2) [OF ls(1,3) b refl] by simp
  next
    case ps
    have b: "cont_byte (nat_of_byte (CHR 0xA9))" by (simp add: cont_byte_def)
    have ne: "take 3 (x # xs) \<noteq> [CHR 0xE2, CHR 0x80, CHR 0xA8]" using ps(3) by simp
    show ?thesis
      using 2(4) [OF ps(1) refl ps(2) ne ps(3)] unquote_u2028(2)
        separator_eqs(1) [OF ps(1,3) b] separator_eqs(3) [OF ps(1,3) b refl] by simp
  next
    case copy
    have "unquote (take ?n (x # xs) @ (quote_body (drop (?n - 1) xs) @ CHR 0x22 # t))
        = Some (take ?n (x # xs) @ sanitize (drop (?n - 1) xs), t)"
      using unquote_multibyte [OF copy(1) refl copy(2)] 2(5) [OF copy(1) refl copy(2-4)] by simp
    then show ?thesis
      using copy
      by (simp only: quote_body.simps(2) sanitize.simps(2) Let_def if_False append_assoc)
  qed
qed

end
