(* ===== verification/Go_Json.thy ===== *)
theory Go_Json
  imports Go_Json_String
begin

text \<open>
  JSON documents: the text \<open>json.Marshal\<close> produces for a document, the parser behind
  \<open>json.Unmarshal\<close>, and their round trip.  The parser is fuelled; every recursive call
  consumes input, and \<open>2 * length s + 1\<close> units are never exhausted (the round-trip lemma
  shows the bound for every printed document).  The nesting limit of 10000 that the Go
  decoder enforces is not modelled.
\<close>

datatype json =
    JNull
  | JBool bool
  | JNum string
  | JStr bytes
  | JArr "json list"
  | JObj "(string \<times> json) list"

section \<open>Printing\<close>

definition quote :: "bytes \<Rightarrow> string" where
  "quote s = CHR 0x22 # quote_body s @ [CHR 0x22]"

fun print_json :: "json \<Rightarrow> string"
  and print_elems :: "json list \<Rightarrow> string"
  and print_members :: "(string \<times> json) list \<Rightarrow> string" where
  "print_json JNull = ''null''"
| "print_json (JBool b) = (if b then ''true'' else ''false'')"
| "print_json (JNum l) = l"
| "print_json (JStr s) = quote s"
| "print_json (JArr vs) = CHR ''['' # print_elems vs @ '']''"
| "print_json (JObj ms) = CHR ''{'' # print_members ms @ ''}''"
| "print_elems [] = []"
| "print_elems (v # vs) = print_json v @ (if vs = [] then [] else CHR '','' # print_elems vs)"
| "print_members [] = []"
| "print_members ((k, v) # ms) =
     quote k @ '':'' @ print_json v @ (if ms = [] then [] else CHR '','' # print_members ms)"

section \<open>Parsing\<close>

definition is_ws :: "char \<Rightarrow> bool" where
  "is_ws c \<longleftrightarrow> c = CHR '' '' \<or> c = CHR 0x09 \<or> c = CHR 0x0A \<or> c = CHR 0x0D"

definition skip_ws :: "string \<Rightarrow> string" where
  "skip_ws = dropWhile is_ws"

text \<open>A run of at least one digit.\<close>

definition digits1 :: "string \<Rightarrow> (string \<times> string) option" where
  "digits1 s =
     (let d = takeWhile is_digit s in if d = [] then None else Some (d, drop (length d) s))"

definition int_part :: "string \<Rightarrow> (string \<times> string) option" where
  "int_part s =
     (if s \<noteq> [] \<and> hd s = CHR ''0'' then Some (''0'', tl s) else digits1 s)"

definition frac_part :: "string \<Rightarrow> (string \<times> string) option" where
  "frac_part s =
     (if s \<noteq> [] \<and> hd s = CHR ''.'' then app_fst ''.'' (digits1 (tl s)) else Some ([], s))"

definition exp_part :: "string \<Rightarrow> (string \<times> string) option" where
  "exp_part s =
     (if s \<noteq> [] \<and> (hd s = CHR ''e'' \<or> hd s = CHR ''E'') then
        (if tl s \<noteq> [] \<and> (hd (tl s) = CHR ''+'' \<or> hd (tl s) = CHR ''-'')
         then app_fst (take 2 s) (digits1 (drop 2 s))
         else app_fst (take 1 s) (digits1 (tl s)))
      else Some ([], s))"

definition parse_number :: "string \<Rightarrow> (string \<times> string) option" where
  "parse_number s =
     (let neg = (s \<noteq> [] \<and> hd s = CHR ''-'');
          sgn = (if neg then ''-'' else [])
      in case int_part (if neg then tl s else s) of
           None \<Rightarrow> None
         | Some (i, r1) \<Rightarrow>
             (case frac_part r1 of
                None \<Rightarrow> None
              | Some (f, r2) \<Rightarrow> app_fst (sgn @ i @ f) (exp_part r2)))"

fun parse_value :: "nat \<Rightarrow> string \<Rightarrow> (json \<times> string) option"
  and parse_elems :: "nat \<Rightarrow> string \<Rightarrow> (json list \<times> string) option"
  and parse_members :: "nat \<Rightarrow> string \<Rightarrow> ((string \<times> json) list \<times> string) option" where
  "parse_value 0 s = None"
| "parse_value (Suc f) s =
     (case skip_ws s of
        [] \<Rightarrow> None
      | c # r \<Rightarrow>
          if c = CHR ''{'' then
            (if skip_ws r \<noteq> [] \<and> hd (skip_ws r) = CHR ''}'' then Some (JObj [], tl (skip_ws r))
             else map_option (\<lambda>(ms, t). (JObj ms, t)) (parse_members f r))
          else if c = CHR ''['' then
            (if skip_ws r \<noteq> [] \<and> hd (skip_ws r) = CHR '']'' then Some (JArr [], tl (skip_ws r))
             else map_option (\<lambda>(vs, t). (JArr vs, t)) (parse_elems f r))
          else if c = CHR 0x22 then map_option (\<lambda>(x, t). (JStr x, t)) (unquote r)
          else if c = CHR ''t'' then
            (if take 3 r = ''rue'' then Some (JBool True, drop 3 r) else None)
          else if c = CHR ''f'' then
            (if take 4 r = ''alse'' then Some (JBool False, drop 4 r) else None)
          else if c = CHR ''n'' then
            (if take 3 r = ''ull'' then Some (JNull, drop 3 r) else None)
          else map_option (\<lambda>(l, t). (JNum l, t)) (parse_number (c # r)))"
| "parse_elems 0 s = None"
| "parse_elems (Suc f) s =
     (case parse_value f s of
        None \<Rightarrow> None
      | Some (v, r) \<Rightarrow>
          (case skip_ws r of
             [] \<Rightarrow> None
           | c # t \<Rightarrow>
               if c = CHR '','' then map_option (\<lambda>(vs, u). (v # vs, u)) (parse_elems f t)
               else if c = CHR '']'' then Some ([v], t) else None))"
| "parse_members 0 s = None"
| "parse_members (Suc f) s =
     (case skip_ws s of
        [] \<Rightarrow> None
      | q # r0 \<Rightarrow>
          if q \<noteq> CHR 0x22 then None
          else
            (case unquote r0 of
               None \<Rightarrow> None
             | Some (k, r1) \<Rightarrow>
                 (case skip_ws r1 of
                    [] \<Rightarrow> None
                  | c1 # r2 \<Rightarrow>
                      if c1 \<noteq> CHR '':'' then None
                      else
                        (case parse_value f r2 of
                           None \<Rightarrow> None
                         | Some (v, r3) \<Rightarrow>
                             (case skip_ws r3 of
                                [] \<Rightarrow> None
                              | c # t \<Rightarrow>
                                  if c = CHR '','' then
                                    map_option (\<lambda>(ms, u). ((k, v) # ms, u)) (parse_members f t)
                                  else if c = CHR ''}'' then Some ([(k, v)], t) else None)))))"

definition parse_json :: "string \<Rightarrow> json option" where
  "parse_json s =
     (case parse_value (2 * length s + 1) s of
        Some (v, r) \<Rightarrow> if skip_ws r = [] then Some v else None
      | None \<Rightarrow> None)"

section \<open>Round trip of documents\<close>

text \<open>Integer literals, the only numbers the program writes.\<close>

fun show_nat :: "nat \<Rightarrow> string" where
  "show_nat n = (if n < 10 then [digit n] else show_nat (n div 10) @ [digit (n mod 10)])"

declare show_nat.simps [simp del]

definition show_int :: "int \<Rightarrow> string" where
  "show_int i = (if i < 0 then CHR ''-'' # show_nat (nat (- i)) else show_nat (nat i))"

fun printable :: "json \<Rightarrow> bool" where
  "printable (JNum l) \<longleftrightarrow> (\<exists>i. l = show_int i)"
| "printable (JArr vs) \<longleftrightarrow> list_all printable vs"
| "printable (JObj ms) \<longleftrightarrow> list_all (\<lambda>(k, v). printable v) ms"
| "printable _ \<longleftrightarrow> True"

fun json_norm :: "json \<Rightarrow> json" where
  "json_norm (JStr s) = JStr (sanitize s)"
| "json_norm (JArr vs) = JArr (map json_norm vs)"
| "json_norm (JObj ms) = JObj (map (\<lambda>(k, v). (sanitize k, json_norm v)) ms)"
| "json_norm j = j"

lemma show_nat_nonempty [simp]: "show_nat n \<noteq> []"
  by (subst show_nat.simps) simp

lemma show_nat_digits: "list_all is_digit (show_nat n)"
  by (induction n rule: show_nat.induct) (subst show_nat.simps, simp)

lemma dec_val_show_nat [simp]: "dec_val (show_nat n) = n"
  by (induction n rule: show_nat.induct) (subst show_nat.simps, simp add: dec_val_def)

lemma digit_0 [simp]: "digit 0 = CHR ''0''"
  by code_simp

lemma show_nat_hd0: "hd (show_nat n) = CHR ''0'' \<Longrightarrow> n = 0"
proof (induction n rule: show_nat.induct)
  case (1 n)
  have z: "digit k = CHR ''0'' \<longleftrightarrow> k = 0" if "k < 10" for k
    using digit_char(2) [OF that] digit_char(2) [of 0] digit_0 by (metis zero_less_numeral)
  show ?case
  proof (cases "n < 10")
    case True
    with 1 z show ?thesis by (simp add: show_nat.simps [of n])
  next
    case False
    with 1 show ?thesis by (simp add: show_nat.simps [of n])
  qed
qed

text \<open>The bytes that can follow a value: none, a comma or a closing bracket.\<close>

definition ends_value :: "string \<Rightarrow> bool" where
  "ends_value t \<longleftrightarrow> t = [] \<or> hd t = CHR '','' \<or> hd t = CHR '']'' \<or> hd t = CHR ''}''"

lemma digit_bytes [simp]:
  "\<not> is_digit (CHR '','')" "\<not> is_digit (CHR '']'')" "\<not> is_digit (CHR ''}'')"
  "\<not> is_digit (CHR ''.'')" "\<not> is_digit (CHR ''-'')" "is_digit (CHR ''0'')"
  by (simp_all add: is_digit_def)

lemma takeWhile_digits:
  "list_all is_digit d \<Longrightarrow> ends_value t \<Longrightarrow> takeWhile is_digit (d @ t) = d"
  by (cases t) (auto simp: ends_value_def list_all_iff takeWhile_append_stop)

lemma int_part_show: "ends_value t \<Longrightarrow> int_part (show_nat n @ t) = Some (show_nat n, t)"
proof (cases "hd (show_nat n) = CHR ''0''")
  case True
  then have "n = 0" by (rule show_nat_hd0)
  then have "show_nat n = ''0''" by (simp add: show_nat.simps)
  then show ?thesis by (simp add: int_part_def)
next
  case False
  assume "ends_value t"
  with False show ?thesis
    by (simp add: int_part_def digits1_def Let_def takeWhile_digits show_nat_digits)
qed

lemma parse_number_show:
  assumes "ends_value t"
  shows "parse_number (show_int i @ t) = Some (show_int i, t)"
proof -
  have ne: "hd (show_nat n) \<noteq> CHR ''-''" for n
    using show_nat_digits [of n] by (cases "show_nat n") auto
  have "frac_part t = Some ([], t)" "exp_part t = Some ([], t)"
    using assms by (auto simp: frac_part_def exp_part_def ends_value_def)
  then show ?thesis
    using assms by (simp add: parse_number_def show_int_def int_part_show ne Let_def)
qed

lemma print_json_head:
  assumes "printable j"
  shows "\<exists>c cs. print_json j = c # cs \<and> \<not> is_ws c \<and> c \<noteq> CHR '']'' \<and> c \<noteq> CHR ''}''"
proof (cases j)
  case (JNum l)
  then obtain i where l: "l = show_int i" using assms by auto
  show ?thesis
  proof (cases "i < 0")
    case True
    with JNum l show ?thesis by (simp add: show_int_def is_ws_def)
  next
    case False
    obtain c cs where c: "show_nat (nat i) = c # cs" "is_digit c"
      using show_nat_digits [of "nat i"]
      by (cases "show_nat (nat i)") auto
    then have "\<not> is_ws c" "c \<noteq> CHR '']''" "c \<noteq> CHR ''}''"
      by (auto simp: is_ws_def is_digit_def)
    with JNum l c False show ?thesis by (simp add: show_int_def)
  qed
qed (auto simp: quote_def is_ws_def)

lemma skip_ws_head [simp]: "\<not> is_ws c \<Longrightarrow> skip_ws (c # t) = c # t"
  by (simp add: skip_ws_def)

lemma not_ws [simp]:
  "\<not> is_ws (CHR '','')" "\<not> is_ws (CHR '']'')" "\<not> is_ws (CHR ''}'')" "\<not> is_ws (CHR '':'')"
  "\<not> is_ws (CHR 0x22)" "\<not> is_ws (CHR ''['')" "\<not> is_ws (CHR ''{'')"
  by (simp_all add: is_ws_def)

lemma ends_value_simps [simp]:
  "ends_value (CHR '','' # t)" "ends_value (CHR '']'' # t)" "ends_value (CHR ''}'' # t)"
  "ends_value []"
  by (simp_all add: ends_value_def)

lemma parse_value_num:
  assumes "ends_value t"
  shows "parse_value (Suc f) (show_int i @ t) = Some (JNum (show_int i), t)"
proof -
  obtain c cs where c: "show_int i = c # cs" "\<not> is_ws c"
    using print_json_head [of "JNum (show_int i)"] by auto
  have "c = CHR ''-'' \<or> is_digit c"
    using c(1) show_nat_digits [of "nat i"]
    by (cases "i < 0") (auto simp: show_int_def list_all_iff)
  then have "c \<noteq> CHR ''{'' \<and> c \<noteq> CHR ''['' \<and> c \<noteq> CHR 0x22 \<and> c \<noteq> CHR ''t'' \<and> c \<noteq> CHR ''f''
      \<and> c \<noteq> CHR ''n''"
    by (auto simp: is_digit_def)
  moreover have "parse_number (c # cs @ t) = Some (show_int i, t)"
    using parse_number_show [OF assms, of i] c(1) by simp
  ultimately show ?thesis using c by simp
qed

lemma print_parse:
  "printable j \<Longrightarrow> ends_value t \<Longrightarrow> length (print_json j) \<le> f \<Longrightarrow>
     parse_value f (print_json j @ t) = Some (json_norm j, t)"
  "list_all printable vs \<Longrightarrow> vs \<noteq> [] \<Longrightarrow> length (print_elems vs) < f \<Longrightarrow>
     parse_elems f (print_elems vs @ CHR '']'' # t) = Some (map json_norm vs, t)"
  "list_all (\<lambda>(k, v). printable v) ms \<Longrightarrow> ms \<noteq> [] \<Longrightarrow> length (print_members ms) < f \<Longrightarrow>
     parse_members f (print_members ms @ CHR ''}'' # t)
       = Some (map (\<lambda>(k, v). (sanitize k, json_norm v)) ms, t)"
proof (induction j and vs and ms arbitrary: f t and f t and f t
    rule: print_json_print_elems_print_members.induct)
  case 1
  then show ?case by (cases f) (auto simp: is_ws_def)
next
  case (2 b)
  then show ?case by (cases f; cases b) (auto simp: is_ws_def)
next
  case (3 l)
  then obtain i where l: "l = show_int i" by auto
  then have "l \<noteq> []" by (simp add: show_int_def)
  then obtain g where "f = Suc g" using 3(3) by (cases f) auto
  then show ?case
    using 3(2) by (simp only: l print_json.simps json_norm.simps parse_value_num)
next
  case (4 s)
  then show ?case by (cases f) (auto simp: quote_def unquote_quote)
next
  case (5 vs)
  then obtain g where f: "f = Suc g" by (cases f) auto
  show ?case
  proof (cases vs)
    case Nil
    with f show ?thesis by simp
  next
    case (Cons v vs')
    obtain c cs where c: "print_json v = c # cs" "\<not> is_ws c" "c \<noteq> CHR '']''"
      using print_json_head [of v] 5(2) Cons by auto
    then have "skip_ws (print_elems vs @ CHR '']'' # t) = print_elems vs @ CHR '']'' # t"
      "hd (print_elems vs @ CHR '']'' # t) \<noteq> CHR '']''" "print_elems vs \<noteq> []"
      using Cons by simp_all
    then show ?thesis
      using 5(1) [of g t] 5(2,4) Cons f by simp
  qed
next
  case (6 ms)
  then obtain g where f: "f = Suc g" by (cases f) auto
  show ?case
  proof (cases ms)
    case Nil
    with f show ?thesis by simp
  next
    case (Cons m ms')
    then have "skip_ws (print_members ms @ CHR ''}'' # t) = print_members ms @ CHR ''}'' # t"
      "hd (print_members ms @ CHR ''}'' # t) \<noteq> CHR ''}''" "print_members ms \<noteq> []"
      by (cases m, simp add: quote_def)+
    then show ?thesis
      using 6(1) [of g t] 6(2,4) Cons f by simp
  qed
next
  case (8 v vs)
  then obtain g where f: "f = Suc g" by (cases f) auto
  show ?case
  proof (cases vs)
    case Nil
    with 8 f show ?thesis by simp
  next
    case (Cons v' vs')
    have "parse_value g (print_json v @ CHR '','' # print_elems vs @ CHR '']'' # t)
        = Some (json_norm v, CHR '','' # print_elems vs @ CHR '']'' # t)"
      using 8(1) [of "CHR '','' # print_elems vs @ CHR '']'' # t" g] 8(3,5) f by simp
    moreover have "parse_elems g (print_elems vs @ CHR '']'' # t) = Some (map json_norm vs, t)"
      using 8(2) [of g t] 8(3,5) f Cons by simp
    ultimately show ?thesis using f Cons by simp
  qed
next
  case (10 k v ms)
  then obtain g where f: "f = Suc g" by (cases f) auto
  show ?case
  proof (cases ms)
    case Nil
    have "parse_value g (print_json v @ CHR ''}'' # t) = Some (json_norm v, CHR ''}'' # t)"
      using 10(1) [of "CHR ''}'' # t" g] 10(3,5) f by simp
    with f Nil show ?thesis by (simp add: quote_def unquote_quote)
  next
    case (Cons m ms')
    let ?r = "CHR '','' # print_members ms @ CHR ''}'' # t"
    have "parse_value g (print_json v @ ?r) = Some (json_norm v, ?r)"
      using 10(1) [of ?r g] 10(3,5) f Cons by simp
    moreover have "parse_members g (print_members ms @ CHR ''}'' # t)
        = Some (map (\<lambda>(k, v). (sanitize k, json_norm v)) ms, t)"
      using 10(2) [of g t] 10(3,5) f Cons by simp
    ultimately show ?thesis using f Cons by (simp add: quote_def unquote_quote)
  qed
qed simp_all

lemma parse_print [go_codec]: "printable j \<Longrightarrow> parse_json (print_json j) = Some (json_norm j)"
  using print_parse(1) [of j "[]" "2 * length (print_json j) + 1"]
  by (simp add: parse_json_def skip_ws_def)

end
