(* ===== verification/Go_Duration.thy ===== *)
theory Go_Duration
  imports Go_Json
begin

text \<open>
  \<open>time.Duration\<close>: signed 64-bit nanoseconds, here an \<open>int\<close> kept in range by the parser;
  \<open>time.ParseDuration\<close> for the configuration strings, \<open>Duration.String\<close> for the text of
  error messages.  The fractional part of a number is scaled exactly; Go computes it in
  \<open>float64\<close> and can differ in the last nanosecond for fractions of more than 15 digits.
\<close>

section \<open>ParseDuration\<close>

text \<open>Prefix units of \<open>unitMap\<close>, in nanoseconds.\<close>

definition unit_ns :: "string \<Rightarrow> nat option" where
  "unit_ns u =
     (if u = ''ns'' then Some 1
      else if u = ''us'' \<or> u = [CHR 0xC2, CHR 0xB5, CHR ''s''] \<or> u = [CHR 0xCE, CHR 0xBC, CHR ''s'']
        then Some 1000
      else if u = ''ms'' then Some 1000000
      else if u = ''s'' then Some 1000000000
      else if u = ''m'' then Some 60000000000
      else if u = ''h'' then Some 3600000000000
      else None)"

definition pow63 :: nat where
  "pow63 = 2 ^ 63"

text \<open>\<open>leadingInt\<close>: an error once the value leaves the range of the accumulator.\<close>

fun leadingInt :: "nat \<Rightarrow> string \<Rightarrow> nat option \<times> string" where
  "leadingInt v [] = (Some v, [])"
| "leadingInt v (c # cs) =
     (if is_digit c then
        (if pow63 div 10 < v \<or> pow63 < v * 10 + digit_val c then (None, c # cs)
         else leadingInt (v * 10 + digit_val c) cs)
      else (Some v, c # cs))"

text \<open>\<open>leadingFraction\<close>: digits beyond the range are dropped, not an error.\<close>

fun leadingFraction :: "bool \<Rightarrow> nat \<Rightarrow> nat \<Rightarrow> string \<Rightarrow> nat \<times> nat \<times> string" where
  "leadingFraction ovf f scale [] = (f, scale, [])"
| "leadingFraction ovf f scale (c # cs) =
     (if is_digit c then
        (if ovf \<or> (pow63 - 1) div 10 < f \<or> pow63 < f * 10 + digit_val c
         then leadingFraction True f scale cs
         else leadingFraction False (f * 10 + digit_val c) (scale * 10) cs)
      else (f, scale, c # cs))"

text \<open>One number with its unit: the nanoseconds and the rest of the text.\<close>

definition parse_component :: "string \<Rightarrow> (nat \<times> string) option" where
  "parse_component s =
     (if s = [] \<or> \<not> (hd s = CHR ''.'' \<or> is_digit (hd s)) then None
      else case leadingInt 0 s of
        (None, _) \<Rightarrow> None
      | (Some v, s1) \<Rightarrow>
          let pre = (length s1 \<noteq> length s);
              dot = (s1 \<noteq> [] \<and> hd s1 = CHR ''.'');
              (f, scale, s2) = (if dot then leadingFraction False 0 1 (tl s1) else (0, 1, s1));
              post = (dot \<and> length s2 \<noteq> length (tl s1));
              u = takeWhile (\<lambda>c. \<not> (c = CHR ''.'' \<or> is_digit c)) s2
          in if \<not> pre \<and> \<not> post then None
             else if u = [] then None
             else case unit_ns u of
               None \<Rightarrow> None
             | Some unit \<Rightarrow>
                 if pow63 div unit < v then None
                 else
                   let ns = v * unit + (if f > 0 then f * unit div scale else 0)
                   in if pow63 < ns then None else Some (ns, drop (length u) s2))"

fun parse_components :: "nat \<Rightarrow> nat \<Rightarrow> string \<Rightarrow> nat option" where
  "parse_components 0 d s = None"
| "parse_components (Suc n) d s =
     (if s = [] then Some d
      else case parse_component s of
        None \<Rightarrow> None
      | Some (ns, r) \<Rightarrow>
          if pow63 < d + ns then None else parse_components n (d + ns) r)"

definition ParseDuration :: "string \<Rightarrow> int option" where
  "ParseDuration s =
     (let signed = (s \<noteq> [] \<and> (hd s = CHR ''-'' \<or> hd s = CHR ''+''));
          neg = (s \<noteq> [] \<and> hd s = CHR ''-'');
          r = (if signed then tl s else s)
      in if r = ''0'' then Some 0
         else if r = [] then None
         else case parse_components (Suc (length r)) 0 r of
           None \<Rightarrow> None
         | Some d \<Rightarrow>
             if neg then Some (- int d)
             else if pow63 - 1 < d then None else Some (int d))"

lemma parse_components_le: "parse_components n d s = Some d' \<Longrightarrow> d \<le> pow63 \<Longrightarrow> d' \<le> pow63"
  by (induction n d s rule: parse_components.induct) (auto split: if_splits option.splits)

text \<open>A parsed duration is a 64-bit value.\<close>

lemma ParseDuration_range:
  assumes "ParseDuration s = Some d"
  shows "min_duration \<le> d \<and> d \<le> max_duration"
proof -
  have *: "parse_components n 0 r = Some e \<Longrightarrow> e \<le> pow63" for n r e
    by (rule parse_components_le) auto
  have "int e \<le> 2 ^ 63" if "parse_components n 0 r = Some e" for n r e
    using * [OF that] by (simp add: pow63_def)
  then show ?thesis
    using assms
    by (fastforce simp: ParseDuration_def Let_def min_duration_def max_duration_def pow63_def
        split: if_splits option.splits)
qed

section \<open>Duration.String\<close>

definition frac_text :: "nat \<Rightarrow> nat \<Rightarrow> string" where
  "frac_text prec u =
     (let f = strip_zeros (digs prec (u mod 10 ^ prec))
      in show_nat (u div 10 ^ prec) @ (if f = [] then [] else CHR ''.'' # f))"

definition sec_frac :: "nat \<Rightarrow> string" where
  "sec_frac u =
     (let f = strip_zeros (digs 9 (u mod 10 ^ 9))
      in show_nat (u div 10 ^ 9 mod 60) @ (if f = [] then [] else CHR ''.'' # f))"

definition Duration_String :: "int \<Rightarrow> string" where
  "Duration_String d =
     (let u = nat \<bar>d\<bar>; sgn = (if d < 0 then ''-'' else []); secs = u div 10 ^ 9
      in if u = 0 then ''0s''
         else if u < 1000 then sgn @ frac_text 0 u @ ''ns''
         else if u < 1000000 then sgn @ frac_text 3 u @ [CHR 0xC2, CHR 0xB5, CHR ''s'']
         else if u < 1000000000 then sgn @ frac_text 6 u @ ''ms''
         else
           sgn @ (if secs div 3600 > 0 then show_nat (secs div 3600) @ ''h'' else [])
           @ (if secs div 60 > 0 then show_nat (secs div 60 mod 60) @ ''m'' else [])
           @ sec_frac u @ ''s'')"

end
