(* ===== verification/Errors.thy ===== *)
theory Errors
  imports Go_Strings Go_Duration
begin

text \<open>
  \<open>src/errors.go\<close>: the error values of the program, their messages, their predicates and how
  \<open>errors.Is\<close> walks them.  An \<open>error\<close> that may be nil is a \<open>go_error option\<close>; a result
  that may be an error is a \<open>go_error + 'a\<close>.
\<close>

section \<open>Error values\<close>

text \<open>
  The package-level sentinels, compared by identity in Go: \<open>ErrNoConnection\<close> and
  \<open>ErrClusterDown\<close> carry the same text and are still two values.  \<open>FsErrNotExist\<close> is the
  sentinel \<open>fs.ErrNotExist\<close> of the standard library.
\<close>

datatype sentinel =
    ErrLockTimeout | ErrNoConnection | ErrClusterDown | ErrInvalidConfig | FsErrNotExist

text \<open>
  \<open>Errorf\<close> is a leaf made by \<open>errors.New\<close> or \<open>fmt.Errorf\<close>, \<open>Wrap\<close> is \<open>errors.Wrap\<close>, and
  \<open>External\<close> an error handed over by the etcd client, the rate limiter or the system.
\<close>

datatype go_error =
    NotExist string
  | FailedChecksum string
  | LockError string int "go_error option"
  | ConnectionError "string list" "go_error option"
  | Sentinel sentinel
  | Errorf string
  | Wrap go_error string
  | External string

fun sentinel_text :: "sentinel \<Rightarrow> string" where
  "sentinel_text ErrLockTimeout = ''lock timeout exceeded''"
| "sentinel_text ErrNoConnection = ''etcd cluster is not available''"
| "sentinel_text ErrClusterDown = ''etcd cluster is not available''"
| "sentinel_text ErrInvalidConfig = ''invalid configuration''"
| "sentinel_text FsErrNotExist = ''file does not exist''"

text \<open>\<open>%v\<close> of a nil error and of a string slice.\<close>

definition show_strings :: "string list \<Rightarrow> string" where
  "show_strings xs = ''['' @ join_with (CHR '' '') xs @ '']''"

text \<open>The four \<^verbatim>\<open>Error\<close> methods; the text of the wrapped error comes last, \<open>None\<close> for a nil one.\<close>

definition NotExist_Error :: "string \<Rightarrow> string" where
  "NotExist_Error k = ''key '' @ k @ '' does not exist''"

definition FailedChecksum_Error :: "string \<Rightarrow> string" where
  "FailedChecksum_Error k = ''data corruption detected: checksum mismatch for key '' @ k"

definition LockError_Error :: "string \<Rightarrow> int \<Rightarrow> string option \<Rightarrow> string" where
  "LockError_Error k t err =
     (case err of
        Some e \<Rightarrow> ''failed to acquire lock for key '' @ k @ '' (timeout '' @ Duration_String t @ '') '' @ e
      | None \<Rightarrow> ''failed to acquire lock for key '' @ k @ '' (timeout '' @ Duration_String t @ '')'')"

definition ConnectionError_Error :: "string list \<Rightarrow> string option \<Rightarrow> string" where
  "ConnectionError_Error es err =
     ''failed to connect to etcd cluster at '' @ show_strings es @ '': '' @
     (case err of Some e \<Rightarrow> e | None \<Rightarrow> ''<nil>'')"

fun Error :: "go_error \<Rightarrow> string" where
  "Error (NotExist k) = NotExist_Error k"
| "Error (FailedChecksum k) = FailedChecksum_Error k"
| "Error (LockError k t err) = LockError_Error k t (map_option Error err)"
| "Error (ConnectionError es err) = ConnectionError_Error es (map_option Error err)"
| "Error (Sentinel s) = sentinel_text s"
| "Error (Errorf t) = t"
| "Error (Wrap e m) = m @ '': '' @ Error e"
| "Error (External t) = t"

section \<open>Predicates and unwrapping\<close>

fun NotExist_Is :: "go_error \<Rightarrow> go_error \<Rightarrow> bool" where
  "NotExist_Is (NotExist k) target \<longleftrightarrow> target = Sentinel FsErrNotExist"
| "NotExist_Is _ target \<longleftrightarrow> False"

definition IsNotExistError :: "go_error option \<Rightarrow> bool" where
  "IsNotExistError e = (case e of Some (NotExist _) \<Rightarrow> True | _ \<Rightarrow> False)"

definition IsFailedChecksumError :: "go_error option \<Rightarrow> bool" where
  "IsFailedChecksumError e = (case e of Some (FailedChecksum _) \<Rightarrow> True | _ \<Rightarrow> False)"

definition IsLockError :: "go_error option \<Rightarrow> bool" where
  "IsLockError e = (case e of Some (LockError _ _ _) \<Rightarrow> True | _ \<Rightarrow> False)"

definition IsConnectionError :: "go_error option \<Rightarrow> bool" where
  "IsConnectionError e = (case e of Some (ConnectionError _ _) \<Rightarrow> True | _ \<Rightarrow> False)"

definition LockError_Unwrap :: "string \<Rightarrow> int \<Rightarrow> go_error option \<Rightarrow> go_error option" where
  "LockError_Unwrap k t e = e"

definition ConnectionError_Unwrap :: "string list \<Rightarrow> go_error option \<Rightarrow> go_error option" where
  "ConnectionError_Unwrap es e = e"

fun Unwrap :: "go_error \<Rightarrow> go_error option" where
  "Unwrap (LockError k t e) = LockError_Unwrap k t e"
| "Unwrap (ConnectionError es e) = ConnectionError_Unwrap es e"
| "Unwrap (Wrap e m) = Some e"
| "Unwrap _ = None"

declare LockError_Unwrap_def [simp] ConnectionError_Unwrap_def [simp]

text \<open>
  \<open>errors.Is\<close>: equality or the error's own \<open>Is\<close> method, along the chain of \<open>Unwrap\<close>.  Only
  comparisons with sentinels and with the comparable error structs are meaningful: two leaves
  with one text are equal here and two pointers in Go.
\<close>

lemma Unwrap_size [termination_simp]: "Unwrap e = Some e' \<Longrightarrow> size e' < size e"
  by (cases e) auto

fun errors_Is :: "go_error \<Rightarrow> go_error \<Rightarrow> bool" where
  "errors_Is e target =
     (e = target \<or> NotExist_Is e target \<or>
      (case Unwrap e of None \<Rightarrow> False | Some e' \<Rightarrow> errors_Is e' target))"

declare errors_Is.simps [simp del]

lemma errors_Is_Wrap [simp]:
  "errors_Is (Wrap e m) target \<longleftrightarrow> Wrap e m = target \<or> errors_Is e target"
  by (subst errors_Is.simps) simp

lemma errors_Is_NotExist [simp]:
  "errors_Is (NotExist k) target \<longleftrightarrow> target = NotExist k \<or> target = Sentinel FsErrNotExist"
  by (subst errors_Is.simps) auto

text \<open>No two of the error kinds are confused by the type switches.\<close>

lemma error_kinds_disjoint:
  "IsNotExistError e \<Longrightarrow> \<not> IsFailedChecksumError e \<and> \<not> IsLockError e \<and> \<not> IsConnectionError e"
  "IsFailedChecksumError e \<Longrightarrow> \<not> IsLockError e \<and> \<not> IsConnectionError e"
  "IsLockError e \<Longrightarrow> \<not> IsConnectionError e"
  by (auto simp: IsNotExistError_def IsFailedChecksumError_def IsLockError_def
      IsConnectionError_def split: option.splits go_error.splits)

text \<open>
  The type switches look at the outermost value only: a wrapped \<open>NotExist\<close> is not
  recognised by \<open>IsNotExistError\<close>, while \<open>errors.Is\<close> with \<open>fs.ErrNotExist\<close> finds it.
\<close>

lemma wrapped_NotExist:
  "\<not> IsNotExistError (Some (Wrap (NotExist k) m))"
  "errors_Is (Wrap (NotExist k) m) (Sentinel FsErrNotExist)"
  by (simp_all add: IsNotExistError_def)

end
