(* ===== verification/Etcd_Client.thy ===== *)
theory Etcd_Client
  imports Complex_Main Errors
begin

text \<open>
  The interface through which the program reaches code that is not in the repository: the
  etcd client, the rate limiter, the backoff library and the wall clock.  They are the
  parameter \<open>cli\<close> of every definition that uses them, a record of functions over an
  unspecified state \<open>'s\<close>; what the program relies on is stated by the locales below, each
  assumption one documented behaviour.

  \<open>etcd_kv\<close> gives the meaning of the requests on the key space, errors included: a request
  that fails may or may not have taken effect (a timeout says nothing about the server), but
  a transaction takes effect as a whole.  \<open>etcd_timed\<close> adds a clock that does not run
  backwards, \<open>etcd_deadline\<close> that a request is not made once its context has ended,
  \<open>etcd_paced\<close> that retrying keeps to its policy, \<open>etcd_live\<close> a condition under which requests
  succeed.  They speak about one client with no other writer; concurrent clients are the
  subject of \<open>Shared\<close>.
\<close>

section \<open>The parameter\<close>

record KeyValue =
  KvKey :: string
  KvValue :: string

datatype etcd_op = OpPut string string | OpDelete string

type_synonym 's operation = "'s \<Rightarrow> go_error option \<times> 's"

text \<open>The parameters of the libraries' \<open>backoff.ExponentialBackOff\<close> and \<open>rate.Limiter\<close> that the
  program sets; durations are in nanoseconds.\<close>

record ExponentialBackOff =
  InitialInterval :: int
  MaxInterval :: int
  MaxElapsedTime :: int

record Limiter =
  Limit :: rat
  Burst :: int

text \<open>A request runs under a context: the background context, or one with a deadline.\<close>

type_synonym ctx = "time option"

abbreviation Background :: ctx where
  "Background \<equiv> None"

definition in_time :: "ctx \<Rightarrow> time \<Rightarrow> bool" where
  "in_time ctx n \<longleftrightarrow> (case ctx of None \<Rightarrow> True | Some d \<Rightarrow> n \<le> d)"

lemma in_time_simps [simp]: "in_time None n" "in_time (Some d) n \<longleftrightarrow> n \<le> d"
  by (simp_all add: in_time_def)

lemma in_time_earlier: "in_time ctx n' \<Longrightarrow> n \<le> n' \<Longrightarrow> in_time ctx n"
  by (cases ctx) auto

record 's client =
  cli_Get :: "ctx \<Rightarrow> string \<Rightarrow> bool \<Rightarrow> 's \<Rightarrow> (go_error + KeyValue list) \<times> 's"
  cli_Put :: "ctx \<Rightarrow> string \<Rightarrow> string \<Rightarrow> 's \<Rightarrow> (go_error + unit) \<times> 's"
  cli_Delete :: "ctx \<Rightarrow> string \<Rightarrow> 's \<Rightarrow> (go_error + unit) \<times> 's"
  cli_Txn :: "ctx \<Rightarrow> etcd_op list \<Rightarrow> 's \<Rightarrow> (go_error + bool) \<times> 's"
  cli_Grant :: "ctx \<Rightarrow> int \<Rightarrow> 's \<Rightarrow> (go_error + int) \<times> 's"
  cli_Revoke :: "ctx \<Rightarrow> int \<Rightarrow> 's \<Rightarrow> (go_error + unit) \<times> 's"
  limiter_Wait :: "ctx \<Rightarrow> Limiter \<Rightarrow> 's operation"
  clock_Now :: "'s \<Rightarrow> time \<times> 's"
  backoff_Retry :: "ExponentialBackOff \<Rightarrow> 's operation \<Rightarrow> 's operation"

text \<open>\<open>context.WithTimeout\<close> on the background context: a deadline from now.\<close>

definition context_WithTimeout :: "'s client \<Rightarrow> int \<Rightarrow> 's \<Rightarrow> ctx \<times> 's" where
  "context_WithTimeout cli d s = (case clock_Now cli s of (n, t) \<Rightarrow> (Some (n + d), t))"

section \<open>The key space\<close>

text \<open>A key maps to its value and the lease it is attached to, 0 for none.\<close>

type_synonym keyspace = "string \<rightharpoonup> string \<times> int"

definition kv_value :: "keyspace \<Rightarrow> string \<Rightarrow> string option" where
  "kv_value m k = map_option fst (m k)"

fun op_key :: "etcd_op \<Rightarrow> string" where
  "op_key (OpPut k v) = k"
| "op_key (OpDelete k) = k"

fun apply_op :: "etcd_op \<Rightarrow> keyspace \<Rightarrow> keyspace" where
  "apply_op (OpPut k v) m = m(k \<mapsto> (v, 0))"
| "apply_op (OpDelete k) m = m(k := None)"

definition apply_ops :: "etcd_op list \<Rightarrow> keyspace \<Rightarrow> keyspace" where
  "apply_ops ops m = fold apply_op ops m"

definition drop_lease :: "int \<Rightarrow> keyspace \<Rightarrow> keyspace" where
  "drop_lease i m = (\<lambda>k. case m k of Some (v, l) \<Rightarrow> if l = i \<and> l \<noteq> 0 then None else Some (v, l)
                                  | None \<Rightarrow> None)"

definition point_read :: "keyspace \<Rightarrow> string \<Rightarrow> KeyValue list" where
  "point_read m k =
     (case m k of None \<Rightarrow> [] | Some (v, l) \<Rightarrow> [\<lparr> KvKey = k, KvValue = v \<rparr>])"

definition range_read :: "keyspace \<Rightarrow> string \<Rightarrow> KeyValue list \<Rightarrow> bool" where
  "range_read m p xs \<longleftrightarrow>
     distinct (map KvKey xs) \<and>
     (\<forall>k v. \<lparr> KvKey = k, KvValue = v \<rparr> \<in> set xs \<longleftrightarrow> prefix p k \<and> kv_value m k = Some v)"

lemma kv_value_upd [simp]:
  "kv_value (m(k \<mapsto> (v, l))) k' = (if k' = k then Some v else kv_value m k')"
  "kv_value (m(k := None)) k' = (if k' = k then None else kv_value m k')"
  by (simp_all add: kv_value_def)

lemma point_read_value:
  "point_read m k =
     (case kv_value m k of None \<Rightarrow> [] | Some v \<Rightarrow> [\<lparr> KvKey = k, KvValue = v \<rparr>])"
  by (auto simp: point_read_def kv_value_def split: option.splits)

lemma apply_ops_other: "k \<notin> set (map op_key ops) \<Longrightarrow> apply_ops ops m k = m k"
proof -
  have "k \<notin> set (map op_key ops) \<Longrightarrow> fold apply_op ops m k = m k"
  proof (induction ops arbitrary: m)
    case (Cons x xs)
    then show ?case by (cases x) auto
  qed simp
  then show "k \<notin> set (map op_key ops) \<Longrightarrow> ?thesis" by (simp add: apply_ops_def)
qed

lemma range_read_mem:
  "range_read m p xs \<Longrightarrow> x \<in> set xs \<longleftrightarrow> prefix p (KvKey x) \<and> kv_value m (KvKey x) = Some (KvValue x)"
  by (cases x) (simp add: range_read_def)

lemma range_read_empty:
  "range_read m p [] \<longleftrightarrow> (\<forall>k. prefix p k \<longrightarrow> kv_value m k = None)"
  by (auto simp: range_read_def)

section \<open>Retrying\<close>

text \<open>
  \<open>backoff.Retry\<close>: run the operation; on an error either give up with that error or sleep
  and run again.  How often is the backoff policy's business.
\<close>

inductive retried :: "('s \<Rightarrow> 's) \<Rightarrow> 's operation \<Rightarrow> 's \<Rightarrow> go_error option \<times> 's \<Rightarrow> bool"
  for pause :: "'s \<Rightarrow> 's" and op :: "'s operation" where
  success: "op s = (None, t) \<Longrightarrow> retried pause op s (None, t)"
| give_up: "op s = (Some e, t) \<Longrightarrow> retried pause op s (Some e, t)"
| again: "op s = (Some e, t) \<Longrightarrow> retried pause op (pause t) r \<Longrightarrow> retried pause op s r"

text \<open>The result of a retried operation is the result of its last run, and that run starts
  in a state that satisfies whatever the failed runs and the pauses preserve.\<close>

lemma retried_last:
  assumes "retried pause op s r" and "P s"
    and "\<And>s e t. P s \<Longrightarrow> op s = (Some e, t) \<Longrightarrow> P (pause t)"
  shows "\<exists>s'. P s' \<and> op s' = r"
  using assms(1,2)
proof (induction rule: retried.induct)
  case (again s e t r)
  from assms(3) [OF again.prems again.hyps(1)] show ?case by (rule again.IH)
qed auto

text \<open>
  An exponential policy paces the runs and ends them: before a run is repeated at least half
  of the smallest interval passes, and no repetition is scheduled after the maximal elapsed
  time, unless that is 0, which means never.  \<open>attempts b pause now op start n s r\<close>: \<open>r\<close> is the result of the last of \<open>n\<close> runs of
  \<open>op\<close>, the first from the state \<open>s\<close>.
\<close>

inductive attempts ::
  "ExponentialBackOff \<Rightarrow> ('s \<Rightarrow> 's) \<Rightarrow> ('s \<Rightarrow> time) \<Rightarrow> 's operation \<Rightarrow> time \<Rightarrow>
   nat \<Rightarrow> 's \<Rightarrow> go_error option \<times> 's \<Rightarrow> bool"
  for b pause now op start where
  last_run: "attempts b pause now op start 1 s (op s)"
| next_run: "op s = (Some e, t) \<Longrightarrow> min (InitialInterval b) (MaxInterval b) \<le> 2 * w \<Longrightarrow>
    (MaxElapsedTime b \<noteq> 0 \<longrightarrow> now t + w \<le> start + MaxElapsedTime b) \<Longrightarrow> now t + w \<le> now (pause t) \<Longrightarrow>
    attempts b pause now op start n (pause t) r \<Longrightarrow> attempts b pause now op start (Suc n) s r"

text \<open>So the number of runs is bounded.\<close>

lemma attempts_bound:
  assumes "attempts b pause now op start n s r" and "start \<le> now s"
    and "\<And>s r t. op s = (r, t) \<Longrightarrow> now s \<le> now t" and "0 \<le> min (InitialInterval b) (MaxInterval b)" and "MaxElapsedTime b \<noteq> 0"
  shows "n = 1 \<or> 2 * (now s - start) + int (n - 1) * min (InitialInterval b) (MaxInterval b)
    \<le> 2 * MaxElapsedTime b"
  using assms(1,2)
proof (induction rule: attempts.induct)
  case (next_run s e t w n r)
  let ?i = "min (InitialInterval b) (MaxInterval b)"
  have "now s \<le> now t" by (rule assms(3) [OF next_run.hyps(1)])
  then have "n = 1 \<or> 2 * (now (pause t) - start) + int (n - 1) * ?i \<le> 2 * MaxElapsedTime b"
    using next_run.hyps(2-4) next_run.prems assms(4) by (intro next_run.IH) linarith
  moreover have "0 < n" using next_run.hyps(5) by (cases rule: attempts.cases) auto
  then have "int n * ?i = int (n - 1) * ?i + ?i"
    by (cases n) (simp_all add: distrib_right)
  ultimately show ?case
    using next_run.hyps(2-4) \<open>now s \<le> now t\<close> assms(5) by (cases "n = 1") auto
qed simp

lemma retried_post:
  assumes "retried pause op s r" and "P s"
    and "\<And>s e t. P s \<Longrightarrow> op s = (Some e, t) \<Longrightarrow> P (pause t)"
    and "\<And>s. P s \<Longrightarrow> Q (op s)"
  shows "Q r"
proof -
  obtain s' where "P s'" "op s' = r"
    using retried_last [where P = P, OF assms(1,2)] assms(3) by blast
  with assms(4) show ?thesis by blast
qed

section \<open>The contract\<close>

locale etcd_kv =
  fixes cli :: "'s client" and kv :: "'s \<Rightarrow> keyspace" and pause :: "'s \<Rightarrow> 's"
  assumes get_frame: "cli_Get cli ctx k p s = (r, t) \<Longrightarrow> kv t = kv s"
    and get_point: "cli_Get cli ctx k False s = (Inr xs, t) \<Longrightarrow> xs = point_read (kv s) k"
    and get_range: "cli_Get cli ctx k True s = (Inr xs, t) \<Longrightarrow> range_read (kv s) k xs"
    and put_done: "cli_Put cli ctx k v s = (Inr u, t) \<Longrightarrow> kv t = (kv s)(k \<mapsto> (v, 0))"
    and put_fail: "cli_Put cli ctx k v s = (Inl e, t) \<Longrightarrow> kv t = kv s \<or> kv t = (kv s)(k \<mapsto> (v, 0))"
    and del_done: "cli_Delete cli ctx k s = (Inr u, t) \<Longrightarrow> kv t = (kv s)(k := None)"
    and del_fail: "cli_Delete cli ctx k s = (Inl e, t) \<Longrightarrow> kv t = kv s \<or> kv t = (kv s)(k := None)"
    and txn_done: "cli_Txn cli ctx ops s = (Inr b, t) \<Longrightarrow> b \<and> kv t = apply_ops ops (kv s)"
    and txn_fail: "cli_Txn cli ctx ops s = (Inl e, t) \<Longrightarrow> kv t = kv s \<or> kv t = apply_ops ops (kv s)"
    and grant_frame: "cli_Grant cli ctx ttl s = (g, t) \<Longrightarrow> kv t = kv s"
    and grant_id: "cli_Grant cli ctx ttl s = (Inr i, t) \<Longrightarrow> i \<noteq> 0 \<and> - (2 ^ 63) \<le> i \<and> i < 2 ^ 63"
    and revoke_done: "cli_Revoke cli ctx i s = (Inr u, t) \<Longrightarrow> kv t = drop_lease i (kv s)"
    and revoke_fail: "cli_Revoke cli ctx i s = (Inl e, t) \<Longrightarrow> kv t = kv s \<or> kv t = drop_lease i (kv s)"
    and wait_frame: "limiter_Wait cli ctx lm s = (w, t) \<Longrightarrow> kv t = kv s"
    and now_frame: "clock_Now cli s = (n, t) \<Longrightarrow> kv t = kv s"
    and pause_frame: "kv (pause s) = kv s"
    and retry: "retried pause op s (backoff_Retry cli bo op s)"
begin

lemma ctx_frame: "context_WithTimeout cli d s = (ctx, t) \<Longrightarrow> kv t = kv s"
  by (auto simp: context_WithTimeout_def split: prod.splits dest: now_frame)

lemmas frames = get_frame grant_frame wait_frame now_frame pause_frame ctx_frame

end

text \<open>A clock that does not run backwards: a reading lies between the times before and after.\<close>

locale etcd_timed = etcd_kv cli kv pause
  for cli :: "'s client" and kv and pause +
  fixes now :: "'s \<Rightarrow> time"
  assumes get_mono: "cli_Get cli ctx k p s = (r, t) \<Longrightarrow> now s \<le> now t"
    and put_mono: "cli_Put cli ctx k v s = (p', t) \<Longrightarrow> now s \<le> now t"
    and del_mono: "cli_Delete cli ctx k s = (d, t) \<Longrightarrow> now s \<le> now t"
    and txn_mono: "cli_Txn cli ctx ops s = (x, t) \<Longrightarrow> now s \<le> now t"
    and revoke_mono: "cli_Revoke cli ctx i s = (u, t) \<Longrightarrow> now s \<le> now t"
    and grant_mono: "cli_Grant cli ctx ttl s = (g, t) \<Longrightarrow> now s \<le> now t"
    and wait_mono: "limiter_Wait cli ctx lm s = (w, t) \<Longrightarrow> now s \<le> now t"
    and now_reading: "clock_Now cli s = (n, t) \<Longrightarrow> now s \<le> n \<and> n \<le> now t"
    and pause_mono: "now s \<le> now (pause s)"
begin

lemma ctx_deadline:
  assumes "context_WithTimeout cli d s = (ctx, t)"
  obtains n where "ctx = Some (n + d)" "now s \<le> n" "n \<le> now t"
  using assms by (auto simp: context_WithTimeout_def split: prod.splits dest: now_reading)

lemma ctx_mono: "context_WithTimeout cli d s = (ctx, t) \<Longrightarrow> now s \<le> now t"
  by (erule ctx_deadline) linarith

end

text \<open>A request whose deadline has passed is not made.\<close>

locale etcd_deadline = etcd_timed cli kv pause now
  for cli :: "'s client" and kv and pause and now +
  assumes get_late: "\<not> in_time ctx (now s) \<Longrightarrow> cli_Get cli ctx k p s = (r, t) \<Longrightarrow> \<exists>err. r = Inl err"
    and put_late: "\<not> in_time ctx (now s) \<Longrightarrow> cli_Put cli ctx k v s = (p', t) \<Longrightarrow>
      (\<exists>err. p' = Inl err) \<and> kv t = kv s"
    and del_late: "\<not> in_time ctx (now s) \<Longrightarrow> cli_Delete cli ctx k s = (d, t) \<Longrightarrow>
      (\<exists>err. d = Inl err) \<and> kv t = kv s"
    and txn_late: "\<not> in_time ctx (now s) \<Longrightarrow> cli_Txn cli ctx ops s = (x, t) \<Longrightarrow>
      (\<exists>err. x = Inl err) \<and> kv t = kv s"
    and grant_late: "\<not> in_time ctx (now s) \<Longrightarrow> cli_Grant cli ctx ttl s = (g, t) \<Longrightarrow> \<exists>err. g = Inl err"
    and revoke_late: "\<not> in_time ctx (now s) \<Longrightarrow> cli_Revoke cli ctx i s = (u, t) \<Longrightarrow>
      (\<exists>err. u = Inl err) \<and> kv t = kv s"
    and wait_late: "\<not> in_time ctx (now s) \<Longrightarrow> limiter_Wait cli ctx lm s = (w, t) \<Longrightarrow> w \<noteq> None"

text \<open>Retrying keeps to the policy it is given.\<close>

locale etcd_paced = etcd_timed cli kv pause now
  for cli :: "'s client" and kv and pause and now +
  assumes retry_paced: "\<exists>n. attempts bo pause now op (now s) n s (backoff_Retry cli bo op s)"

text \<open>Requests from a healthy state take at most \<open>latency\<close>; those whose deadline leaves that
  much time succeed and keep the state healthy.  A transaction may not name a key twice; a lease
  time to live is at most etcd's \<open>MaxLeaseTTL\<close>.\<close>

locale etcd_live = etcd_timed cli kv pause now
  for cli :: "'s client" and kv and pause and now +
  fixes healthy :: "'s \<Rightarrow> bool" and latency :: int
  assumes get_live: "healthy s \<Longrightarrow> in_time ctx (now s + latency) \<Longrightarrow>
      \<exists>xs t. cli_Get cli ctx k p s = (Inr xs, t) \<and> healthy t \<and> now t \<le> now s + latency"
    and put_live: "healthy s \<Longrightarrow> in_time ctx (now s + latency) \<Longrightarrow>
      \<exists>t. cli_Put cli ctx k v s = (Inr (), t) \<and> healthy t \<and> now t \<le> now s + latency"
    and txn_live: "healthy s \<Longrightarrow> in_time ctx (now s + latency) \<Longrightarrow> distinct (map op_key ops) \<Longrightarrow>
      \<exists>b t. cli_Txn cli ctx ops s = (Inr b, t) \<and> healthy t \<and> now t \<le> now s + latency"
    and grant_live: "healthy s \<Longrightarrow> in_time ctx (now s + latency) \<Longrightarrow> ttl \<le> 9000000000 \<Longrightarrow>
      \<exists>i t. cli_Grant cli ctx ttl s = (Inr i, t) \<and> healthy t \<and> now t \<le> now s + latency"
    and wait_live: "healthy s \<Longrightarrow> in_time ctx (now s + latency) \<Longrightarrow>
      \<exists>t. limiter_Wait cli ctx lm s = (None, t) \<and> healthy t \<and> now t \<le> now s + latency"
    and now_live: "healthy s \<Longrightarrow> \<exists>n t. clock_Now cli s = (n, t) \<and> healthy t \<and> now t \<le> now s + latency"
    and now_valid: "healthy s \<Longrightarrow> clock_Now cli s = (n, t) \<Longrightarrow> valid_time n"
begin

lemma latency_nonneg: "healthy s \<Longrightarrow> 0 \<le> latency"
  using now_live [of s] now_reading [of s] by fastforce

lemma ctx_live:
  assumes "healthy s"
  obtains n t where "context_WithTimeout cli d s = (Some (n + d), t)" "healthy t" "now s \<le> n" "n \<le> now t"
    "now t \<le> now s + latency"
proof -
  obtain n t where n: "clock_Now cli s = (n, t)" "healthy t" "now t \<le> now s + latency"
    using now_live [OF assms] by blast
  with now_reading [OF n(1)] show thesis
    by (intro that [of n t]) (simp_all add: context_WithTimeout_def)
qed

end

end
