(* ===== verification/Records.thy ===== *)
theory Records
  imports Errors Go_Sha1
begin

text \<open>
  The two records the program keeps in etcd, \<open>Metadata\<close> and \<open>Lock\<close> of \<open>src/etcd.go\<close>, and
  their stored form: \<open>json.Marshal\<close> of the struct, base64 encoded.  The decoders follow
  \<open>encoding/json\<close>: field names match exactly or by case folding, unknown fields are skipped,
  \<open>null\<close> leaves a field alone, a value of the wrong kind is an error.
\<close>

section \<open>The structs\<close>

text \<open>\<open>Size\<close> is a Go \<open>int\<close> (64 bits); \<open>Hash\<close> is a \<open>[20]byte\<close>.\<close>

record Metadata =
  Path :: string
  Size :: int
  Timestamp :: time
  Hash :: bytes
  IsDir :: bool

record Lock =
  Token :: string
  Obtained :: string
  Key :: string
  LeaseID :: int

definition int64 :: "int \<Rightarrow> bool" where
  "int64 i \<longleftrightarrow> - (2 ^ 63) \<le> i \<and> i < 2 ^ 63"

text \<open>Addition of two Go \<open>int\<close> values.\<close>

definition wrap64 :: "int \<Rightarrow> int" where
  "wrap64 i = (i + 2 ^ 63) mod 2 ^ 64 - 2 ^ 63"

lemma wrap64_id: "int64 i \<Longrightarrow> wrap64 i = i"
  by (simp add: int64_def wrap64_def)

lemma int64_wrap64 [simp]: "int64 (wrap64 i)"
proof -
  have "0 \<le> (i + 2 ^ 63) mod 2 ^ 64" "(i + 2 ^ 63) mod 2 ^ 64 < 2 ^ 64" by simp_all
  then show ?thesis by (simp add: int64_def wrap64_def)
qed

lemma wrap64_add_left: "wrap64 (wrap64 a + b) = wrap64 (a + b)"
proof -
  have "((a + 2 ^ 63) mod 2 ^ 64 - 2 ^ 63 + b + 2 ^ 63) mod 2 ^ 64
      = (a + b + 2 ^ 63) mod 2 ^ (64 :: nat)"
    by (simp add: mod_add_left_eq mod_add_right_eq algebra_simps)
  then show ?thesis by (simp add: wrap64_def)
qed

text \<open>\<open>NewMetadata\<close>: the clock reading is an argument.\<close>

definition NewMetadata :: "string \<Rightarrow> bytes \<Rightarrow> time \<Rightarrow> Metadata" where
  "NewMetadata key data now =
     \<lparr> Path = key, Size = int (length data), Timestamp = now,
       Hash = sha1_Sum data, IsDir = False \<rparr>"

definition zero_Metadata :: Metadata where
  "zero_Metadata =
     \<lparr> Path = [], Size = 0, Timestamp = 0, Hash = replicate 20 (CHR 0x00), IsDir = False \<rparr>"

definition zero_Lock :: Lock where
  "zero_Lock = \<lparr> Token = [], Obtained = [], Key = [], LeaseID = 0 \<rparr>"

section \<open>Marshalling\<close>

definition json_int :: "int \<Rightarrow> json" where
  "json_int i = JNum (show_int i)"

definition Marshal_Metadata :: "Metadata \<Rightarrow> string option" where
  "Marshal_Metadata m =
     map_option (\<lambda>ts.
       print_json (JObj
         [(''Path'', JStr (Path m)), (''Size'', json_int (Size m)),
          (''Timestamp'', JStr ts),
          (''Hash'', JArr (map (\<lambda>c. json_int (int (nat_of_byte c))) (Hash m))),
          (''IsDir'', JBool (IsDir m))]))
       (MarshalText (Timestamp m))"

definition Marshal_Lock :: "Lock \<Rightarrow> string" where
  "Marshal_Lock l =
     print_json (JObj
       [(''Token'', JStr (Token l)), (''Obtained'', JStr (Obtained l)),
        (''Key'', JStr (Key l)), (''LeaseID'', json_int (LeaseID l))])"

section \<open>Unmarshalling\<close>

text \<open>Numbers: only plain integer literals fit an integer field.\<close>

definition parse_int64 :: "string \<Rightarrow> int option" where
  "parse_int64 l =
     (let neg = (l \<noteq> [] \<and> hd l = CHR ''-''); d = (if neg then tl l else l);
          i = (if neg then - int (dec_val d) else int (dec_val d))
      in if d \<noteq> [] \<and> list_all is_digit d \<and> int64 i then Some i else None)"

definition parse_uint8 :: "string \<Rightarrow> char option" where
  "parse_uint8 l =
     (if l \<noteq> [] \<and> list_all is_digit l \<and> dec_val l < 256 then Some (byte_of (dec_val l))
      else None)"

fun set_string :: "json \<Rightarrow> string \<Rightarrow> string option" where
  "set_string JNull old = Some old"
| "set_string (JStr s) old = Some s"
| "set_string _ old = None"

fun set_int :: "json \<Rightarrow> int \<Rightarrow> int option" where
  "set_int JNull old = Some old"
| "set_int (JNum l) old = parse_int64 l"
| "set_int _ old = None"

fun set_bool :: "json \<Rightarrow> bool \<Rightarrow> bool option" where
  "set_bool JNull old = Some old"
| "set_bool (JBool b) old = Some b"
| "set_bool _ old = None"

fun set_time :: "json \<Rightarrow> time \<Rightarrow> time option" where
  "set_time JNull old = Some old"
| "set_time (JStr s) old = UnmarshalText s"
| "set_time _ old = None"

fun set_byte :: "json \<Rightarrow> char \<Rightarrow> char option" where
  "set_byte JNull old = Some old"
| "set_byte (JNum l) old = parse_uint8 l"
| "set_byte _ old = None"

text \<open>A JSON array into a \<open>[20]byte\<close>: extra elements are skipped, missing ones zeroed.\<close>

fun set_hash :: "json \<Rightarrow> bytes \<Rightarrow> bytes option" where
  "set_hash JNull old = Some old"
| "set_hash (JArr vs) old =
     map_option (\<lambda>bs. bs @ replicate (20 - length bs) (CHR 0x00))
       (those (map (\<lambda>(v, o'). set_byte v o') (zip vs old)))"
| "set_hash _ old = None"

text \<open>Case folding of a field name, with the two letters outside ASCII that fold into it.\<close>

fun fold_name :: "string \<Rightarrow> string" where
  "fold_name (a # b # c # s) =
     (if [a, b] = [CHR 0xC5, CHR 0xBF] then CHR ''S'' # fold_name (c # s)
      else if [a, b, c] = [CHR 0xE2, CHR 0x84, CHR 0xAA] then CHR ''K'' # fold_name s
      else (if 97 \<le> nat_of_byte a \<and> nat_of_byte a \<le> 122 then byte_of (nat_of_byte a - 32) else a)
           # fold_name (b # c # s))"
| "fold_name [a, b] =
     (if [a, b] = [CHR 0xC5, CHR 0xBF] then ''S''
      else map (\<lambda>x. if 97 \<le> nat_of_byte x \<and> nat_of_byte x \<le> 122
                    then byte_of (nat_of_byte x - 32) else x) [a, b])"
| "fold_name s =
     map (\<lambda>x. if 97 \<le> nat_of_byte x \<and> nat_of_byte x \<le> 122
              then byte_of (nat_of_byte x - 32) else x) s"

definition field_of :: "string list \<Rightarrow> string \<Rightarrow> string option" where
  "field_of names k =
     (if k \<in> set names then Some k else find (\<lambda>n. fold_name n = fold_name k) names)"

fun fold_opt :: "('s \<Rightarrow> 'x \<Rightarrow> 's option) \<Rightarrow> 's \<Rightarrow> 'x list \<Rightarrow> 's option" where
  "fold_opt f s [] = Some s"
| "fold_opt f s (x # xs) = (case f s x of None \<Rightarrow> None | Some s' \<Rightarrow> fold_opt f s' xs)"

definition set_Metadata_field :: "Metadata \<Rightarrow> string \<times> json \<Rightarrow> Metadata option" where
  "set_Metadata_field m kv =
     (case field_of [''Path'', ''Size'', ''Timestamp'', ''Hash'', ''IsDir''] (fst kv) of
        None \<Rightarrow> Some m
      | Some f \<Rightarrow>
          if f = ''Path'' then map_option (\<lambda>x. m\<lparr>Path := x\<rparr>) (set_string (snd kv) (Path m))
          else if f = ''Size'' then map_option (\<lambda>x. m\<lparr>Size := x\<rparr>) (set_int (snd kv) (Size m))
          else if f = ''Timestamp'' then
            map_option (\<lambda>x. m\<lparr>Timestamp := x\<rparr>) (set_time (snd kv) (Timestamp m))
          else if f = ''Hash'' then map_option (\<lambda>x. m\<lparr>Hash := x\<rparr>) (set_hash (snd kv) (Hash m))
          else map_option (\<lambda>x. m\<lparr>IsDir := x\<rparr>) (set_bool (snd kv) (IsDir m)))"

definition set_Lock_field :: "Lock \<Rightarrow> string \<times> json \<Rightarrow> Lock option" where
  "set_Lock_field l kv =
     (case field_of [''Token'', ''Obtained'', ''Key'', ''LeaseID''] (fst kv) of
        None \<Rightarrow> Some l
      | Some f \<Rightarrow>
          if f = ''Token'' then map_option (\<lambda>x. l\<lparr>Token := x\<rparr>) (set_string (snd kv) (Token l))
          else if f = ''Obtained'' then
            map_option (\<lambda>x. l\<lparr>Obtained := x\<rparr>) (set_string (snd kv) (Obtained l))
          else if f = ''Key'' then map_option (\<lambda>x. l\<lparr>Key := x\<rparr>) (set_string (snd kv) (Key l))
          else map_option (\<lambda>x. l\<lparr>LeaseID := x\<rparr>) (set_int (snd kv) (LeaseID l)))"

definition Unmarshal_struct ::
  "('s \<Rightarrow> string \<times> json \<Rightarrow> 's option) \<Rightarrow> string \<Rightarrow> 's \<Rightarrow> 's option" where
  "Unmarshal_struct upd s old =
     (case parse_json s of
        Some (JObj ms) \<Rightarrow> fold_opt upd old ms
      | Some JNull \<Rightarrow> Some old
      | _ \<Rightarrow> None)"

definition Unmarshal_Metadata :: "string \<Rightarrow> Metadata \<Rightarrow> Metadata option" where
  "Unmarshal_Metadata = Unmarshal_struct set_Metadata_field"

definition Unmarshal_Lock :: "string \<Rightarrow> Lock \<Rightarrow> Lock option" where
  "Unmarshal_Lock = Unmarshal_struct set_Lock_field"

section \<open>Round trips of the records\<close>

lemma hd_show_nat: "hd (show_nat n) \<noteq> CHR ''-''"
  using show_nat_digits [of n] by (cases "show_nat n") auto

lemma parse_int64_show [simp]: "int64 i \<Longrightarrow> parse_int64 (show_int i) = Some i"
  by (cases "i < 0")
     (simp_all add: parse_int64_def show_int_def hd_show_nat show_nat_digits)

lemma parse_uint8_show [simp]: "parse_uint8 (show_int (int (nat_of_byte c))) = Some c"
  by (simp add: parse_uint8_def show_int_def show_nat_digits)

lemma set_bytes_show:
  "length bs = length old \<Longrightarrow>
   those (map (\<lambda>(v, o'). set_byte v o')
     (zip (map (\<lambda>c. JNum (show_int (int (nat_of_byte c)))) bs) old)) = Some bs"
  by (induction bs old rule: list_induct2) auto

lemma digit_ascii: "is_digit c \<Longrightarrow> nat_of_byte c < 128"
  by (simp add: is_digit_def)

lemma format_time_ascii: "list_all (\<lambda>c. nat_of_byte c < 128) (format_time y m d sec ns)"
  using strip_zeros_digits [of ns]
  by (auto simp: format_time_def format_frac_def list_all_iff dest!: digit_ascii digs_digits)

lemma sanitize_MarshalText [simp]: "MarshalText t = Some s \<Longrightarrow> sanitize s = s"
  by (auto simp: MarshalText_def sanitize_ascii format_time_ascii
      split: prod.splits if_splits)

lemma b64_ascii: "c \<in> set b64_alphabet \<Longrightarrow> nat_of_byte c < 128"
proof -
  have "list_all (\<lambda>c. nat_of_byte c < 128) b64_alphabet" by (simp add: b64_alphabet_def)
  then show "c \<in> set b64_alphabet \<Longrightarrow> ?thesis" by (simp add: list_all_iff)
qed

lemma b64_char_ascii: "n < 64 \<Longrightarrow> nat_of_byte (b64_char n) < 128"
  by (rule b64_ascii, rule b64_char_in)

lemma sanitize_EncodeToString [simp]: "sanitize (EncodeToString bs) = EncodeToString bs"
proof (rule sanitize_ascii, induction bs rule: EncodeToString.induct)
  case (2 a)
  then show ?case
    using b64_digit_bounds [of "nat_of_byte a" 0 0] by (simp add: Let_def b64_char_ascii)
next
  case (3 a b)
  then show ?case
    using b64_digit_bounds [of "nat_of_byte a" "nat_of_byte b" 0]
    by (simp add: Let_def b64_char_ascii)
next
  case (4 a b c cs)
  then show ?case
    using b64_digit_bounds [of "nat_of_byte a" "nat_of_byte b" "nat_of_byte c"]
    by (simp add: Let_def b64_char_ascii)
qed simp

definition storable_Metadata :: "Metadata \<Rightarrow> bool" where
  "storable_Metadata m \<longleftrightarrow>
     valid_time (Timestamp m) \<and> int64 (Size m) \<and> length (Hash m) = 20"

lemma Unmarshal_Marshal_Metadata [go_codec]:
  assumes "Marshal_Metadata m = Some s" "int64 (Size m)" "length (Hash m) = 20"
  shows "Unmarshal_Metadata s zero_Metadata = Some (m\<lparr>Path := sanitize (Path m)\<rparr>)"
proof -
  obtain ts where ts: "MarshalText (Timestamp m) = Some ts"
    and s: "s = print_json (JObj
         [(''Path'', JStr (Path m)), (''Size'', json_int (Size m)),
          (''Timestamp'', JStr ts),
          (''Hash'', JArr (map (\<lambda>c. json_int (int (nat_of_byte c))) (Hash m))),
          (''IsDir'', JBool (IsDir m))])"
    using assms(1) by (auto simp: Marshal_Metadata_def)
  have "parse_json s = Some (JObj
         [(''Path'', JStr (sanitize (Path m))), (''Size'', JNum (show_int (Size m))),
          (''Timestamp'', JStr ts),
          (''Hash'', JArr (map (\<lambda>c. JNum (show_int (int (nat_of_byte c)))) (Hash m))),
          (''IsDir'', JBool (IsDir m))])"
    unfolding s using ts
    by (subst parse_print) (auto simp: json_int_def list_all_iff sanitize_ascii)
  then show ?thesis
    using assms(2,3) ts UnmarshalText_MarshalText [OF ts] set_bytes_show [of "Hash m"]
    by (simp add: Unmarshal_Metadata_def Unmarshal_struct_def set_Metadata_field_def
        field_of_def zero_Metadata_def)
qed

lemma Unmarshal_Marshal_Lock [go_codec]:
  assumes "int64 (LeaseID l)"
  shows "Unmarshal_Lock (Marshal_Lock l) zero_Lock =
    Some (l\<lparr>Token := sanitize (Token l), Obtained := sanitize (Obtained l),
            Key := sanitize (Key l)\<rparr>)"
proof -
  have "parse_json (Marshal_Lock l) = Some (JObj
       [(''Token'', JStr (sanitize (Token l))), (''Obtained'', JStr (sanitize (Obtained l))),
        (''Key'', JStr (sanitize (Key l))), (''LeaseID'', JNum (show_int (LeaseID l)))])"
    unfolding Marshal_Lock_def
    by (subst parse_print) (auto simp: json_int_def sanitize_ascii)
  then show ?thesis
    using assms
    by (simp add: Unmarshal_Lock_def Unmarshal_struct_def set_Lock_field_def field_of_def
        zero_Lock_def)
qed

end
