(* ===== verification/Operations.thy ===== *)
theory Operations
  imports Etcd_Client Records
begin

text \<open>
  \<open>src/operations.go\<close>: the low-level requests, each a \<open>backoff.Operation\<close>, and \<open>pipeline\<close>,
  which runs a list of them with rollback.  An operation that writes through a pointer
  (\<open>get\<close>, \<open>getMD\<close>, \<open>exists\<close>) takes the old value of its target and returns the new one;
  after an error the target is as it was (a Go decoder may have filled some fields of it).
  The texts of errors made by the standard library are not modelled: \<open>err_base64\<close> and
  \<open>err_json\<close> stand for them.
\<close>

abbreviation err_base64 :: go_error where
  "err_base64 \<equiv> External ''illegal base64 data''"

abbreviation err_json :: go_error where
  "err_json \<equiv> External ''json: cannot unmarshal''"

abbreviation err_json_marshal :: go_error where
  "err_json_marshal \<equiv> External ''json: year outside of range [0,9999]''"

section \<open>Stored metadata\<close>

text \<open>\<open>unmarshalMDv3(value, m)\<close>; a nil \<open>m\<close> is \<open>None\<close>.\<close>

definition unmarshalMDv3 :: "string \<Rightarrow> Metadata option \<Rightarrow> go_error + Metadata" where
  "unmarshalMDv3 value m =
     (case m of
        None \<Rightarrow> Inl (Errorf ''unmarshalMD: metadata is nil'')
      | Some m0 \<Rightarrow>
          (case DecodeString value of
             None \<Rightarrow> Inl (Wrap err_base64 ''getmd: failed to decode metadata'')
           | Some bjson \<Rightarrow>
               (case Unmarshal_Metadata bjson m0 of
                  None \<Rightarrow> Inl (Wrap err_json ''getmd: failed to unmarshal metadata response'')
                | Some m1 \<Rightarrow> Inr m1)))"

lemma unmarshalMDv3_stored [go_codec]:
  assumes "Marshal_Metadata m = Some s" "int64 (Size m)" "length (Hash m) = 20"
  shows "unmarshalMDv3 (EncodeToString s) (Some zero_Metadata)
    = Inr (m\<lparr>Path := sanitize (Path m)\<rparr>)"
  by (simp add: unmarshalMDv3_def Unmarshal_Marshal_Metadata [OF assms])

section \<open>Requests\<close>

definition op_get :: "'s client \<Rightarrow> string \<Rightarrow> bytes \<Rightarrow> 's \<Rightarrow> (go_error option \<times> bytes) \<times> 's" where
  "op_get cli key dst s =
     (case cli_Get cli Background key False s of
        (Inl err, s1) \<Rightarrow> ((Some (Wrap err ''failed to retrieve value from etcd''), dst), s1)
      | (Inr [], s1) \<Rightarrow> ((None, dst), s1)
      | (Inr (x # _), s1) \<Rightarrow>
          (case DecodeString (KvValue x) of
             None \<Rightarrow>
               ((Some (Wrap err_base64 ''failed to decode base64 value from etcd''), dst), s1)
           | Some b \<Rightarrow> ((None, dst @ b), s1)))"

definition op_set :: "'s client \<Rightarrow> string \<Rightarrow> bytes \<Rightarrow> 's operation" where
  "op_set cli key value s =
     (case cli_Put cli Background key (EncodeToString value) s of
        (Inl err, s1) \<Rightarrow> (Some (Wrap err ''set: failed to set key value''), s1)
      | (Inr _, s1) \<Rightarrow> (None, s1))"

definition op_del :: "'s client \<Rightarrow> string \<Rightarrow> 's operation" where
  "op_del cli key s =
     (case cli_Delete cli Background key s of
        (Inl err, s1) \<Rightarrow> (Some (Wrap err (''del: failed to delete key: '' @ key)), s1)
      | (Inr _, s1) \<Rightarrow> (None, s1))"

definition op_setMD :: "'s client \<Rightarrow> string \<Rightarrow> Metadata \<Rightarrow> 's operation" where
  "op_setMD cli key m s =
     (case Marshal_Metadata m of
        None \<Rightarrow> (Some (Wrap err_json_marshal ''setmd: failed to marshal metadata''), s)
      | Some jsdata \<Rightarrow>
          (case cli_Put cli Background key (EncodeToString jsdata) s of
             (Inl err, s1) \<Rightarrow> (Some (Wrap err ''setmd: failed to set metadata value''), s1)
           | (Inr _, s1) \<Rightarrow> (None, s1)))"

text \<open>The loop over the children of a directory, shared in shape by \<open>getMD\<close> and
  \<open>etcdsrv.Metadata\<close>: sizes add up as Go ints, the latest timestamp wins, and a child
  that does not decode is skipped.\<close>

fun sum_children :: "KeyValue list \<Rightarrow> Metadata \<Rightarrow> Metadata" where
  "sum_children [] m = m"
| "sum_children (kv # kvs) m =
     (case unmarshalMDv3 (KvValue kv) (Some zero_Metadata) of
        Inl _ \<Rightarrow> sum_children kvs m
      | Inr md1 \<Rightarrow>
          let m1 = m\<lparr>Size := wrap64 (Size m + Size md1)\<rparr>
          in sum_children kvs
               (if Timestamp md1 > Timestamp m1 then m1\<lparr>Timestamp := Timestamp md1\<rparr> else m1))"

text \<open>The part of a metadata key after the first \<open>/md/\<close>.\<close>

definition md_relative :: "string \<Rightarrow> string" where
  "md_relative key =
     (case Index key ''/md/'' of None \<Rightarrow> key | Some pathStart \<Rightarrow> drop (pathStart + 4) key)"

definition op_getMD ::
  "'s client \<Rightarrow> string \<Rightarrow> Metadata \<Rightarrow> 's \<Rightarrow> (go_error option \<times> Metadata) \<times> 's" where
  "op_getMD cli key m s =
     (case cli_Get cli Background key False s of
        (Inl err, s1) \<Rightarrow> ((Some (Wrap err ''getmd: failed to get metadata response''), m), s1)
      | (Inr (x # _), s1) \<Rightarrow>
          (case unmarshalMDv3 (KvValue x) (Some m) of
             Inl e \<Rightarrow> ((Some e, m), s1)
           | Inr m1 \<Rightarrow> ((None, m1), s1))
      | (Inr [], s1) \<Rightarrow>
          (case cli_Get cli Background (key @ ''/'') True s1 of
             (Inl err, s2) \<Rightarrow>
               ((Some (Wrap err ''getmd: failed to get directory contents''), m), s2)
           | (Inr [], s2) \<Rightarrow> ((Some (NotExist (md_relative key)), m), s2)
           | (Inr kvs, s2) \<Rightarrow>
               (case clock_Now cli s2 of
                  (t, s3) \<Rightarrow>
                    ((None, sum_children kvs
                        (m\<lparr>Path := md_relative key, IsDir := True, Timestamp := t\<rparr>)), s3))))"

definition op_noop :: "'s operation" where
  "op_noop s = (None, s)"

definition op_exists :: "'s client \<Rightarrow> string \<Rightarrow> bool \<Rightarrow> 's \<Rightarrow> (go_error option \<times> bool) \<times> 's" where
  "op_exists cli key out s =
     (case cli_Get cli Background key False s of
        (Inl err, s1) \<Rightarrow> ((Some (Wrap err ''exists: failed to check key''), out), s1)
      | (Inr kvs, s1) \<Rightarrow> ((None, kvs \<noteq> []), s1))"

definition op_list :: "'s client \<Rightarrow> string \<Rightarrow> 's \<Rightarrow> (go_error + KeyValue list) \<times> 's" where
  "op_list cli key s =
     (case cli_Get cli Background key True s of
        (Inl err, s1) \<Rightarrow> (Inl (Wrap err ''list: unable to get list''), s1)
      | (Inr kvs, s1) \<Rightarrow> (Inr kvs, s1))"

section \<open>Pipelines\<close>

definition tx :: "'s operation list \<Rightarrow> 's operation list" where
  "tx txs = txs"

text \<open>The rollback loop \<open>for i := idx - 1; i >= 0; i--\<close>, with \<open>n = i + 1\<close>.\<close>

fun rollback_loop ::
  "('s operation \<Rightarrow> 's operation) \<Rightarrow> 's operation list \<Rightarrow> nat \<Rightarrow> go_error \<Rightarrow> 's \<Rightarrow> go_error \<times> 's" where
  "rollback_loop retry rollbacks 0 err s = (err, s)"
| "rollback_loop retry rollbacks (Suc i) err s =
     (if length rollbacks \<le> i then rollback_loop retry rollbacks i err s
      else case retry (rollbacks ! i) s of
        (None, s1) \<Rightarrow> rollback_loop retry rollbacks i err s1
      | (Some errR, s1) \<Rightarrow>
          rollback_loop retry rollbacks i (Wrap err (''error on rollback: '' @ Error errR)) s1)"

fun pipeline_loop ::
  "('s operation \<Rightarrow> 's operation) \<Rightarrow> 's operation list \<Rightarrow> nat \<Rightarrow> 's operation list \<Rightarrow> 's operation" where
  "pipeline_loop retry rollbacks idx [] s = (None, s)"
| "pipeline_loop retry rollbacks idx (c # cs) s =
     (case retry c s of
        (None, s1) \<Rightarrow> pipeline_loop retry rollbacks (Suc idx) cs s1
      | (Some err, s1) \<Rightarrow>
          (case rollback_loop retry rollbacks idx err s1 of (err', s2) \<Rightarrow> (Some err', s2)))"

definition pipeline ::
  "('s operation \<Rightarrow> 's operation) \<Rightarrow> 's operation list \<Rightarrow> 's operation list \<Rightarrow> 's operation" where
  "pipeline retry commits rollbacks s = pipeline_loop retry rollbacks 0 commits s"

end
