(* ===== verification/Rate_Limit.thy ===== *)
theory Rate_Limit
  imports Etcd_Client
begin

text \<open>
  \<open>src/ratelimit.go\<close>: the wrapper around the library's limiter.  A limiter is given by its rate
  and its burst; the tokens it has left are part of the state behind the client, whose
  \<open>limiter_Wait\<close> stands for the library's \<^verbatim>\<open>Wait\<close>.
\<close>

record rateLimiter =
  limiter :: Limiter

definition newRateLimiter :: "rat \<Rightarrow> int \<Rightarrow> rateLimiter" where
  "newRateLimiter r b = \<lparr> limiter = \<lparr> Limit = r, Burst = b \<rparr> \<rparr>"

definition rateLimiter_wait :: "'s client \<Rightarrow> ctx \<Rightarrow> rateLimiter \<Rightarrow> 's operation" where
  "rateLimiter_wait cli ctx r s = limiter_Wait cli ctx (limiter r) s"

context etcd_kv
begin

lemma limiter_frame: "rateLimiter_wait cli ctx r s = (w, t) \<Longrightarrow> kv t = kv s"
  unfolding rateLimiter_wait_def by (rule wait_frame)

end

context etcd_timed
begin

lemma limiter_mono: "rateLimiter_wait cli ctx r s = (w, t) \<Longrightarrow> now s \<le> now t"
  unfolding rateLimiter_wait_def by (rule wait_mono)

end

context etcd_live
begin

lemma limiter_live: "healthy s \<Longrightarrow> in_time ctx (now s + latency) \<Longrightarrow>
    \<exists>t. rateLimiter_wait cli ctx r s = (None, t) \<and> healthy t \<and> now t \<le> now s + latency"
  unfolding rateLimiter_wait_def by (rule wait_live)

end

end
