(* ===== verification/Go_Path.thy ===== *)
theory Go_Path
  imports Go_Strings
begin

text \<open>
  Package \<open>path\<close>: \<open>Clean\<close>, \<open>Join\<close> and \<open>Split\<close>, and the algebra of normalised absolute
  paths: a key of the store is the rendering of a list of plain components, and joining a
  prefix with a user key concatenates component lists as long as the key has no \<open>..\<close>.
\<close>

section \<open>Clean, Join, Split\<close>

text \<open>One component of the scan of \<open>path.Clean\<close>: \<open>st\<close> is the output so far, last first.\<close>

definition clean_step :: "bool \<Rightarrow> string list \<Rightarrow> string \<Rightarrow> string list" where
  "clean_step rooted st c =
     (if c = [] \<or> c = ''.'' then st
      else if c = ''..'' then
        (if st \<noteq> [] \<and> hd st \<noteq> ''..'' then tl st
         else if rooted then st else c # st)
      else c # st)"

definition path_Clean :: "string \<Rightarrow> string" where
  "path_Clean p =
     (if p = [] then ''.''
      else
        let rooted = (hd p = slash);
            st = rev (foldl (clean_step rooted) [] (split_on slash p))
        in if rooted then slash # join_with slash st
           else if st = [] then ''.'' else join_with slash st)"

text \<open>\<open>path.Join\<close>: empty elements before the first non-empty one are dropped.\<close>

definition path_Join :: "string list \<Rightarrow> string" where
  "path_Join es =
     (if concat es = [] then []
      else path_Clean (join_with slash (dropWhile (\<lambda>e. e = []) es)))"

text \<open>\<open>path.Split\<close>: the directory part keeps its trailing slash.\<close>

definition path_Split :: "string \<Rightarrow> string \<times> string" where
  "path_Split p =
     (let file = rev (takeWhile (\<lambda>x. x \<noteq> slash) (rev p))
      in (take (length p - length file) p, file))"

section \<open>Normalised absolute paths\<close>

definition plain_comp :: "string \<Rightarrow> bool" where
  "plain_comp c \<longleftrightarrow> c \<noteq> [] \<and> c \<noteq> ''.'' \<and> c \<noteq> ''..'' \<and> slash \<notin> set c"

definition render :: "string list \<Rightarrow> string" where
  "render cs = slash # join_with slash cs"

text \<open>The components of a key that survive normalisation, and the keys that never climb.\<close>

definition comps :: "string \<Rightarrow> string list" where
  "comps s = filter (\<lambda>c. c \<noteq> [] \<and> c \<noteq> ''.'') (split_on slash s)"

definition no_dotdot :: "string \<Rightarrow> bool" where
  "no_dotdot s \<longleftrightarrow> ''..'' \<notin> set (split_on slash s)"

lemma plain_comps [go_path]: "no_dotdot s \<Longrightarrow> list_all plain_comp (comps s)"
  by (auto simp: list_all_iff comps_def no_dotdot_def plain_comp_def dest: split_on_no_sep)

lemma foldl_clean_plain:
  "no_dotdot s \<Longrightarrow>
   foldl (clean_step r) st (split_on slash s) = rev (comps s) @ st"
proof -
  have "''..'' \<notin> set cs \<Longrightarrow>
    foldl (clean_step r) st cs = rev (filter (\<lambda>c. c \<noteq> [] \<and> c \<noteq> ''.'') cs) @ st" for cs
    by (induction cs arbitrary: st) (auto simp: clean_step_def)
  then show "no_dotdot s \<Longrightarrow> ?thesis"
    by (simp add: no_dotdot_def comps_def)
qed

lemma comps_append_slash: "comps (a @ slash # b) = comps a @ comps b"
  by (simp add: comps_def split_on_append_gen)

lemma no_dotdot_append_slash: "no_dotdot (a @ slash # b) \<longleftrightarrow> no_dotdot a \<and> no_dotdot b"
  by (simp add: no_dotdot_def split_on_append_gen)

lemma comps_empty [simp]: "comps [] = []"
  by (simp add: comps_def)

lemma no_dotdot_empty [simp]: "no_dotdot []"
  by (simp add: no_dotdot_def)

lemma comps_slash_Cons [simp]: "comps (slash # s) = comps s"
  using comps_append_slash [of "[]" s] by simp

lemma no_dotdot_slash_Cons [simp]: "no_dotdot (slash # s) = no_dotdot s"
  using no_dotdot_append_slash [of "[]" s] by simp

lemma comps_join:
  "list_all plain_comp cs \<Longrightarrow> comps (join_with slash cs) = cs"
  by (cases "cs = []")
     (auto simp: comps_def split_join list_all_iff plain_comp_def intro!: filter_True)

lemma comps_render [simp]: "list_all plain_comp cs \<Longrightarrow> comps (render cs) = cs"
  by (simp add: render_def comps_join)

lemma no_dotdot_render [simp]: "list_all plain_comp cs \<Longrightarrow> no_dotdot (render cs)"
  by (cases "cs = []")
     (auto simp: render_def no_dotdot_def split_join list_all_iff plain_comp_def)

lemma render_inject:
  "list_all plain_comp as \<Longrightarrow> list_all plain_comp bs \<Longrightarrow> render as = render bs \<longleftrightarrow> as = bs"
  by (metis comps_render)

lemma render_nonempty [simp]: "render cs \<noteq> []"
  by (simp add: render_def)

lemma hd_render [simp]: "hd (render cs) = slash"
  by (simp add: render_def)

lemma path_Clean_rooted:
  "no_dotdot s \<Longrightarrow> path_Clean (slash # s) = render (comps s)"
  using foldl_clean_plain [of "slash # s" True "[]"]
  by (simp add: path_Clean_def render_def)

text \<open>Joining a normalised absolute path with anything that does not climb.\<close>

lemma path_Join_render [go_path]:
  assumes "list_all plain_comp ps" and "no_dotdot key"
  shows "path_Join [render ps, key] = render (ps @ comps key)"
proof -
  have "no_dotdot (join_with slash ps @ slash # key)"
    using assms no_dotdot_render [OF assms(1)]
    by (simp add: no_dotdot_append_slash render_def)
  then have "path_Clean (slash # join_with slash ps @ slash # key)
      = render (comps (join_with slash ps) @ comps key)"
    by (simp add: path_Clean_rooted comps_append_slash)
  then show ?thesis
    using assms(1) by (simp add: path_Join_def render_def comps_join)
qed

lemma path_Clean_render_append [go_path]:
  assumes "list_all plain_comp ps" and "no_dotdot key"
  shows "path_Join [render ps @ slash # key] = render (ps @ comps key)"
proof -
  have "no_dotdot (join_with slash ps @ slash # key)"
    using assms no_dotdot_render [OF assms(1)]
    by (simp add: no_dotdot_append_slash render_def)
  then show ?thesis
    using assms(1)
    by (simp add: path_Join_def render_def path_Clean_rooted comps_append_slash comps_join)
qed

lemma path_Clean_idem: "list_all plain_comp cs \<Longrightarrow> path_Clean (render cs) = render cs"
  using path_Clean_rooted [of "join_with slash cs"] no_dotdot_render [of cs]
  by (simp add: render_def comps_join)

section \<open>Prefixes of normalised paths\<close>

lemma render_snoc: "cs \<noteq> [] \<Longrightarrow> render (cs @ [c]) = render cs @ slash # c"
  by (induction slash cs rule: join_with.induct) (auto simp: render_def join_with_Cons)

lemma render_append:
  "as \<noteq> [] \<Longrightarrow> bs \<noteq> [] \<Longrightarrow> render (as @ bs) = render as @ render bs"
  by (induction slash as rule: join_with.induct) (auto simp: render_def join_with_Cons)

text \<open>Below a directory: the path of the directory followed by a slash.\<close>

lemma prefix_render_dir:
  assumes "list_all plain_comp as" and "list_all plain_comp bs" and "as \<noteq> []"
  shows "prefix (render as @ [slash]) (render bs) \<longleftrightarrow> (\<exists>c cs. bs = as @ c # cs)"
proof
  assume "prefix (render as @ [slash]) (render bs)"
  then obtain t where "render bs = render as @ slash # t"
    by (auto simp: prefix_def)
  then have "split_on slash (render bs) = split_on slash (render as) @ split_on slash t"
    by (simp add: split_on_append_gen)
  then have "[] # bs = ([] # as) @ split_on slash t"
    using assms by (cases "bs = []")
      (auto simp: render_def split_join list_all_iff plain_comp_def Cons_eq_append_conv)
  then show "\<exists>c cs. bs = as @ c # cs"
    by (metis append_Cons list.exhaust list.inject split_on_nonempty)
next
  assume "\<exists>c cs. bs = as @ c # cs"
  then obtain c cs where "bs = as @ c # cs" by blast
  then have "render bs = (render as @ [slash]) @ join_with slash (c # cs)"
    using render_append [OF assms(3), of "c # cs"] by (simp add: render_def)
  then show "prefix (render as @ [slash]) (render bs)"
    by (metis prefixI)
qed

lemma path_Split_render_snoc:
  assumes "slash \<notin> set c" and "cs \<noteq> []"
  shows "path_Split (render (cs @ [c])) = (render cs @ [slash], c)"
proof -
  have "takeWhile (\<lambda>x. x \<noteq> slash) (rev (render cs @ slash # c)) = rev c"
    using assms(1) takeWhile_append_stop [of "rev c" "\<lambda>x. x \<noteq> slash" slash "rev (render cs)"]
    by auto
  then show ?thesis
    using assms(2) by (simp add: path_Split_def render_snoc)
qed

end
