(* ===== verification/Config_Types.thy ===== *)
theory Config_Types
  imports Go_Duration
begin

text \<open>
  The configuration structs of \<open>src/config.go\<close>.  A duration is a number of nanoseconds, a
  nil slice and an empty one are the empty list (the code tests both alike).  Of the field
  \<open>options\<close> the program only ever uses the length, so the length is what is kept.
\<close>

record ConnectionConfig =
  DialTimeout :: int
  KeepAliveTime :: int
  KeepAliveTimeout :: int
  AutoSyncInterval :: int
  RequestTimeout :: int
  RejectOldCluster :: bool

record TLSConfig =
  CertFile :: string
  KeyFile :: string
  CAFile :: string
  ServerName :: string
  SkipVerify :: bool

record AuthConfig =
  Username :: string
  Password :: string

record ClusterConfig =
  KeyPrefix :: string
  ServerIP :: "string list"
  LockTimeout :: int
  CaddyFile :: bytes
  CaddyFilePath :: string
  DisableCaddyLoad :: bool
  TLS :: TLSConfig
  Auth :: AuthConfig
  Connection :: ConnectionConfig
  options :: nat

text \<open>The configuration \<open>NewClusterConfig\<close> starts from, before any option.\<close>

definition default_config :: ClusterConfig where
  "default_config =
     \<lparr> KeyPrefix = ''/caddy'', ServerIP = [], LockTimeout = 5 * Minute,
       CaddyFile = [], CaddyFilePath = [], DisableCaddyLoad = False,
       TLS = \<lparr> CertFile = [], KeyFile = [], CAFile = [], ServerName = [], SkipVerify = False \<rparr>,
       Auth = \<lparr> Username = [], Password = [] \<rparr>,
       Connection = \<lparr> DialTimeout = 5 * Second, KeepAliveTime = 30 * Second,
         KeepAliveTimeout = 20 * Second, AutoSyncInterval = 5 * Minute,
         RequestTimeout = 30 * Second, RejectOldCluster = True \<rparr>,
       options = 0 \<rparr>"

end
