(* ===== verification/Service.thy ===== *)
theory Service
  imports Operations Rate_Limit Go_Path Config_Types
begin

text \<open>
  \<open>src/etcd.go\<close>, the storage half: the service struct and its operations \<open>Store\<close>, \<open>Load\<close>,
  \<open>Delete\<close>, \<open>Metadata\<close> and \<open>List\<close>, with the filters of \<open>List\<close>.  Each operation makes
  one context with the configured \<open>RequestTimeout\<close> and sends all its requests under it.  Logging
  is left out, and with it the clock readings that only feed log lines.
\<close>

section \<open>The service\<close>

record etcdsrv =
  mdPrefix :: string
  lockKey :: string
  cfg :: ClusterConfig
  rateLimiter :: rateLimiter
  noBackoff :: bool

text \<open>The struct \<open>NewService\<close> builds around a connected client: 100 operations per second with
  a burst of 200.\<close>

definition new_etcdsrv :: "ClusterConfig \<Rightarrow> etcdsrv" where
  "new_etcdsrv c =
     \<lparr> mdPrefix = path_Join [KeyPrefix c @ ''/md''],
       lockKey = path_Join [KeyPrefix c, ''/lock''],
       cfg = c,
       rateLimiter = newRateLimiter 100 200,
       noBackoff = False \<rparr>"

definition srv_prefix :: "etcdsrv \<Rightarrow> string" where
  "srv_prefix e = KeyPrefix (cfg e)"

definition srv_backoff :: ExponentialBackOff where
  "srv_backoff =
     \<lparr> InitialInterval = 1 * Second, MaxInterval = 5 * Second, MaxElapsedTime = 30 * Second \<rparr>"

definition srv_execute :: "'s client \<Rightarrow> etcdsrv \<Rightarrow> 's operation \<Rightarrow> 's operation" where
  "srv_execute cli e o' s = (if noBackoff e then o' s else backoff_Retry cli srv_backoff o' s)"

text \<open>The context of a call: \<^verbatim>\<open>context.WithTimeout\<close> with the configured \<open>RequestTimeout\<close>.\<close>

abbreviation srv_timeout :: "etcdsrv \<Rightarrow> int" where
  "srv_timeout e \<equiv> RequestTimeout (Connection (cfg e))"

section \<open>Store, Load, Delete\<close>

text \<open>Both branches of \<open>Store\<close>'s check for existing metadata build the same transaction.\<close>

definition store_ops :: "string \<Rightarrow> string \<Rightarrow> Metadata \<Rightarrow> bytes \<Rightarrow> go_error + etcd_op list" where
  "store_ops storageKey storageKeyMD md value =
     (case Marshal_Metadata md of
        None \<Rightarrow> Inl (Wrap err_json_marshal ''store: failed to marshal metadata'')
      | Some mdBytes \<Rightarrow>
          Inr [OpPut storageKey (EncodeToString value),
               OpPut storageKeyMD (EncodeToString mdBytes)])"

definition srv_Store :: "'s client \<Rightarrow> etcdsrv \<Rightarrow> string \<Rightarrow> bytes \<Rightarrow> 's operation" where
  "srv_Store cli e key value s =
     (let storageKey = path_Join [KeyPrefix (cfg e), key];
          storageKeyMD = path_Join [mdPrefix e, key] in
      case clock_Now cli s of (now, s1) \<Rightarrow>
      let md = NewMetadata key value now in
      case context_WithTimeout cli (srv_timeout e) s1 of (ctx, s2) \<Rightarrow>
      case cli_Get cli ctx storageKeyMD False s2 of
        (Inl err, s3) \<Rightarrow> (Some (Wrap err ''store: failed to check metadata''), s3)
      | (Inr kvs, s3) \<Rightarrow>
          (case rateLimiter_wait cli ctx (rateLimiter e) s3 of
             (Some err, s4) \<Rightarrow> (Some err, s4)
           | (None, s4) \<Rightarrow>
               (case (if kvs \<noteq> [] then store_ops storageKey storageKeyMD md value
                      else store_ops storageKey storageKeyMD md value) of
                  Inl err \<Rightarrow> (Some err, s4)
                | Inr ops \<Rightarrow>
                    (case cli_Txn cli ctx ops s4 of
                       (Inl err, s5) \<Rightarrow>
                         (Some (Wrap err ''store: failed to commit transaction''), s5)
                     | (Inr succeeded, s5) \<Rightarrow>
                         if \<not> succeeded then (Some (Errorf ''store: transaction failed''), s5)
                         else (None, s5)))))"

definition srv_Load :: "'s client \<Rightarrow> etcdsrv \<Rightarrow> string \<Rightarrow> 's \<Rightarrow> (go_error + bytes) \<times> 's" where
  "srv_Load cli e key s =
     (let storageKey = path_Join [KeyPrefix (cfg e), key];
          storageKeyMD = path_Join [mdPrefix e, key] in
      case context_WithTimeout cli (srv_timeout e) s of (ctx, s1) \<Rightarrow>
      case cli_Get cli ctx storageKeyMD False s1 of
        (Inl err, s2) \<Rightarrow> (Inl (Wrap err ''load: failed to get metadata''), s2)
      | (Inr [], s2) \<Rightarrow> (Inl (NotExist key), s2)
      | (Inr (x # _), s2) \<Rightarrow>
          (case DecodeString (KvValue x) of
             None \<Rightarrow> (Inl (Wrap err_base64 ''load: failed to decode metadata''), s2)
           | Some b \<Rightarrow>
               (case Unmarshal_Metadata b zero_Metadata of
                  None \<Rightarrow> (Inl (Wrap err_json ''load: failed to unmarshal metadata''), s2)
                | Some md \<Rightarrow>
                    (case cli_Get cli ctx storageKey False s2 of
                       (Inl err, s3) \<Rightarrow> (Inl (Wrap err ''load: failed to get value''), s3)
                     | (Inr [], s3) \<Rightarrow>
                         (Inl (Errorf ''load: value not found but metadata exists''), s3)
                     | (Inr (y # _), s3) \<Rightarrow>
                         (case DecodeString (KvValue y) of
                            None \<Rightarrow> (Inl (Wrap err_base64 ''load: failed to decode value''), s3)
                          | Some value \<Rightarrow>
                              if sha1_Sum value \<noteq> Hash md then (Inl (FailedChecksum key), s3)
                              else (Inr value, s3))))))"

definition srv_Delete :: "'s client \<Rightarrow> etcdsrv \<Rightarrow> string \<Rightarrow> 's operation" where
  "srv_Delete cli e key s =
     (let storageKey = path_Join [KeyPrefix (cfg e), key];
          storageKeyMD = path_Join [mdPrefix e, key] in
      case context_WithTimeout cli (srv_timeout e) s of (ctx, s1) \<Rightarrow>
      case cli_Txn cli ctx [OpDelete storageKey, OpDelete storageKeyMD] s1 of
        (Inl err, s2) \<Rightarrow> (Some (Wrap err ''delete: failed to commit transaction''), s2)
      | (Inr succeeded, s2) \<Rightarrow>
          if \<not> succeeded then (Some (Errorf ''delete: transaction failed''), s2)
          else (None, s2))"

section \<open>Metadata\<close>

definition srv_Metadata :: "'s client \<Rightarrow> etcdsrv \<Rightarrow> string \<Rightarrow> 's \<Rightarrow> (go_error + Metadata) \<times> 's" where
  "srv_Metadata cli e key s =
     (let storageKeyMD = path_Join [mdPrefix e, key] in
      case context_WithTimeout cli (srv_timeout e) s of (ctx, s1) \<Rightarrow>
      case cli_Get cli ctx storageKeyMD False s1 of
        (Inl err, s2) \<Rightarrow> (Inl (Wrap err ''metadata: failed to get metadata''), s2)
      | (Inr (x # _), s2) \<Rightarrow>
          (case DecodeString (KvValue x) of
             None \<Rightarrow> (Inl (Wrap err_base64 ''metadata: failed to decode metadata''), s2)
           | Some b \<Rightarrow>
               (case Unmarshal_Metadata b zero_Metadata of
                  None \<Rightarrow> (Inl (Wrap err_json ''metadata: failed to unmarshal metadata''), s2)
                | Some md \<Rightarrow> (Inr (md\<lparr>Path := key\<rparr>), s2)))
      | (Inr [], s2) \<Rightarrow>
          (case cli_Get cli ctx (storageKeyMD @ ''/'') True s2 of
             (Inl err, s3) \<Rightarrow>
               (Inl (Wrap err ''metadata: failed to get directory contents''), s3)
           | (Inr [], s3) \<Rightarrow> (Inl (NotExist key), s3)
           | (Inr kvs, s3) \<Rightarrow>
               (let md = sum_children kvs
                           (zero_Metadata\<lparr>Path := key, IsDir := True, Timestamp := 0\<rparr>) in
                if Timestamp md = 0 then
                  (case clock_Now cli s3 of (t, s4) \<Rightarrow> (Inr (md\<lparr>Timestamp := t\<rparr>), s4))
                else (Inr md, s3))))"

section \<open>List and its filters\<close>

type_synonym kv_filter = "KeyValue \<Rightarrow> bool"

definition go_filter :: "KeyValue list \<Rightarrow> kv_filter \<Rightarrow> KeyValue list" where
  "go_filter kvs f = foldl (\<lambda>out kv. if f kv then out @ [kv] else out) [] kvs"

definition FilterPrefix :: "string \<Rightarrow> string \<Rightarrow> kv_filter" where
  "FilterPrefix pre base kv = HasPrefix (TrimPrefix (KvKey kv) base) pre"

definition FilterRemoveDirectories :: kv_filter where
  "FilterRemoveDirectories kv = (KvValue kv \<noteq> [])"

definition FilterExactPrefix :: "string \<Rightarrow> string \<Rightarrow> kv_filter" where
  "FilterExactPrefix pre base kv =
     (let s = TrimPrefix (KvKey kv) base in
      if KvValue kv = [] then False
      else let dir = fst (path_Split s) in dir = pre \<or> dir = pre @ ''/'')"

text \<open>The body of the loop of \<open>List\<close>: \<open>None\<close> is \<open>continue\<close>.\<close>

definition list_entry :: "nat \<Rightarrow> kv_filter list \<Rightarrow> KeyValue \<Rightarrow> string option" where
  "list_entry prefixLen filters kv =
     (if length (KvKey kv) \<le> prefixLen then None
      else
        let relativeKey = drop prefixLen (KvKey kv) in
        if Contains relativeKey ''/md/'' then None
        else if \<not> list_all (\<lambda>f. f kv) filters then None
        else Some (if HasPrefix relativeKey ''/'' then relativeKey else ''/'' @ relativeKey))"

fun list_loop :: "nat \<Rightarrow> kv_filter list \<Rightarrow> string list \<Rightarrow> KeyValue list \<Rightarrow> string list" where
  "list_loop n filters out [] = out"
| "list_loop n filters out (kv # kvs) =
     (case list_entry n filters kv of
        None \<Rightarrow> list_loop n filters out kvs
      | Some k \<Rightarrow> list_loop n filters (out @ [k]) kvs)"

definition srv_List ::
  "'s client \<Rightarrow> etcdsrv \<Rightarrow> string \<Rightarrow> kv_filter list \<Rightarrow> 's \<Rightarrow> (go_error + string list) \<times> 's" where
  "srv_List cli e key filters s =
     (let key' = (if HasPrefix key ''/'' then key else ''/'' @ key);
          searchKey = path_Join [KeyPrefix (cfg e), key'] in
      case context_WithTimeout cli (srv_timeout e) s of (ctx, s1) \<Rightarrow>
      case cli_Get cli ctx searchKey True s1 of
        (Inl err, s2) \<Rightarrow> (Inl (Wrap err ''List: failed to get keys''), s2)
      | (Inr kvs, s2) \<Rightarrow> (Inr (list_loop (length (KeyPrefix (cfg e))) filters [] kvs), s2))"

end
