(* ===== verification/Etcd_Reference.thy ===== *)
theory Etcd_Reference
  imports Etcd_Client "HOL-Library.AList"
begin

text \<open>
  An executable etcd for the development's concrete runs: a store whose requests can be made
  to fail by a script, either before they reach the server or after it has applied them, with
  leases that expire, a clock that advances with every request and a retrying loop with a
  bound.  It satisfies the contracts of \<open>Etcd_Client\<close>, so the hypotheses of the theorems
  about arbitrary clients can hold; no definition of the program's model depends on it.
\<close>

section \<open>The world\<close>

datatype fault = Refused | Lost_Reply | No_Fault

record world =
  w_store :: "(string \<times> string \<times> int) list"
  w_leases :: "(int \<times> time) list"
  w_next :: nat
  w_now :: time
  w_tick :: nat
  w_faults :: "fault list"

definition w_kv :: "world \<Rightarrow> keyspace" where
  "w_kv w = map_of (w_store w)"

text \<open>The clock stops at the end of the year 9999.\<close>

definition last_instant :: time where
  "last_instant = 3652059 * day_ns - 1"

definition w_advance :: "int \<Rightarrow> world \<Rightarrow> world" where
  "w_advance d w = w\<lparr>w_now := max (w_now w) (min last_instant (w_now w + d))\<rparr>"

definition w_step :: "world \<Rightarrow> fault \<times> world" where
  "w_step w =
     (let w1 = w_advance (int (w_tick w)) w in
      case w_faults w of
        [] \<Rightarrow> (No_Fault, w1)
      | f # fs \<Rightarrow> (f, w1\<lparr>w_faults := fs\<rparr>))"

section \<open>Requests\<close>

definition request :: "ctx \<Rightarrow> (world \<Rightarrow> (go_error + 'a) \<times> world) \<Rightarrow> world \<Rightarrow> (go_error + 'a) \<times> world" where
  "request ctx f w =
     (case w_step w of
        (fault, w1) \<Rightarrow>
          if \<not> in_time ctx (w_now w1) then (Inl (External ''context deadline exceeded''), w1)
          else
            (case fault of
               Refused \<Rightarrow> (Inl (External ''connection refused''), w1)
             | Lost_Reply \<Rightarrow> (Inl (External ''context deadline exceeded''), snd (f w1))
             | No_Fault \<Rightarrow> f w1))"

definition entry :: "world \<Rightarrow> string \<Rightarrow> KeyValue" where
  "entry w k = \<lparr> KvKey = k, KvValue = (case w_kv w k of Some (v, l) \<Rightarrow> v | None \<Rightarrow> []) \<rparr>"

definition ref_Get :: "ctx \<Rightarrow> string \<Rightarrow> bool \<Rightarrow> world \<Rightarrow> (go_error + KeyValue list) \<times> world" where
  "ref_Get ctx k withPrefix = request ctx (\<lambda>w.
     (Inr (if withPrefix then map (entry w) (filter (prefix k) (map fst (AList.clearjunk (w_store w))))
           else point_read (w_kv w) k), w))"

fun store_op :: "etcd_op \<Rightarrow> (string \<times> string \<times> int) list \<Rightarrow> (string \<times> string \<times> int) list" where
  "store_op (OpPut k v) s = (k, v, 0) # filter (\<lambda>x. fst x \<noteq> k) s"
| "store_op (OpDelete k) s = filter (\<lambda>x. fst x \<noteq> k) s"

definition ref_Put :: "ctx \<Rightarrow> string \<Rightarrow> string \<Rightarrow> world \<Rightarrow> (go_error + unit) \<times> world" where
  "ref_Put ctx k v = request ctx (\<lambda>w. (Inr (), w\<lparr>w_store := store_op (OpPut k v) (w_store w)\<rparr>))"

definition ref_Delete :: "ctx \<Rightarrow> string \<Rightarrow> world \<Rightarrow> (go_error + unit) \<times> world" where
  "ref_Delete ctx k = request ctx (\<lambda>w. (Inr (), w\<lparr>w_store := store_op (OpDelete k) (w_store w)\<rparr>))"

definition ref_Txn :: "ctx \<Rightarrow> etcd_op list \<Rightarrow> world \<Rightarrow> (go_error + bool) \<times> world" where
  "ref_Txn ctx ops = request ctx (\<lambda>w.
     if distinct (map op_key ops)
     then (Inr True, w\<lparr>w_store := fold store_op ops (w_store w)\<rparr>)
     else (Inl (External ''etcdserver: duplicate key given in txn request''), w))"

definition ref_Grant :: "ctx \<Rightarrow> int \<Rightarrow> world \<Rightarrow> (go_error + int) \<times> world" where
  "ref_Grant ctx ttl = request ctx (\<lambda>w.
     let i = 1 + int (w_next w) mod (2 ^ 62) in
     if ttl > 9000000000 then (Inl (External ''etcdserver: too large lease TTL''), w)
     else (Inr i, w\<lparr>w_next := Suc (w_next w),
                    w_leases := (i, w_now w + max 1 ttl * 1000000000) # w_leases w\<rparr>))"

definition ref_Revoke :: "ctx \<Rightarrow> int \<Rightarrow> world \<Rightarrow> (go_error + unit) \<times> world" where
  "ref_Revoke ctx i = request ctx (\<lambda>w.
     if i \<noteq> 0 \<and> list_ex (\<lambda>l. fst l = i \<and> w_now w < snd l) (w_leases w)
     then (Inr (), w\<lparr>w_leases := filter (\<lambda>l. fst l \<noteq> i) (w_leases w),
                     w_store := filter (\<lambda>x. snd (snd x) \<noteq> i) (AList.clearjunk (w_store w))\<rparr>)
     else (Inl (External ''etcdserver: requested lease not found''), w))"

definition ref_Wait :: "ctx \<Rightarrow> Limiter \<Rightarrow> world operation" where
  "ref_Wait ctx lm w =
     (case w_step w of
        (fault, w1) \<Rightarrow>
          if in_time ctx (w_now w1) \<and> fault = No_Fault then (None, w1)
          else (Some (External ''rate: Wait would exceed context deadline''), w1))"

definition ref_Now :: "world \<Rightarrow> time \<times> world" where
  "ref_Now w = (w_now w, w_advance (int (w_tick w)) w)"

definition ref_pause :: "world \<Rightarrow> world" where
  "ref_pause = w_advance 1000000000"

text \<open>Retrying pauses for a second, as long as the policy and the end of the clock allow.\<close>

definition may_retry :: "ExponentialBackOff \<Rightarrow> time \<Rightarrow> world \<Rightarrow> bool" where
  "may_retry b start w \<longleftrightarrow>
     (MaxElapsedTime b \<noteq> 0 \<longrightarrow> w_now w + 1000000000 \<le> start + MaxElapsedTime b) \<and>
     w_now w + 1000000000 \<le> last_instant \<and>
     min (InitialInterval b) (MaxInterval b) \<le> 2 * 1000000000"

fun retry_upto :: "nat \<Rightarrow> ExponentialBackOff \<Rightarrow> time \<Rightarrow> world operation \<Rightarrow> world operation" where
  "retry_upto 0 b start op w = op w"
| "retry_upto (Suc n) b start op w =
     (case op w of
        (None, w1) \<Rightarrow> (None, w1)
      | (Some e, w1) \<Rightarrow>
          if may_retry b start w1 then retry_upto n b start op (ref_pause w1) else (Some e, w1))"

text \<open>The client, with a bound on the number of its retries.\<close>

definition ref_client :: "nat \<Rightarrow> world client" where
  "ref_client n =
     \<lparr> cli_Get = ref_Get, cli_Put = ref_Put, cli_Delete = ref_Delete, cli_Txn = ref_Txn,
       cli_Grant = ref_Grant, cli_Revoke = ref_Revoke, limiter_Wait = ref_Wait,
       clock_Now = ref_Now, backoff_Retry = (\<lambda>b op w. retry_upto n b (w_now w) op w) \<rparr>"

section \<open>The contracts hold\<close>

lemma w_kv_simps [simp]:
  "w_kv (w\<lparr>w_now := t\<rparr>) = w_kv w" "w_kv (w\<lparr>w_faults := fs\<rparr>) = w_kv w"
  "w_kv (w\<lparr>w_next := n\<rparr>) = w_kv w" "w_kv (w\<lparr>w_leases := ls\<rparr>) = w_kv w"
  "w_kv (w_advance d w) = w_kv w" "w_kv (ref_pause w) = w_kv w"
  "w_kv (w\<lparr>w_store := s\<rparr>) = map_of s"
  by (simp_all add: w_kv_def w_advance_def ref_pause_def)

lemma map_of_filter_key: "map_of (filter (\<lambda>x. fst x \<noteq> k) s) = (map_of s)(k := None)"
  by (induction s) auto

lemma map_of_store_op: "map_of (store_op op s) = apply_op op (map_of s)"
  by (cases op) (simp_all add: map_of_filter_key)

lemma map_of_store_ops: "map_of (fold store_op ops s) = apply_ops ops (map_of s)"
  unfolding apply_ops_def
  by (induction ops arbitrary: s) (simp_all add: map_of_store_op)

lemma map_of_filter_distinct:
  assumes "distinct (map fst s)" "i \<noteq> 0"
  shows "map_of (filter (\<lambda>x. snd (snd x) \<noteq> i) s) = drop_lease i (map_of s)"
proof -
  have "drop_lease i m = (\<lambda>k. case m k of Some (v, l) \<Rightarrow> if l = i then None else Some (v, l)
      | None \<Rightarrow> None)" for m
    using assms(2) by (auto simp: drop_lease_def fun_eq_iff split: option.splits)
  then show ?thesis using assms(1)
    by (induction s)
       (auto simp: fun_eq_iff map_of_eq_None_iff split: option.splits intro: rev_image_eqI)
qed

lemma w_step_kv: "w_step w = (f, w1) \<Longrightarrow> w_kv w1 = w_kv w"
  by (auto simp: w_step_def Let_def split: list.splits)

lemma w_advance_mono: "0 \<le> d \<Longrightarrow> w_now w \<le> w_now (w_advance d w)"
  by (simp add: w_advance_def)

lemma w_step_now: "w_step w = (f, w1) \<Longrightarrow> w_now w \<le> w_now w1"
  using w_advance_mono [of "int (w_tick w)" w]
  by (auto simp: w_step_def Let_def split: list.splits)

text \<open>What a request does is what its body does at the server, or nothing.\<close>

lemma request_cases:
  assumes "request ctx f w = (r, t)"
  obtains (unmade) err where "w_step w = (Refused, t) \<or> w_step w = (Lost_Reply, t) \<or> w_step w = (No_Fault, t)"
      "r = Inl err"
    | (lost) w1 err where "w_step w = (Lost_Reply, w1)" "in_time ctx (w_now w1)" "r = Inl err"
      "t = snd (f w1)"
    | (answered) w1 where "w_step w = (No_Fault, w1)" "in_time ctx (w_now w1)" "f w1 = (r, t)"
  using assms by (auto simp: request_def split: prod.splits fault.splits if_splits)

lemma request_done:
  assumes "request ctx f w = (Inr x, t)"
  shows "\<exists>w1. w_kv w1 = w_kv w \<and> f w1 = (Inr x, t)"
  using assms by (cases rule: request_cases) (auto dest: w_step_kv)

lemma request_fail:
  assumes "request ctx f w = (Inl e, t)" and "\<And>w1 e' t'. f w1 = (Inl e', t') \<Longrightarrow> w_kv t' = w_kv w1"
  shows "w_kv t = w_kv w \<or> (\<exists>w1 x. w_kv w1 = w_kv w \<and> f w1 = (Inr x, t))"
  using assms(1)
proof (cases rule: request_cases)
  case (lost w1)
  then show ?thesis
    using assms(2) w_step_kv by (metis prod.collapse sum.exhaust)
next
  case (answered w1)
  then show ?thesis using assms(2) w_step_kv by metis
qed (auto dest: w_step_kv)

lemma request_frame:
  assumes "request ctx f w = (r, t)" and "\<And>w. w_kv (snd (f w)) = w_kv w"
  shows "w_kv t = w_kv w"
  using assms(1)
proof (cases rule: request_cases)
  case (answered w1)
  then show ?thesis using assms(2) [of w1] by (auto dest: w_step_kv)
qed (auto dest: w_step_kv simp: assms(2))

lemma request_now:
  assumes "request ctx f w = (r, t)" and "\<And>w. w_now w \<le> w_now (snd (f w))"
  shows "w_now w \<le> w_now t"
  using assms(1)
proof (cases rule: request_cases)
  case (lost w1)
  then show ?thesis using assms(2) [of w1] by (metis order_trans w_step_now)
next
  case (answered w1)
  then show ?thesis using assms(2) [of w1] by (metis order_trans w_step_now snd_conv)
qed (auto dest: w_step_now)

lemma request_late:
  assumes "request ctx f w = (r, t)" and "\<not> in_time ctx (w_now w)"
  shows "(\<exists>err. r = Inl err) \<and> w_kv t = w_kv w"
  using assms(1)
proof (cases rule: request_cases)
  case (lost w1)
  then show ?thesis using assms(2) w_step_now in_time_earlier by metis
next
  case (answered w1)
  then show ?thesis using assms(2) w_step_now in_time_earlier by metis
qed (auto dest: w_step_kv)

lemma retry_upto_retried: "retried ref_pause op w (retry_upto n b start op w)"
proof (induction n arbitrary: w)
  case 0
  show ?case
  proof (cases "op w")
    case (Pair r w1)
    then show ?thesis by (cases r) (auto intro: retried.intros)
  qed
next
  case (Suc n)
  show ?case
  proof (cases "op w")
    case (Pair r w1)
    then show ?thesis using Suc by (cases r) (auto intro: retried.intros)
  qed
qed

text \<open>The pauses are those of the policy.\<close>

lemma ref_pause_now: "w_now w + 1000000000 \<le> last_instant \<Longrightarrow> w_now (ref_pause w) = w_now w + 1000000000"
  by (simp add: ref_pause_def w_advance_def)

lemma retry_upto_attempts: "\<exists>k. attempts b ref_pause w_now op start k w (retry_upto n b start op w)"
proof (induction n arbitrary: w)
  case 0
  show ?case by (auto intro: attempts.last_run)
next
  case (Suc n)
  show ?case
  proof (cases "\<exists>e w1. op w = (Some e, w1) \<and> may_retry b start w1")
    case True
    then obtain e w1 where w1: "op w = (Some e, w1)" "may_retry b start w1" by blast
    obtain k where k: "attempts b ref_pause w_now op start k (ref_pause w1)
        (retry_upto n b start op (ref_pause w1))"
      using Suc by blast
    have "attempts b ref_pause w_now op start (Suc k) w (retry_upto n b start op (ref_pause w1))"
      by (rule attempts.next_run [OF w1(1) _ _ _ k, of 1000000000])
         (use w1(2) in \<open>auto simp: may_retry_def ref_pause_now\<close>)
    then show ?thesis using w1 by auto
  next
    case False
    then have "retry_upto (Suc n) b start op w = op w"
      by (auto split: prod.splits option.splits)
    then show ?thesis by (metis attempts.last_run)
  qed
qed

section \<open>Interpretations\<close>

lemmas ref_defs = ref_client_def ref_Get_def ref_Put_def ref_Delete_def ref_Txn_def
  ref_Grant_def ref_Revoke_def ref_Wait_def ref_Now_def

lemma entry_key [simp]: "KvKey (entry w k) = k"
  by (simp add: entry_def)

lemma ref_range:
  "range_read (w_kv w) p (map (entry w) (filter (prefix p) (map fst (AList.clearjunk (w_store w)))))"
proof -
  have "map KvKey (map (entry w) ks) = ks" for ks
    by (induction ks) simp_all
  then have "distinct (map KvKey
      (map (entry w) (filter (prefix p) (map fst (AList.clearjunk (w_store w))))))"
    by (simp add: distinct_clearjunk)
  moreover have "k \<in> fst ` set (w_store w) \<longleftrightarrow> (\<exists>x. w_kv w k = Some x)" for k
    by (metis map_of_eq_None_iff not_Some_eq w_kv_def)
  then have "\<lparr> KvKey = k, KvValue = v \<rparr> \<in>
      set (map (entry w) (filter (prefix p) (map fst (AList.clearjunk (w_store w))))) \<longleftrightarrow>
      prefix p k \<and> kv_value (w_kv w) k = Some v" for k v
    by (auto simp: entry_def kv_value_def dom_clearjunk split: option.splits)
  ultimately show ?thesis by (simp add: range_read_def)
qed

interpretation ref: etcd_kv "ref_client n" w_kv ref_pause
proof
  fix ctx k p s r t assume "cli_Get (ref_client n) ctx k p s = (r, t)"
  then show "w_kv t = w_kv s"
    by (auto simp: ref_defs intro: request_frame)
next
  fix ctx k s xs t assume "cli_Get (ref_client n) ctx k False s = (Inr xs, t)"
  then show "xs = point_read (w_kv s) k"
    by (auto simp: ref_defs dest!: request_done)
next
  fix ctx k s xs t assume "cli_Get (ref_client n) ctx k True s = (Inr xs, t)"
  then show "range_read (w_kv s) k xs"
    using ref_range by (auto simp: ref_defs dest!: request_done) metis
next
  fix ctx k v s u t assume "cli_Put (ref_client n) ctx k v s = (Inr u, t)"
  then show "w_kv t = (w_kv s)(k \<mapsto> (v, 0))"
    by (auto simp: ref_defs map_of_filter_key w_kv_def dest!: request_done)
next
  fix ctx k v s e t assume "cli_Put (ref_client n) ctx k v s = (Inl e, t)"
  then show "w_kv t = w_kv s \<or> w_kv t = (w_kv s)(k \<mapsto> (v, 0))"
    by (auto simp: ref_defs map_of_filter_key w_kv_def dest!: request_fail)
next
  fix ctx k s u t assume "cli_Delete (ref_client n) ctx k s = (Inr u, t)"
  then show "w_kv t = (w_kv s)(k := None)"
    by (auto simp: ref_defs map_of_filter_key w_kv_def dest!: request_done)
next
  fix ctx k s e t assume "cli_Delete (ref_client n) ctx k s = (Inl e, t)"
  then show "w_kv t = w_kv s \<or> w_kv t = (w_kv s)(k := None)"
    by (auto simp: ref_defs map_of_filter_key w_kv_def dest!: request_fail)
next
  fix ctx ops s b t assume "cli_Txn (ref_client n) ctx ops s = (Inr b, t)"
  then show "b \<and> w_kv t = apply_ops ops (w_kv s)"
    by (auto simp: ref_defs map_of_store_ops w_kv_def split: if_splits dest!: request_done)
next
  fix ctx ops s e t assume "cli_Txn (ref_client n) ctx ops s = (Inl e, t)"
  then show "w_kv t = w_kv s \<or> w_kv t = apply_ops ops (w_kv s)"
    by (auto simp: ref_defs map_of_store_ops w_kv_def split: if_splits dest!: request_fail)
next
  fix ctx ttl s g t assume "cli_Grant (ref_client n) ctx ttl s = (g, t)"
  then show "w_kv t = w_kv s"
    by (auto simp: ref_defs Let_def intro: request_frame)
next
  fix ctx ttl s i t assume "cli_Grant (ref_client n) ctx ttl s = (Inr i, t)"
  then obtain m where "i = 1 + int m mod (2 ^ 62)"
    by (auto simp: ref_defs Let_def split: if_splits dest!: request_done)
  then have "1 \<le> i \<and> i \<le> 2 ^ 62"
    using pos_mod_bound [of "2 ^ 62" "int m"] by simp
  then show "i \<noteq> 0 \<and> - (2 ^ 63) \<le> i \<and> i < 2 ^ 63" by simp
next
  fix ctx i s u t assume "cli_Revoke (ref_client n) ctx i s = (Inr u, t)"
  then show "w_kv t = drop_lease i (w_kv s)"
    by (auto simp: ref_defs map_of_filter_distinct distinct_clearjunk map_of_clearjunk w_kv_def
        split: if_splits dest!: request_done)
next
  fix ctx i s e t assume "cli_Revoke (ref_client n) ctx i s = (Inl e, t)"
  then show "w_kv t = w_kv s \<or> w_kv t = drop_lease i (w_kv s)"
    by (auto simp: ref_defs map_of_filter_distinct distinct_clearjunk map_of_clearjunk w_kv_def
        split: if_splits dest!: request_fail)
next
  fix ctx lm s w t assume "limiter_Wait (ref_client n) ctx lm s = (w, t)"
  then show "w_kv t = w_kv s"
    by (auto simp: ref_defs split: prod.splits if_splits dest: w_step_kv)
next
  fix s m t assume "clock_Now (ref_client n) s = (m, t)"
  then show "w_kv t = w_kv s" by (auto simp: ref_defs)
next
  fix s show "w_kv (ref_pause s) = w_kv s" by simp
next
  fix op s b show "retried ref_pause op s (backoff_Retry (ref_client n) b op s)"
    by (simp add: ref_defs retry_upto_retried)
qed

interpretation ref_timed: etcd_timed "ref_client n" w_kv ref_pause w_now
proof
  fix ctx k p s r t assume "cli_Get (ref_client n) ctx k p s = (r, t)"
  then show "w_now s \<le> w_now t" by (auto simp: ref_defs intro: request_now)
next
  fix ctx k v s r t assume "cli_Put (ref_client n) ctx k v s = (r, t)"
  then show "w_now s \<le> w_now t" by (auto simp: ref_defs intro: request_now)
next
  fix ctx k s r t assume "cli_Delete (ref_client n) ctx k s = (r, t)"
  then show "w_now s \<le> w_now t" by (auto simp: ref_defs intro: request_now)
next
  fix ctx ops s r t assume "cli_Txn (ref_client n) ctx ops s = (r, t)"
  then show "w_now s \<le> w_now t" by (auto simp: ref_defs intro: request_now)
next
  fix ctx i s r t assume "cli_Revoke (ref_client n) ctx i s = (r, t)"
  then show "w_now s \<le> w_now t" by (auto simp: ref_defs intro: request_now)
next
  fix ctx ttl s r t assume "cli_Grant (ref_client n) ctx ttl s = (r, t)"
  then show "w_now s \<le> w_now t" by (auto simp: ref_defs Let_def intro: request_now)
next
  fix ctx lm s w t assume "limiter_Wait (ref_client n) ctx lm s = (w, t)"
  then show "w_now s \<le> w_now t"
    by (auto simp: ref_defs split: prod.splits if_splits dest: w_step_now)
next
  fix s m t assume "clock_Now (ref_client n) s = (m, t)"
  then show "w_now s \<le> m \<and> m \<le> w_now t"
    using w_advance_mono [of "int (w_tick s)" s] by (auto simp: ref_defs)
next
  fix s show "w_now s \<le> w_now (ref_pause s)"
    by (simp add: ref_pause_def w_advance_mono)
qed

text \<open>A late request is not made.\<close>

interpretation ref_deadline: etcd_deadline "ref_client n" w_kv ref_pause w_now
proof
  fix ctx k p s r t assume "\<not> in_time ctx (w_now s)" "cli_Get (ref_client n) ctx k p s = (r, t)"
  then show "\<exists>err. r = Inl err" by (auto simp: ref_defs dest: request_late)
next
  fix ctx k v s r t assume "\<not> in_time ctx (w_now s)" "cli_Put (ref_client n) ctx k v s = (r, t)"
  then show "(\<exists>err. r = Inl err) \<and> w_kv t = w_kv s" by (auto simp: ref_defs dest: request_late)
next
  fix ctx k s r t assume "\<not> in_time ctx (w_now s)" "cli_Delete (ref_client n) ctx k s = (r, t)"
  then show "(\<exists>err. r = Inl err) \<and> w_kv t = w_kv s" by (auto simp: ref_defs dest: request_late)
next
  fix ctx ops s r t assume "\<not> in_time ctx (w_now s)" "cli_Txn (ref_client n) ctx ops s = (r, t)"
  then show "(\<exists>err. r = Inl err) \<and> w_kv t = w_kv s" by (auto simp: ref_defs dest: request_late)
next
  fix ctx ttl s r t assume "\<not> in_time ctx (w_now s)" "cli_Grant (ref_client n) ctx ttl s = (r, t)"
  then show "\<exists>err. r = Inl err" by (auto simp: ref_defs dest: request_late)
next
  fix ctx i s r t assume "\<not> in_time ctx (w_now s)" "cli_Revoke (ref_client n) ctx i s = (r, t)"
  then show "(\<exists>err. r = Inl err) \<and> w_kv t = w_kv s" by (auto simp: ref_defs dest: request_late)
next
  fix ctx lm s w t assume "\<not> in_time ctx (w_now s)" "limiter_Wait (ref_client n) ctx lm s = (w, t)"
  then show "w \<noteq> None"
    by (auto simp: ref_defs split: prod.splits if_splits dest: w_step_now in_time_earlier)
qed

text \<open>Without faults in the script and with the clock in range, every request that has a
  microsecond succeeds.\<close>

definition w_healthy :: "world \<Rightarrow> bool" where
  "w_healthy w \<longleftrightarrow> w_faults w = [] \<and> 0 \<le> w_now w \<and> w_now w \<le> last_instant \<and> w_tick w \<le> 1000"

lemma w_healthy_step:
  "w_healthy w \<Longrightarrow> \<exists>w1. w_step w = (No_Fault, w1) \<and> w_healthy w1 \<and> w_now w1 \<le> w_now w + 1000"
  by (auto simp: w_healthy_def w_step_def Let_def w_advance_def)

lemma w_healthy_upd [simp]:
  "w_healthy (w\<lparr>w_store := s\<rparr>) = w_healthy w"
  "w_healthy (w\<lparr>w_next := i, w_leases := ls\<rparr>) = w_healthy w"
  by (simp_all add: w_healthy_def)

lemma request_live:
  assumes "w_healthy w" "in_time ctx (w_now w + 1000)"
  obtains w1 where "w_healthy w1" "w_now w1 \<le> w_now w + 1000" "\<And>f. request ctx f w = f w1"
proof -
  obtain w1 where w1: "w_step w = (No_Fault, w1)" "w_healthy w1" "w_now w1 \<le> w_now w + 1000"
    using w_healthy_step [OF assms(1)] by blast
  with assms(2) have "in_time ctx (w_now w1)" by (blast intro: in_time_earlier)
  with w1 show ?thesis by (intro that) (simp_all add: request_def)
qed

interpretation ref_paced: etcd_paced "ref_client n" w_kv ref_pause w_now
  by unfold_locales (simp only: ref_client_def client.simps, rule retry_upto_attempts)

interpretation ref_live: etcd_live "ref_client n" w_kv ref_pause w_now w_healthy 1000
proof
  fix s ctx k p assume "w_healthy s" "in_time ctx (w_now s + 1000)"
  then show "\<exists>xs t. cli_Get (ref_client n) ctx k p s = (Inr xs, t) \<and> w_healthy t \<and> w_now t \<le> w_now s + 1000"
    by (rule request_live [where 'a = "KeyValue list"]) (auto simp: ref_defs)
next
  fix s ctx k v assume "w_healthy s" "in_time ctx (w_now s + 1000)"
  then show "\<exists>t. cli_Put (ref_client n) ctx k v s = (Inr (), t) \<and> w_healthy t \<and> w_now t \<le> w_now s + 1000"
    by (rule request_live [where 'a = "unit"]) (auto simp: ref_defs)
next
  fix s ctx and ops :: "etcd_op list"
  assume "w_healthy s" "in_time ctx (w_now s + 1000)" "distinct (map op_key ops)"
  then show "\<exists>b t. cli_Txn (ref_client n) ctx ops s = (Inr b, t) \<and> w_healthy t \<and> w_now t \<le> w_now s + 1000"
    by - (erule (1) request_live [where 'a = "bool"], auto simp: ref_defs)
next
  fix s ctx and ttl :: int assume "w_healthy s" "in_time ctx (w_now s + 1000)" "ttl \<le> 9000000000"
  then show "\<exists>i t. cli_Grant (ref_client n) ctx ttl s = (Inr i, t) \<and> w_healthy t \<and> w_now t \<le> w_now s + 1000"
    by - (erule (1) request_live [where 'a = "int"], auto simp: ref_defs Let_def)
next
  fix s ctx lm assume "w_healthy s" "in_time ctx (w_now s + 1000)"
  then show "\<exists>t. limiter_Wait (ref_client n) ctx lm s = (None, t) \<and> w_healthy t \<and> w_now t \<le> w_now s + 1000"
    using w_healthy_step [of s] by (auto simp: ref_defs dest: in_time_earlier)
next
  fix s assume "w_healthy s"
  then show "\<exists>m t. clock_Now (ref_client n) s = (m, t) \<and> w_healthy t \<and> w_now t \<le> w_now s + 1000"
    by (auto simp: ref_defs w_healthy_def w_advance_def)
next
  fix s m t assume "w_healthy s" "clock_Now (ref_client n) s = (m, t)"
  then show "valid_time m"
    by (auto simp: ref_defs w_healthy_def last_instant_def intro: valid_timeI)
qed

text \<open>An empty store at the start of the year 1970.\<close>

definition w_init :: world where
  "w_init =
     \<lparr> w_store = [], w_leases = [], w_next = 0, w_now = 719162 * day_ns, w_tick = 1000,
       w_faults = [] \<rparr>"

lemma w_init_kv [simp]: "w_kv w_init = Map.empty"
  by (simp add: w_init_def w_kv_def)

lemma w_init_healthy [simp]: "w_healthy w_init"
  by (simp add: w_init_def w_healthy_def last_instant_def day_ns_def Second_def)

end
