(* ===== verification/Storage_Spec.thy ===== *)
theory Storage_Spec
  imports Service Etcd_Reference
begin

text \<open>
  What the storage half of the service promises: a map from paths to contents.  A path is the
  list of plain components of a key; \<open>val_key\<close> and \<open>md_key\<close> are the two etcd keys of a
  stored file; \<open>files\<close> is the abstraction of a key space, and \<open>consistent\<close> the invariant that
  every stored file has both its keys, with metadata that matches the content.
\<close>

section \<open>The keys of a file\<close>

abbreviation val_key :: "etcdsrv \<Rightarrow> string \<Rightarrow> string" where
  "val_key e k \<equiv> path_Join [KeyPrefix (cfg e), k]"

abbreviation md_key :: "etcdsrv \<Rightarrow> string \<Rightarrow> string" where
  "md_key e k \<equiv> path_Join [mdPrefix e, k]"

abbreviation lock_key :: "etcdsrv \<Rightarrow> string \<Rightarrow> string" where
  "lock_key e k \<equiv> path_Join [lockKey e, k]"

definition root :: "etcdsrv \<Rightarrow> string list" where
  "root e = comps (KeyPrefix (cfg e))"

text \<open>A key prefix in normal form; the option \<open>WithPrefix\<close> only produces such.\<close>

definition normal_prefix :: "string \<Rightarrow> bool" where
  "normal_prefix p \<longleftrightarrow> no_dotdot p \<and> p = render (comps p)"

text \<open>A service as \<open>NewService\<close> builds it, with or without backoff.\<close>

definition wf_srv :: "etcdsrv \<Rightarrow> bool" where
  "wf_srv e \<longleftrightarrow>
     normal_prefix (KeyPrefix (cfg e)) \<and>
     mdPrefix e = mdPrefix (new_etcdsrv (cfg e)) \<and>
     lockKey e = lockKey (new_etcdsrv (cfg e))"

lemma wf_srv_new [intro]: "normal_prefix (KeyPrefix c) \<Longrightarrow> wf_srv (new_etcdsrv c)"
  by (simp add: wf_srv_def new_etcdsrv_def)

text \<open>Keys that neither climb nor enter the areas of the metadata and of the locks.\<close>

definition good_path :: "string list \<Rightarrow> bool" where
  "good_path cs \<longleftrightarrow> list_all plain_comp cs \<and> (cs \<noteq> [] \<longrightarrow> hd cs \<noteq> ''md'' \<and> hd cs \<noteq> ''lock'')"

definition good_key :: "string \<Rightarrow> bool" where
  "good_key k \<longleftrightarrow> no_dotdot k \<and> good_path (comps k)"

definition val_at :: "etcdsrv \<Rightarrow> string list \<Rightarrow> string" where
  "val_at e cs = render (root e @ cs)"

definition md_at :: "etcdsrv \<Rightarrow> string list \<Rightarrow> string" where
  "md_at e cs = render (root e @ ''md'' # cs)"

definition lock_at :: "etcdsrv \<Rightarrow> string list \<Rightarrow> string" where
  "lock_at e cs = render (root e @ ''lock'' # cs)"

lemma plain_md [simp]: "plain_comp ''md''" and plain_lock [simp]: "plain_comp ''lock''"
  by (simp_all add: plain_comp_def)

lemma comps_md [simp]: "comps ''md'' = [''md'']" "comps ''lock'' = [''lock'']"
  and no_dotdot_md [simp]: "no_dotdot ''md''" "no_dotdot ''lock''"
  by (simp_all add: comps_def no_dotdot_def)

lemma root_plain [simp]: "wf_srv e \<Longrightarrow> list_all plain_comp (root e)"
  by (simp add: wf_srv_def normal_prefix_def root_def plain_comps)

lemma prefix_render: "wf_srv e \<Longrightarrow> KeyPrefix (cfg e) = render (root e)"
  by (simp add: wf_srv_def normal_prefix_def root_def)

lemma md_prefix_render:
  assumes "wf_srv e" shows "mdPrefix e = render (root e @ [''md''])"
proof -
  have "mdPrefix e = path_Join [KeyPrefix (cfg e) @ ''/md'']"
    using assms by (simp add: wf_srv_def new_etcdsrv_def)
  also have "\<dots> = path_Join [render (root e) @ slash # ''md'']"
    by (subst prefix_render [OF assms]) simp
  also have "\<dots> = render (root e @ [''md''])"
    using assms by (subst path_Clean_render_append) simp_all
  finally show ?thesis .
qed

lemma lock_prefix_render:
  assumes "wf_srv e" shows "lockKey e = render (root e @ [''lock''])"
proof -
  have "lockKey e = path_Join [KeyPrefix (cfg e), ''/lock'']"
    using assms by (simp add: wf_srv_def new_etcdsrv_def)
  also have "\<dots> = path_Join [render (root e), ''/lock'']"
    by (subst prefix_render [OF assms]) simp
  also have "\<dots> = render (root e @ [''lock''])"
    using assms by (subst path_Join_render) simp_all
  finally show ?thesis .
qed

lemma val_key_render [go_path]:
  "wf_srv e \<Longrightarrow> no_dotdot k \<Longrightarrow> val_key e k = val_at e (comps k)"
  by (simp add: val_at_def prefix_render path_Join_render)

lemma md_key_render [go_path]:
  "wf_srv e \<Longrightarrow> no_dotdot k \<Longrightarrow> md_key e k = md_at e (comps k)"
  using path_Join_render [of "root e @ [''md'']" k]
  by (simp add: md_at_def md_prefix_render)

lemma lock_key_render [go_path]:
  "wf_srv e \<Longrightarrow> no_dotdot k \<Longrightarrow> lock_key e k = lock_at e (comps k)"
  using path_Join_render [of "root e @ [''lock'']" k]
  by (simp add: lock_at_def lock_prefix_render)

lemma good_keyD [simp]: "good_key k \<Longrightarrow> no_dotdot k" "good_key k \<Longrightarrow> good_path (comps k)"
  by (simp_all add: good_key_def)

lemma good_pathD: "good_path cs \<Longrightarrow> list_all plain_comp cs"
  by (simp add: good_path_def)

text \<open>The keys of different files are different, and no value key is a metadata key.\<close>

lemma val_at_inject:
  "wf_srv e \<Longrightarrow> good_path a \<Longrightarrow> good_path b \<Longrightarrow> val_at e a = val_at e b \<longleftrightarrow> a = b"
  by (simp add: val_at_def render_inject good_path_def)

lemma md_at_inject:
  "wf_srv e \<Longrightarrow> good_path a \<Longrightarrow> good_path b \<Longrightarrow> md_at e a = md_at e b \<longleftrightarrow> a = b"
  by (simp add: md_at_def render_inject good_path_def)

lemma val_md_disjoint:
  "wf_srv e \<Longrightarrow> good_path a \<Longrightarrow> good_path b \<Longrightarrow> val_at e a \<noteq> md_at e b"
  by (auto simp: val_at_def md_at_def render_inject good_path_def)

lemma md_val_disjoint:
  "wf_srv e \<Longrightarrow> good_path a \<Longrightarrow> good_path b \<Longrightarrow> md_at e b \<noteq> val_at e a"
  using val_md_disjoint by metis

lemma lock_md_disjoint:
  "wf_srv e \<Longrightarrow> list_all plain_comp a \<Longrightarrow> list_all plain_comp b \<Longrightarrow> lock_at e a \<noteq> md_at e b"
  by (auto simp: lock_at_def md_at_def render_inject)

lemma lock_val_disjoint:
  "wf_srv e \<Longrightarrow> list_all plain_comp a \<Longrightarrow> good_path b \<Longrightarrow> lock_at e a \<noteq> val_at e b"
  by (auto simp: lock_at_def val_at_def render_inject good_path_def)

text \<open>Of arbitrary keys: the areas meet only where a path starts with the name of an area.\<close>

lemma key_collisions:
  assumes "wf_srv e" "no_dotdot a" "no_dotdot b"
  shows "val_key e a = val_key e b \<longleftrightarrow> comps a = comps b"
    "md_key e a = md_key e b \<longleftrightarrow> comps a = comps b"
    "val_key e a = md_key e b \<longleftrightarrow> comps a = ''md'' # comps b"
    "val_key e a = lock_key e b \<longleftrightarrow> comps a = ''lock'' # comps b"
    "md_key e a \<noteq> lock_key e b"
  using assms plain_comps [OF assms(2)] plain_comps [OF assms(3)]
  by (auto simp: val_key_render md_key_render lock_key_render val_at_def md_at_def lock_at_def render_inject)

lemmas file_keys = val_at_inject md_at_inject val_md_disjoint md_val_disjoint

section \<open>The abstraction\<close>

definition read_val :: "keyspace \<Rightarrow> string \<Rightarrow> bytes option" where
  "read_val m x = Option.bind (kv_value m x) DecodeString"

definition read_md :: "keyspace \<Rightarrow> string \<Rightarrow> Metadata option" where
  "read_md m x = Option.bind (kv_value m x)
     (\<lambda>v. case unmarshalMDv3 v (Some zero_Metadata) of Inl _ \<Rightarrow> None | Inr md \<Rightarrow> Some md)"

definition files :: "etcdsrv \<Rightarrow> keyspace \<Rightarrow> string list \<rightharpoonup> bytes" where
  "files e m = (\<lambda>cs. if good_path cs \<and> kv_value m (md_at e cs) \<noteq> None
                     then read_val m (val_at e cs) else None)"

definition file_md :: "etcdsrv \<Rightarrow> keyspace \<Rightarrow> string list \<rightharpoonup> Metadata" where
  "file_md e m = (\<lambda>cs. if good_path cs then read_md m (md_at e cs) else None)"

text \<open>A path is intact if it has neither key, or both with metadata that fits the content.\<close>

definition intact :: "etcdsrv \<Rightarrow> keyspace \<Rightarrow> string list \<Rightarrow> bool" where
  "intact e m cs \<longleftrightarrow>
     (kv_value m (md_at e cs) = None \<and> kv_value m (val_at e cs) = None) \<or>
     (\<exists>md v. read_md m (md_at e cs) = Some md \<and> kv_value m (val_at e cs) = Some (EncodeToString v) \<and>
             Hash md = sha1_Sum v \<and> Size md = int (length v) \<and> \<not> IsDir md)"

definition md_area :: "etcdsrv \<Rightarrow> string" where
  "md_area e = mdPrefix e @ [slash]"

definition consistent :: "etcdsrv \<Rightarrow> keyspace \<Rightarrow> bool" where
  "consistent e m \<longleftrightarrow>
     (\<forall>cs. good_path cs \<longrightarrow> intact e m cs) \<and>
     (\<forall>x. m x \<noteq> None \<and> prefix (md_area e) x \<longrightarrow> (\<exists>cs. good_path cs \<and> x = md_at e cs))"

lemma consistent_empty [simp]: "consistent e Map.empty"
  by (simp add: consistent_def intact_def kv_value_def)

lemma read_upd [simp]:
  "read_val (m(k \<mapsto> (v, l))) x = (if x = k then DecodeString v else read_val m x)"
  "read_val (m(k := None)) x = (if x = k then None else read_val m x)"
  "read_md (m(k := None)) x = (if x = k then None else read_md m x)"
  "read_md (m(k \<mapsto> (v, l))) x =
     (if x = k then (case unmarshalMDv3 v (Some zero_Metadata) of Inl _ \<Rightarrow> None | Inr md \<Rightarrow> Some md)
      else read_md m x)"
  by (simp_all add: read_val_def read_md_def)

text \<open>What the two transactions of the service do to the abstraction.\<close>

definition stored_kv :: "etcdsrv \<Rightarrow> keyspace \<Rightarrow> string \<Rightarrow> bytes \<Rightarrow> string \<Rightarrow> keyspace" where
  "stored_kv e m k v js =
     apply_ops [OpPut (val_key e k) (EncodeToString v), OpPut (md_key e k) (EncodeToString js)] m"

definition deleted_kv :: "etcdsrv \<Rightarrow> keyspace \<Rightarrow> string \<Rightarrow> keyspace" where
  "deleted_kv e m k = apply_ops [OpDelete (val_key e k), OpDelete (md_key e k)] m"

definition stored_md :: "string \<Rightarrow> bytes \<Rightarrow> time \<Rightarrow> Metadata" where
  "stored_md k v t = (NewMetadata k v t)\<lparr>Path := sanitize k\<rparr>"

lemma stored_md_simps [simp]:
  "Hash (stored_md k v t) = sha1_Sum v" "Size (stored_md k v t) = int (length v)"
  "\<not> IsDir (stored_md k v t)" "Timestamp (stored_md k v t) = t" "Path (stored_md k v t) = sanitize k"
  by (simp_all add: stored_md_def NewMetadata_def)

lemma unmarshal_stored:
  assumes "Marshal_Metadata (NewMetadata k v t) = Some js" and "int64 (int (length v))"
  shows "unmarshalMDv3 (EncodeToString js) (Some zero_Metadata) = Inr (stored_md k v t)"
  using unmarshalMDv3_stored [OF assms(1)] assms(2)
  by (simp add: stored_md_def NewMetadata_def)

lemma stored_kv_alt:
  assumes wf: "wf_srv e" and k: "good_key k"
  shows "stored_kv e m k v js =
     m(val_at e (comps k) \<mapsto> (EncodeToString v, 0), md_at e (comps k) \<mapsto> (EncodeToString js, 0))"
  using wf k by (simp add: stored_kv_def apply_ops_def go_path)

lemma deleted_kv_alt:
  assumes wf: "wf_srv e" and k: "good_key k"
  shows "deleted_kv e m k = m(val_at e (comps k) := None, md_at e (comps k) := None)"
  using wf k by (simp add: deleted_kv_def apply_ops_def go_path)

lemma files_stored:
  assumes wf: "wf_srv e" and k: "good_key k"
  shows "files e (stored_kv e m k v js) = (files e m)(comps k \<mapsto> v)"
  using wf k
  by (auto simp: files_def stored_kv_alt [OF wf k] fun_eq_iff file_keys)

lemma files_deleted:
  assumes wf: "wf_srv e" and k: "good_key k"
  shows "files e (deleted_kv e m k) = (files e m)(comps k := None)"
  using wf k
  by (auto simp: files_def deleted_kv_alt [OF wf k] fun_eq_iff file_keys)

lemma file_md_deleted:
  assumes wf: "wf_srv e" and k: "good_key k"
  shows "file_md e (deleted_kv e m k) = (file_md e m)(comps k := None)"
  using wf k
  by (auto simp: file_md_def deleted_kv_alt [OF wf k] fun_eq_iff file_keys)

lemma file_md_stored:
  assumes wf: "wf_srv e" and k: "good_key k" and "Marshal_Metadata (NewMetadata k v t) = Some js" and "int64 (int (length v))"
  shows "file_md e (stored_kv e m k v js) = (file_md e m)(comps k \<mapsto> stored_md k v t)"
  using wf k
  by (auto simp: file_md_def stored_kv_alt [OF wf k] fun_eq_iff file_keys unmarshal_stored [OF assms(3,4)])

lemma consistent_stored:
  assumes wf: "wf_srv e" and k: "good_key k" and "Marshal_Metadata (NewMetadata k v t) = Some js" and "int64 (int (length v))"
    and "consistent e m"
  shows "consistent e (stored_kv e m k v js)"
  unfolding consistent_def
proof (intro conjI allI impI)
  fix cs assume "good_path cs"
  then show "intact e (stored_kv e m k v js) cs"
    using wf k assms(5)
    by (cases "cs = comps k")
       (auto simp: intact_def stored_kv_alt [OF wf k] file_keys unmarshal_stored [OF assms(3,4)]
         consistent_def)
next
  fix x assume "stored_kv e m k v js x \<noteq> None \<and> prefix (md_area e) x"
  then consider "m x \<noteq> None \<and> prefix (md_area e) x" | "x = md_at e (comps k)"
    | "x = val_at e (comps k)" "prefix (md_area e) x"
    by (auto simp: stored_kv_alt [OF wf k] split: if_splits)
  then show "\<exists>cs. good_path cs \<and> x = md_at e cs"
  proof cases
    case 2
    then show ?thesis using good_keyD(2) [OF k] by blast
  next
    case 3
    then have "\<exists>c cs. root e @ comps k = (root e @ [''md'']) @ c # cs"
      using wf k
      by (subst prefix_render_dir [symmetric])
         (auto simp: md_area_def md_prefix_render val_at_def simp: good_pathD)
    then show ?thesis using good_keyD(2) [OF k] by (auto simp: good_path_def)
  qed (use assms(5) k in \<open>auto simp: consistent_def\<close>)
qed

lemma consistent_deleted:
  assumes wf: "wf_srv e" and k: "good_key k" and "consistent e m"
  shows "consistent e (deleted_kv e m k)"
  unfolding consistent_def
proof (intro conjI allI impI)
  fix cs assume "good_path cs"
  then show "intact e (deleted_kv e m k) cs"
    using wf k assms(3)
    by (cases "cs = comps k")
       (auto simp: intact_def deleted_kv_alt [OF wf k] file_keys consistent_def)
next
  fix x assume "deleted_kv e m k x \<noteq> None \<and> prefix (md_area e) x"
  then show "\<exists>cs. good_path cs \<and> x = md_at e cs"
    using assms(3) by (auto simp: deleted_kv_alt [OF wf k] consistent_def split: if_splits)
qed

section \<open>Answers\<close>

text \<open>What \<open>Load\<close> answers when both its requests do.\<close>

definition load_answer :: "etcdsrv \<Rightarrow> keyspace \<Rightarrow> string \<Rightarrow> go_error + bytes" where
  "load_answer e m k =
     (case kv_value m (md_key e k) of
        None \<Rightarrow> Inl (NotExist k)
      | Some x \<Rightarrow>
          (case DecodeString x of
             None \<Rightarrow> Inl (Wrap err_base64 ''load: failed to decode metadata'')
           | Some b \<Rightarrow>
               (case Unmarshal_Metadata b zero_Metadata of
                  None \<Rightarrow> Inl (Wrap err_json ''load: failed to unmarshal metadata'')
                | Some md \<Rightarrow>
                    (case kv_value m (val_key e k) of
                       None \<Rightarrow> Inl (Errorf ''load: value not found but metadata exists'')
                     | Some y \<Rightarrow>
                         (case DecodeString y of
                            None \<Rightarrow> Inl (Wrap err_base64 ''load: failed to decode value'')
                          | Some v \<Rightarrow>
                              if sha1_Sum v \<noteq> Hash md then Inl (FailedChecksum k)
                              else Inr v)))))"

lemma load_answer_consistent:
  assumes "wf_srv e" "good_key k" "consistent e m"
  shows "load_answer e m k = (case files e m (comps k) of None \<Rightarrow> Inl (NotExist k) | Some v \<Rightarrow> Inr v)"
proof -
  have "intact e m (comps k)"
    using assms by (simp add: consistent_def)
  then show ?thesis
    using assms(1,2)
    by (auto simp: load_answer_def intact_def files_def read_md_def read_val_def unmarshalMDv3_def
        go_path split: option.splits sum.splits bind_splits)
qed

section \<open>Directories\<close>

text \<open>The files strictly below a path, and the decoded metadata of a list of entries.\<close>

definition below :: "etcdsrv \<Rightarrow> keyspace \<Rightarrow> string list \<Rightarrow> string list set" where
  "below e m cs = {p. (\<exists>c q. p = cs @ c # q) \<and> files e m p \<noteq> None}"

definition child_mds :: "KeyValue list \<Rightarrow> Metadata list" where
  "child_mds kvs = List.map_filter
     (\<lambda>kv. case unmarshalMDv3 (KvValue kv) (Some zero_Metadata) of Inl _ \<Rightarrow> None | Inr md \<Rightarrow> Some md)
     kvs"

text \<open>The loop over the children: a sum of Go ints and a maximum.\<close>

lemma sum_children_eq:
  assumes "int64 (Size m)"
  shows "sum_children kvs m =
    m\<lparr>Size := wrap64 (Size m + sum_list (map Size (child_mds kvs))),
      Timestamp := fold max (map Timestamp (child_mds kvs)) (Timestamp m)\<rparr>"
  using assms
proof (induction kvs m rule: sum_children.induct)
  case (1 m)
  then show ?case by (simp add: child_mds_def wrap64_id)
next
  case (2 kv kvs m)
  show ?case
  proof (cases "unmarshalMDv3 (KvValue kv) (Some zero_Metadata)")
    case (Inl err)
    then show ?thesis using 2 by (simp add: child_mds_def)
  next
    case (Inr md)
    show ?thesis
    proof (cases "Timestamp md > Timestamp m")
      case True
      then show ?thesis
        using Inr 2(2) [OF Inr refl]
        by (simp add: child_mds_def wrap64_add_left add.assoc max_def)
    next
      case False
      then show ?thesis
        using Inr 2(2) [OF Inr refl]
        by (simp add: child_mds_def wrap64_add_left add.assoc max_def)
    qed
  qed
qed

lemma consistent_intact: "consistent e m \<Longrightarrow> good_path p \<Longrightarrow> intact e m p"
  by (simp add: consistent_def)

lemma consistent_file_md:
  assumes "consistent e m" "good_path p" "kv_value m (md_at e p) \<noteq> None"
  obtains md v where "file_md e m p = Some md" "files e m p = Some v"
    "Hash md = sha1_Sum v" "Size md = int (length v)" "\<not> IsDir md"
  using consistent_intact [OF assms(1,2)] assms(2,3)
  by (auto simp: intact_def files_def file_md_def read_val_def)

lemma consistent_value:
  assumes "consistent e m" "files e m p = Some v"
  shows "kv_value m (val_at e p) = Some (EncodeToString v)"
proof -
  have "good_path p" using assms(2) by (simp add: files_def split: if_splits)
  then show ?thesis
    using consistent_intact [OF assms(1), of p] assms(2)
    by (auto simp: intact_def files_def read_val_def split: if_splits)
qed

lemma consistent_files:
  assumes "consistent e m" "good_path p"
  shows "files e m p \<noteq> None \<longleftrightarrow> kv_value m (val_at e p) \<noteq> None"
  using consistent_intact [OF assms] assms(2)
  by (auto simp: intact_def files_def read_val_def read_md_def split: if_splits bind_splits)

lemma files_good: "files e m p = Some v \<Longrightarrow> good_path p"
  by (auto simp: files_def split: if_splits)

lemma below_good: "p \<in> below e m cs \<Longrightarrow> good_path p"
  by (auto simp: below_def dest: files_good)

text \<open>Listing the metadata area below a path yields exactly the metadata of the files there.\<close>

lemma children_paths:
  assumes wf: "wf_srv e" and cons: "consistent e m" and cs: "good_path cs"
    and rd: "range_read m (md_at e cs @ [slash]) kvs"
  obtains ps where "distinct ps" "set ps = below e m cs"
    "child_mds kvs = map (the \<circ> file_md e m) ps" "length ps = length kvs"
proof -
  have area: "prefix (md_area e) x" if "prefix (md_at e cs @ [slash]) x" for x
  proof (cases "cs = []")
    case True
    then show ?thesis using that wf by (simp add: md_area_def md_at_def md_prefix_render)
  next
    case False
    then have "prefix (md_area e) (md_at e cs @ [slash])"
      using render_append [of "root e @ [''md'']" cs] wf
      by (simp add: md_area_def md_at_def md_prefix_render render_def)
    then show ?thesis using that by (metis prefix_order.trans)
  qed
  have below: "p \<in> below e m cs \<longleftrightarrow> good_path p \<and> kv_value m (md_at e p) \<noteq> None \<and>
      prefix (md_at e cs @ [slash]) (md_at e p)" for p
  proof (cases "good_path p")
    case True
    then have "prefix (md_at e cs @ [slash]) (md_at e p) \<longleftrightarrow> (\<exists>c q. p = cs @ c # q)"
      using wf cs prefix_render_dir [of "root e @ ''md'' # cs" "root e @ ''md'' # p"]
      by (simp add: md_at_def good_pathD)
    then show ?thesis
      using True consistent_file_md [OF cons True]
      by (auto simp: below_def) (auto simp: files_def split: if_splits)
  qed (auto simp: below_def dest: files_good)
  have "\<exists>p. good_path p \<and> KvKey kv = md_at e p" if "kv \<in> set kvs" for kv
    using that rd cons area [of "KvKey kv"]
    by (auto simp: range_read_mem consistent_def kv_value_def)
  then obtain f where f: "\<And>kv. kv \<in> set kvs \<Longrightarrow> good_path (f kv) \<and> KvKey kv = md_at e (f kv)"
    by metis
  let ?ps = "map f kvs"
  have keys: "map (md_at e) ?ps = map KvKey kvs" using f by auto
  then have "distinct ?ps"
    using rd by (metis distinct_map range_read_def)
  moreover have "set ?ps = below e m cs"
  proof (intro set_eqI iffI)
    fix p assume "p \<in> set ?ps"
    then obtain kv where kv: "kv \<in> set kvs" "p = f kv" by auto
    have "prefix (md_at e cs @ [slash]) (KvKey kv) \<and> kv_value m (KvKey kv) = Some (KvValue kv)"
      using kv(1) range_read_mem [OF rd] by simp
    then show "p \<in> below e m cs"
      unfolding below using f [OF kv(1)] kv(2) by simp
  next
    fix p assume p: "p \<in> below e m cs"
    then obtain v where "kv_value m (md_at e p) = Some v" by (auto simp: below)
    with p rd have "\<lparr> KvKey = md_at e p, KvValue = v \<rparr> \<in> set kvs"
      by (simp add: below range_read_mem [OF rd])
    then have "md_at e (f \<lparr> KvKey = md_at e p, KvValue = v \<rparr>) = md_at e p"
      and "good_path (f \<lparr> KvKey = md_at e p, KvValue = v \<rparr>)"
      using f by fastforce+
    then have "f \<lparr> KvKey = md_at e p, KvValue = v \<rparr> = p"
      using wf below_good [OF p] by (simp add: md_at_inject)
    with \<open>\<lparr> KvKey = md_at e p, KvValue = v \<rparr> \<in> set kvs\<close> show "p \<in> set ?ps"
      by force
  qed
  moreover have "child_mds kvs = map (the \<circ> file_md e m) ?ps"
  proof -
    have "unmarshalMDv3 (KvValue kv) (Some zero_Metadata) = Inr (the (file_md e m (f kv)))"
      if "kv \<in> set kvs" for kv
    proof -
      have k: "kv_value m (md_at e (f kv)) = Some (KvValue kv)" "good_path (f kv)"
        using that f [OF that] range_read_mem [OF rd, of kv] by simp_all
      then obtain md where "file_md e m (f kv) = Some md"
        by (metis consistent_file_md [OF cons] option.distinct(1))
      with k show ?thesis
        by (auto simp: file_md_def read_md_def split: sum.splits)
    qed
    then show ?thesis
      unfolding child_mds_def by (induction kvs) simp_all
  qed
  ultimately show ?thesis using that by simp
qed

text \<open>The summary of a directory: the total size of its files and their latest timestamp.\<close>

definition dir_size :: "etcdsrv \<Rightarrow> keyspace \<Rightarrow> string list \<Rightarrow> int" where
  "dir_size e m cs = wrap64 (\<Sum>p \<in> below e m cs. int (length (the (files e m p))))"

definition dir_time :: "etcdsrv \<Rightarrow> keyspace \<Rightarrow> string list \<Rightarrow> time" where
  "dir_time e m cs = Max (insert 0 ((\<lambda>p. Timestamp (the (file_md e m p))) ` below e m cs))"

lemma fold_max_Max: "fold max xs (a :: int) = Max (insert a (set xs))"
  using Max.set_eq_fold [of a xs] by simp

lemma sum_children_dir:
  assumes "wf_srv e" "consistent e m" "good_path cs" "range_read m (md_at e cs @ [slash]) kvs"
  shows "wrap64 (sum_list (map Size (child_mds kvs))) = dir_size e m cs"
    and "fold max (map Timestamp (child_mds kvs)) 0 = dir_time e m cs"
    and "kvs = [] \<longleftrightarrow> below e m cs = {}"
proof -
  obtain ps where ps: "distinct ps" "set ps = below e m cs"
    "child_mds kvs = map (the \<circ> file_md e m) ps" "length ps = length kvs"
    using children_paths [OF assms] by metis
  have size: "Size (the (file_md e m p)) = int (length (the (files e m p)))"
    if "p \<in> below e m cs" for p
  proof -
    have "kv_value m (md_at e p) \<noteq> None"
      using that by (auto simp: below_def files_def split: if_splits)
    then show ?thesis
      using consistent_file_md [OF assms(2) below_good [OF that]] by fastforce
  qed
  have "sum_list (map Size (child_mds kvs)) = (\<Sum>p \<in> set ps. Size (the (file_md e m p)))"
    using ps(1,3) by (simp add: comp_def sum_list_distinct_conv_sum_set)
  then show "wrap64 (sum_list (map Size (child_mds kvs))) = dir_size e m cs"
    using ps(2) size by (simp add: dir_size_def)
  show "fold max (map Timestamp (child_mds kvs)) 0 = dir_time e m cs"
    using ps(2,3) by (simp add: fold_max_Max dir_time_def image_image)
  show "kvs = [] \<longleftrightarrow> below e m cs = {}"
    using ps(2,4) by auto
qed

section \<open>Listings\<close>

text \<open>No other program uses keys that merely start with the same bytes as the prefix.\<close>

definition exclusive :: "etcdsrv \<Rightarrow> keyspace \<Rightarrow> bool" where
  "exclusive e m \<longleftrightarrow>
     (\<forall>x. m x \<noteq> None \<and> prefix (KeyPrefix (cfg e)) x \<longrightarrow>
          x = KeyPrefix (cfg e) \<or> prefix (KeyPrefix (cfg e) @ ''/'') x)"

lemma exclusive_empty [simp]: "exclusive e Map.empty"
  by (simp add: exclusive_def)

lemma under_prefix:
  assumes "wf_srv e" "root e \<noteq> []"
  shows "render (root e @ cs) = KeyPrefix (cfg e) \<or> prefix (KeyPrefix (cfg e) @ ''/'') (render (root e @ cs))"
proof (cases cs)
  case (Cons c q)
  then have "render (root e @ cs) = KeyPrefix (cfg e) @ ''/'' @ join_with slash cs"
    using render_append [of "root e" cs] assms by (simp add: prefix_render) (simp add: render_def)
  then show ?thesis by simp
qed (use assms in \<open>simp add: prefix_render\<close>)

lemma exclusive_stored:
  assumes "wf_srv e" "root e \<noteq> []" "good_key k" "exclusive e m"
  shows "exclusive e (stored_kv e m k v js)"
  using assms(4) under_prefix [OF assms(1,2), of "comps k"]
    under_prefix [OF assms(1,2), of "''md'' # comps k"]
  by (auto simp: exclusive_def stored_kv_alt [OF assms(1,3)] val_at_def md_at_def)

text \<open>Every key that starts with the bytes of the prefix is the prefix with plain components below
  it, as all keys the service makes are.  A path that lies in the area of the metadata or of the
  locks is reserved.\<close>

definition tidy :: "etcdsrv \<Rightarrow> keyspace \<Rightarrow> bool" where
  "tidy e m \<longleftrightarrow>
     (\<forall>x. m x \<noteq> None \<and> prefix (KeyPrefix (cfg e)) x \<longrightarrow> (\<exists>p. list_all plain_comp p \<and> x = val_at e p))"

definition reserved_path :: "string list \<Rightarrow> bool" where
  "reserved_path p \<longleftrightarrow> list_all plain_comp p \<and> p \<noteq> [] \<and> (hd p = ''md'' \<or> hd p = ''lock'')"

lemma plain_path_cases: "list_all plain_comp p \<longleftrightarrow> good_path p \<or> reserved_path p"
  by (auto simp: good_path_def reserved_path_def)

lemma good_not_reserved: "good_path p \<Longrightarrow> \<not> reserved_path p"
  by (auto simp: good_path_def reserved_path_def)

lemma val_at_areas: "md_at e p = val_at e (''md'' # p)" "lock_at e p = val_at e (''lock'' # p)"
  by (simp_all add: md_at_def lock_at_def val_at_def)

lemma tidy_empty [simp]: "tidy e Map.empty"
  by (simp add: tidy_def)

lemma tidy_update: "tidy e m \<Longrightarrow> list_all plain_comp p \<Longrightarrow> tidy e (m(val_at e p \<mapsto> y))"
  by (auto simp: tidy_def)

lemma tidy_stored: "wf_srv e \<Longrightarrow> good_key k \<Longrightarrow> tidy e m \<Longrightarrow> tidy e (stored_kv e m k v js)"
  by (simp add: stored_kv_alt val_at_areas tidy_update good_pathD)

end
