(* ===== verification/Blob_Store.thy ===== *)
theory Blob_Store
  imports Etcd_Client
begin

text \<open>
  The contract between the storage operations and whoever calls them (\<^verbatim>\<open>certmagic.Storage\<close>
  through the cluster object): a store of contents under paths, where an operation that fails
  may or may not have taken effect.  A client's run is a list of commands; its log is checked
  against what a map from paths to contents allows.
\<close>

section \<open>Runs and their logs\<close>

datatype command = Store_cmd string bytes | Delete_cmd string | Load_cmd string

datatype event =
    Stored string bytes "go_error option"
  | Deleted string "go_error option"
  | Loaded string "go_error + bytes"

type_synonym 's store_op = "string \<Rightarrow> bytes \<Rightarrow> 's operation"
type_synonym 's load_op = "string \<Rightarrow> 's \<Rightarrow> (go_error + bytes) \<times> 's"
type_synonym 's delete_op = "string \<Rightarrow> 's operation"

fun command_key :: "command \<Rightarrow> string" where
  "command_key (Store_cmd k v) = k"
| "command_key (Delete_cmd k) = k"
| "command_key (Load_cmd k) = k"

text \<open>A content must fit into memory: its length is a Go \<^verbatim>\<open>int\<close>.\<close>

fun command_fits :: "command \<Rightarrow> bool" where
  "command_fits (Store_cmd k v) = (length v < 2 ^ 63)"
| "command_fits c = True"

fun run_command ::
  "'s store_op \<Rightarrow> 's load_op \<Rightarrow> 's delete_op \<Rightarrow> command \<Rightarrow> 's \<Rightarrow> event \<times> 's" where
  "run_command st ld dl (Store_cmd k v) s = (case st k v s of (r, t) \<Rightarrow> (Stored k v r, t))"
| "run_command st ld dl (Delete_cmd k) s = (case dl k s of (r, t) \<Rightarrow> (Deleted k r, t))"
| "run_command st ld dl (Load_cmd k) s = (case ld k s of (r, t) \<Rightarrow> (Loaded k r, t))"

fun run_commands ::
  "'s store_op \<Rightarrow> 's load_op \<Rightarrow> 's delete_op \<Rightarrow> command list \<Rightarrow> 's \<Rightarrow> event list \<times> 's" where
  "run_commands st ld dl [] s = ([], s)"
| "run_commands st ld dl (c # cs) s =
     (case run_command st ld dl c s of (ev, t) \<Rightarrow>
      case run_commands st ld dl cs t of (evs, u) \<Rightarrow> (ev # evs, u))"

text \<open>
  What an observer of the log knows: for each path the set of contents it may have, \<open>None\<close> for
  no file.  A successful write leaves one possibility, a failed one adds one, and what a load
  returns must be among them and rules out the others.
\<close>

type_synonym knowledge = "string list \<Rightarrow> bytes option set"

definition learn :: "(string \<Rightarrow> string list) \<Rightarrow> knowledge \<Rightarrow> string \<Rightarrow> bytes option \<Rightarrow> go_error option
    \<Rightarrow> knowledge" where
  "learn path_of X k c r =
     X(path_of k := (if r = None then {c} else insert c (X (path_of k))))"

fun observe :: "(string \<Rightarrow> string list) \<Rightarrow> knowledge \<Rightarrow> event \<Rightarrow> knowledge" where
  "observe path_of X (Stored k v r) = learn path_of X k (Some v) r"
| "observe path_of X (Deleted k r) = learn path_of X k None r"
| "observe path_of X (Loaded k (Inr v)) = X(path_of k := {Some v})"
| "observe path_of X (Loaded k (Inl err)) =
     (if IsNotExistError (Some err) then X(path_of k := {None}) else X)"

fun allowed :: "(string \<Rightarrow> string list) \<Rightarrow> knowledge \<Rightarrow> event \<Rightarrow> bool" where
  "allowed path_of X (Loaded k (Inr v)) \<longleftrightarrow> Some v \<in> X (path_of k)"
| "allowed path_of X (Loaded k (Inl err)) \<longleftrightarrow>
     \<not> IsFailedChecksumError (Some err) \<and> (IsNotExistError (Some err) \<longrightarrow> None \<in> X (path_of k))"
| "allowed path_of X ev \<longleftrightarrow> True"

fun explained :: "(string \<Rightarrow> string list) \<Rightarrow> knowledge \<Rightarrow> event list \<Rightarrow> bool" where
  "explained path_of X [] \<longleftrightarrow> True"
| "explained path_of X (ev # evs) \<longleftrightarrow>
     allowed path_of X ev \<and> explained path_of (observe path_of X ev) evs"

section \<open>The contract\<close>

locale blob_store =
  fixes store :: "'s store_op" and load :: "'s load_op" and delete :: "'s delete_op"
    and path_of :: "string \<Rightarrow> string list"
    and admissible :: "string \<Rightarrow> bool"
    and contents :: "'s \<Rightarrow> string list \<rightharpoonup> bytes"
    and inv :: "'s \<Rightarrow> bool"
  assumes store_inv: "inv s \<Longrightarrow> admissible k \<Longrightarrow> length v < 2 ^ 63 \<Longrightarrow> store k v s = (r, t) \<Longrightarrow> inv t"
    and store_done: "inv s \<Longrightarrow> admissible k \<Longrightarrow> length v < 2 ^ 63 \<Longrightarrow> store k v s = (None, t) \<Longrightarrow>
      contents t = (contents s)(path_of k \<mapsto> v)"
    and store_failed: "inv s \<Longrightarrow> admissible k \<Longrightarrow> length v < 2 ^ 63 \<Longrightarrow> store k v s = (Some err, t) \<Longrightarrow>
      contents t = contents s \<or> contents t = (contents s)(path_of k \<mapsto> v)"
    and delete_inv: "inv s \<Longrightarrow> admissible k \<Longrightarrow> delete k s = (r, t) \<Longrightarrow> inv t"
    and delete_done: "inv s \<Longrightarrow> admissible k \<Longrightarrow> delete k s = (None, t) \<Longrightarrow>
      contents t = (contents s)(path_of k := None)"
    and delete_failed: "inv s \<Longrightarrow> admissible k \<Longrightarrow> delete k s = (Some err, t) \<Longrightarrow>
      contents t = contents s \<or> contents t = (contents s)(path_of k := None)"
    and load_inv: "inv s \<Longrightarrow> admissible k \<Longrightarrow> load k s = (x, t) \<Longrightarrow> inv t"
    and load_frame: "inv s \<Longrightarrow> admissible k \<Longrightarrow> load k s = (x, t) \<Longrightarrow> contents t = contents s"
    and load_done: "inv s \<Longrightarrow> admissible k \<Longrightarrow> load k s = (Inr v, t) \<Longrightarrow>
      contents s (path_of k) = Some v"
    and load_missing: "inv s \<Longrightarrow> admissible k \<Longrightarrow> load k s = (Inl err, t) \<Longrightarrow>
      IsNotExistError (Some err) \<Longrightarrow> contents s (path_of k) = None"
    and load_checked: "inv s \<Longrightarrow> admissible k \<Longrightarrow> load k s = (Inl err, t) \<Longrightarrow>
      \<not> IsFailedChecksumError (Some err)"
begin

text \<open>One command keeps the invariant, and what the observer believes stays true.\<close>

lemma run_command_sound:
  assumes "inv s" "admissible (command_key c)" "command_fits c"
    and "run_command store load delete c s = (ev, t)"
    and "\<forall>p. contents s p \<in> X p"
  shows "inv t" "allowed path_of X ev" "\<forall>p. contents t p \<in> observe path_of X ev p"
proof -
  have "inv t \<and> allowed path_of X ev \<and> (\<forall>p. contents t p \<in> observe path_of X ev p)"
  proof (cases c)
    case (Store_cmd k v)
    then obtain r where r: "store k v s = (r, t)" "ev = Stored k v r"
      using assms(4) by (auto split: prod.splits)
    have k: "admissible k" "length v < 2 ^ 63" using assms(2,3) Store_cmd by simp_all
    have "contents t = (contents s)(path_of k \<mapsto> v) \<or> r \<noteq> None \<and> contents t = contents s"
      using store_done [OF assms(1) k] store_failed [OF assms(1) k] r(1) by (cases r) blast+
    then show ?thesis
      using store_inv [OF assms(1) k r(1)] r(2) assms(5) by (auto simp: learn_def)
  next
    case (Delete_cmd k)
    then obtain r where r: "delete k s = (r, t)" "ev = Deleted k r"
      using assms(4) by (auto split: prod.splits)
    have k: "admissible k" using assms(2) Delete_cmd by simp
    have "contents t = (contents s)(path_of k := None) \<or> r \<noteq> None \<and> contents t = contents s"
      using delete_done [OF assms(1) k] delete_failed [OF assms(1) k] r(1) by (cases r) blast+
    then show ?thesis
      using delete_inv [OF assms(1) k r(1)] r(2) assms(5) by (auto simp: learn_def)
  next
    case (Load_cmd k)
    then obtain x where x: "load k s = (x, t)" "ev = Loaded k x"
      using assms(4) by (auto split: prod.splits)
    have k: "admissible k" using assms(2) Load_cmd by simp
    have same: "inv t" "contents t = contents s"
      using load_inv load_frame assms(1) k x(1) by blast+
    show ?thesis
    proof (cases x)
      case (Inl err)
      have "IsNotExistError (Some err) \<longrightarrow> contents s (path_of k) = None"
        and "\<not> IsFailedChecksumError (Some err)"
        using x(1) Inl load_missing [OF assms(1) k] load_checked [OF assms(1) k] by blast+
      then show ?thesis
        using x(2) Inl same assms(5) by (auto dest: spec [of _ "path_of k"])
    next
      case (Inr v)
      then have "contents s (path_of k) = Some v"
        using x(1) load_done [OF assms(1) k] by blast
      then show ?thesis
        using x(2) Inr same assms(5) by (auto dest: spec [of _ "path_of k"])
    qed
  qed
  then show "inv t" "allowed path_of X ev" "\<forall>p. contents t p \<in> observe path_of X ev p"
    by blast+
qed

text \<open>Every log of a run is explained by a map from paths to contents.\<close>

lemma run_explained:
  assumes "inv s" "\<forall>c \<in> set cs. admissible (command_key c) \<and> command_fits c"
    and "run_commands store load delete cs s = (evs, t)"
    and "\<forall>p. contents s p \<in> X p"
  shows "explained path_of X evs \<and> inv t"
  using assms
proof (induction cs arbitrary: s X evs)
  case (Cons c cs)
  obtain ev u where step: "run_command store load delete c s = (ev, u)"
    by (cases "run_command store load delete c s")
  obtain evs' where rest: "run_commands store load delete cs u = (evs', t)" "evs = ev # evs'"
    using Cons.prems(3) step by (auto split: prod.splits)
  have sound: "inv u" "allowed path_of X ev" "\<forall>p. contents u p \<in> observe path_of X ev p"
    using run_command_sound [OF Cons.prems(1) _ _ step Cons.prems(4)] Cons.prems(2) by simp_all
  show ?case
    using Cons.IH [OF sound(1) _ rest(1) sound(3)] Cons.prems(2) sound(2) rest(2) by simp
qed auto

end

end
