(* ===== verification/Storage.thy ===== *)
theory Storage
  imports Storage_Spec Blob_Store
begin

text \<open>
  The storage operations of the service against the contract of the etcd client: the effect of
  each on the key space whatever its outcome, what each answers, and that they succeed on a
  healthy cluster.
\<close>

section \<open>The loop and the filters of List\<close>

lemma go_filter_eq: "go_filter kvs f = filter f kvs"
proof -
  have "foldl (\<lambda>out kv. if f kv then out @ [kv] else out) out kvs = out @ filter f kvs" for out
    by (induction kvs arbitrary: out) simp_all
  then show ?thesis by (simp add: go_filter_def)
qed

lemma list_loop_eq: "list_loop n fs out kvs = out @ List.map_filter (list_entry n fs) kvs"
  by (induction n fs out kvs rule: list_loop.induct) (simp_all split: option.splits)

lemma map_filter_mem: "x \<in> set (List.map_filter f xs) \<longleftrightarrow> (\<exists>y \<in> set xs. f y = Some x)"
  by (induction xs) (auto split: option.splits)

lemma list_mem:
  assumes "range_read m p kvs"
  shows "x \<in> set (list_loop n fs [] kvs) \<longleftrightarrow>
    (\<exists>key v. kv_value m key = Some v \<and> prefix p key \<and>
             list_entry n fs \<lparr> KvKey = key, KvValue = v \<rparr> = Some x)"
proof -
  have "x \<in> set (list_loop n fs [] kvs) \<longleftrightarrow> (\<exists>kv \<in> set kvs. list_entry n fs kv = Some x)"
    by (simp add: list_loop_eq map_filter_mem)
  also have "\<dots> \<longleftrightarrow> (\<exists>kv. prefix p (KvKey kv) \<and> kv_value m (KvKey kv) = Some (KvValue kv) \<and>
      list_entry n fs kv = Some x)"
    using range_read_mem [OF assms] by blast
  also have "\<dots> \<longleftrightarrow> (\<exists>key v. kv_value m key = Some v \<and> prefix p key \<and>
      list_entry n fs \<lparr> KvKey = key, KvValue = v \<rparr> = Some x)"
    by (metis KeyValue.cases KeyValue.select_convs(1,2))
  finally show ?thesis .
qed

text \<open>An entry below a non-root prefix: the code's test for metadata sees an inner \<open>md\<close>.\<close>

lemma md_sublist:
  assumes "list_all plain_comp p"
  shows "sublist ''/md/'' (render p) \<longleftrightarrow> ''md'' \<in> set (butlast p)"
proof
  assume "sublist ''/md/'' (render p)"
  then obtain a b where "render p = a @ slash # ''md'' @ slash # b"
    by (auto simp: sublist_def)
  then have "split_on slash (render p) = split_on slash a @ [''md''] @ split_on slash b"
    by (simp add: split_on_append_gen split_on_append)
  then have "[] # p = split_on slash a @ [''md''] @ split_on slash b"
    using assms by (cases "p = []")
      (auto simp: render_def split_join list_all_iff plain_comp_def Cons_eq_append_conv)
  moreover obtain x xs where "split_on slash a = x # xs"
    by (metis list.exhaust split_on_nonempty)
  ultimately have "p = xs @ ''md'' # split_on slash b" by simp
  then show "''md'' \<in> set (butlast p)"
    by (simp add: butlast_append)
next
  assume "''md'' \<in> set (butlast p)"
  then obtain xs ys where p: "butlast p = xs @ ''md'' # ys" by (meson split_list)
  then have "p = xs @ ''md'' # (ys @ [last p])"
    by (metis append.assoc append_Cons append_butlast_last_id butlast.simps(1) list.distinct(1)
        append_is_Nil_conv)
  moreover have "render (''md'' # (ys @ [last p])) = ''/md'' @ render (ys @ [last p])"
    using render_append [of "[''md'']" "ys @ [last p]"] by (simp add: render_def)
  then have "render (''md'' # (ys @ [last p])) = ''/md/'' @ join_with slash (ys @ [last p])"
    by (simp add: render_def)
  moreover have "\<exists>pre. render (as @ b # bs) = pre @ render (b # bs)" for as b bs
    by (cases "as = []") (auto simp: render_append)
  ultimately obtain pre where "render p = pre @ ''/md/'' @ join_with slash (ys @ [last p])"
    by metis
  then show "sublist ''/md/'' (render p)"
    by (metis sublist_appendI)
qed

lemma val_at_split:
  "wf_srv e \<Longrightarrow> root e \<noteq> [] \<Longrightarrow> p \<noteq> [] \<Longrightarrow> val_at e p = KeyPrefix (cfg e) @ render p"
  by (simp add: val_at_def render_append prefix_render)

lemma list_entry_file:
  assumes "wf_srv e" "root e \<noteq> []" "list_all plain_comp p" "p \<noteq> []"
  shows "list_entry (length (KeyPrefix (cfg e))) fs \<lparr> KvKey = val_at e p, KvValue = v \<rparr> =
    (if ''md'' \<in> set (butlast p) \<or> \<not> list_all (\<lambda>f. f \<lparr> KvKey = val_at e p, KvValue = v \<rparr>) fs
     then None else Some (render p))"
  using assms
  by (simp add: list_entry_def val_at_split md_sublist Contains_iff Let_def)
     (simp add: render_def)

lemma render_no_trailing_slash:
  assumes "list_all plain_comp d" "x \<noteq> []"
  shows "render d \<noteq> x @ [slash]"
proof (cases d rule: rev_cases)
  case (snoc d' y)
  then have y: "slash \<notin> set y" "y \<noteq> []" using assms(1) by (auto simp: plain_comp_def)
  have "last (render d) = last y"
  proof (cases "d' = []")
    case True
    then show ?thesis using snoc y by (simp add: render_def)
  next
    case False
    then show ?thesis using snoc y by (simp add: render_snoc)
  qed
  with y show ?thesis by (metis last_in_set last_snoc)
qed (use assms(2) in \<open>auto simp: render_def\<close>)

lemma path_Split_dir:
  assumes "list_all plain_comp (q @ [c])"
  shows "fst (path_Split (render (q @ [c]))) = (if q = [] then [slash] else render q @ [slash])"
proof (cases "q = []")
  case True
  have "\<forall>x \<in> set (rev c). x \<noteq> slash" using assms by (auto simp: plain_comp_def)
  then have "takeWhile (\<lambda>x. x \<noteq> slash) (rev c @ [slash]) = rev c"
    by (rule takeWhile_append_stop) simp
  then show ?thesis using True by (simp add: path_Split_def render_def)
next
  case False
  then show ?thesis using assms by (simp add: path_Split_render_snoc plain_comp_def)
qed

text \<open>
  The exact-prefix filter keeps the files directly in one directory, written without or with
  a slash at its end.
\<close>

lemma FilterExactPrefix_file:
  assumes "wf_srv e" "root e \<noteq> []" "list_all plain_comp (q @ [c])" "list_all plain_comp d" "v \<noteq> []"
  shows "FilterExactPrefix (render d) (KeyPrefix (cfg e))
           \<lparr> KvKey = val_at e (q @ [c]), KvValue = v \<rparr> \<longleftrightarrow> q = d" (is ?A)
    and "FilterExactPrefix ((if d = [] then [] else render d) @ ''/'') (KeyPrefix (cfg e))
           \<lparr> KvKey = val_at e (q @ [c]), KvValue = v \<rparr> \<longleftrightarrow> q = d" (is ?B)
proof -
  have plain: "list_all plain_comp q" "list_all plain_comp (q @ [c])"
    using assms(3) by simp_all
  have dir: "FilterExactPrefix pre (KeyPrefix (cfg e))
           \<lparr> KvKey = val_at e (q @ [c]), KvValue = v \<rparr> \<longleftrightarrow>
        (if q = [] then [slash] else render q @ [slash]) \<in> {pre, pre @ [slash]}" for pre
    using assms path_Split_dir [OF plain(2)]
    by (simp add: FilterExactPrefix_def TrimPrefix_def val_at_split Let_def)
  have inj: "render q = render d \<longleftrightarrow> q = d"
    using plain(1) assms(4) by (rule render_inject)
  have ne: "render d \<noteq> render q @ [slash]" "render q \<noteq> render d @ [slash]"
    "render q @ [slash] \<noteq> [slash]" "render d @ [slash] \<noteq> [slash]"
    using render_no_trailing_slash assms(4) plain(1) by auto
  have root: "render d = [slash] \<longleftrightarrow> d = []" "render q = [slash] \<longleftrightarrow> q = []"
    using render_inject [OF assms(4), of "[]"] render_inject [OF plain(1), of "[]"]
    by (simp_all add: render_def)
  show ?A
    using dir [of "render d"] root inj ne by (cases "q = []") auto
  show ?B
    using dir [of "(if d = [] then [] else render d) @ ''/''"] root inj ne by (cases "q = []") auto
qed

lemma list_key [simp]:
  assumes "wf_srv e" "no_dotdot k"
  shows "path_Join [KeyPrefix (cfg e), if HasPrefix k ''/'' then k else ''/'' @ k]
    = val_at e (comps k)"
  using assms val_key_render [of e "slash # k"] by (auto simp: go_path)

section \<open>Effects\<close>

context etcd_kv
begin

lemma srv_Store_effect:
  assumes "srv_Store cli e k v s = (r, t)"
  obtains (unchanged) err where "r = Some err" "kv t = kv s"
  | (stored) n js s1 where "clock_Now cli s = (n, s1)"
      "Marshal_Metadata (NewMetadata k v n) = Some js"
      "kv t = stored_kv e (kv s) k v js"
  using assms
  by (fastforce simp: srv_Store_def store_ops_def stored_kv_def Let_def
      split: prod.splits sum.splits option.splits if_splits
      dest!: now_frame ctx_frame get_frame limiter_frame txn_done dest: txn_fail)

lemma srv_Delete_effect:
  assumes "srv_Delete cli e k s = (r, t)"
  shows "kv t = deleted_kv e (kv s) k \<or> r \<noteq> None \<and> kv t = kv s"
  using assms
  by (auto simp: srv_Delete_def deleted_kv_def Let_def
      split: prod.splits sum.splits if_splits dest!: ctx_frame dest: txn_done txn_fail)

lemma srv_Store_other:
  assumes "srv_Store cli e k v s = (r, t)" "x \<noteq> val_key e k" "x \<noteq> md_key e k"
  shows "kv t x = kv s x"
  using assms(1)
  by (cases rule: srv_Store_effect)
     (use assms(2,3) in \<open>simp_all add: stored_kv_def apply_ops_other\<close>)

lemma srv_Delete_other:
  assumes "srv_Delete cli e k s = (r, t)" "x \<noteq> val_key e k" "x \<noteq> md_key e k"
  shows "kv t x = kv s x"
  using srv_Delete_effect [OF assms(1)] assms(2,3)
  by (auto simp: deleted_kv_def apply_ops_other)

lemma srv_Load_frame: "srv_Load cli e k s = (r, t) \<Longrightarrow> kv t = kv s"
  by (auto simp: srv_Load_def load_answer_def Let_def
      split: prod.splits sum.splits list.splits option.splits if_splits dest!: ctx_frame get_frame)

lemma srv_Metadata_frame: "srv_Metadata cli e k s = (r, t) \<Longrightarrow> kv t = kv s"
  by (auto simp: srv_Metadata_def Let_def
      split: prod.splits sum.splits list.splits option.splits if_splits dest!: ctx_frame get_frame now_frame)

lemma srv_List_frame: "srv_List cli e k fs s = (r, t) \<Longrightarrow> kv t = kv s"
  by (auto simp: srv_List_def Let_def split: prod.splits sum.splits dest!: ctx_frame get_frame)

section \<open>Load\<close>

text \<open>A request failed, or the answer is the one the two keys determine.\<close>

lemma srv_Load_result:
  assumes "srv_Load cli e k s = (r, t)"
  shows "(\<exists>err. r = Inl (Wrap err ''load: failed to get metadata'') \<or>
                r = Inl (Wrap err ''load: failed to get value'')) \<or>
    r = load_answer e (kv s) k"
proof -
  obtain ctx s0 where start: "context_WithTimeout cli (srv_timeout e) s = (ctx, s0)"
    by (cases "context_WithTimeout cli (srv_timeout e) s")
  obtain g s1 where first: "cli_Get cli ctx (md_key e k) False s0 = (g, s1)"
    by (cases "cli_Get cli ctx (md_key e k) False s0")
  note run = assms start
  show ?thesis
  proof (cases g)
    case (Inl err)
    with run first show ?thesis by (simp add: srv_Load_def load_answer_def) blast
  next
    case (Inr xs)
    with first have xs: "cli_Get cli ctx (md_key e k) False s0 = (Inr (point_read (kv s) (md_key e k)), s1)"
      and s1: "kv s1 = kv s"
      using ctx_frame [OF start] by (auto dest: get_point get_frame)
    obtain h s2 where second: "cli_Get cli ctx (val_key e k) False s1 = (h, s2)"
      by (cases "cli_Get cli ctx (val_key e k) False s1")
    then have h: "h = Inr ys \<Longrightarrow> ys = point_read (kv s) (val_key e k)" for ys
      using s1 by (metis get_point)
    consider (none) "kv_value (kv s) (md_key e k) = None"
      | (base64) x where "kv_value (kv s) (md_key e k) = Some x" "DecodeString x = None"
      | (json) x b where "kv_value (kv s) (md_key e k) = Some x" "DecodeString x = Some b"
          "Unmarshal_Metadata b zero_Metadata = None"
      | (decoded) x b md where "kv_value (kv s) (md_key e k) = Some x" "DecodeString x = Some b"
          "Unmarshal_Metadata b zero_Metadata = Some md"
      by (metis option.exhaust)
    then show ?thesis
    proof cases
      case decoded
      show ?thesis
      proof (cases h)
        case (Inl err)
        with run xs second decoded show ?thesis
          by (simp add: srv_Load_def load_answer_def point_read_value) blast
      next
        case (Inr ys)
        with run xs second decoded h [OF Inr] show ?thesis
          by (cases "kv_value (kv s) (val_key e k)")
             (auto simp: srv_Load_def load_answer_def point_read_value split: option.splits)
      qed
    qed (use run xs in \<open>simp_all add: srv_Load_def load_answer_def point_read_value\<close>)
  qed
qed

section \<open>Metadata\<close>

lemma srv_Metadata_result:
  assumes wf: "wf_srv e" and k: "good_key k" and cons: "consistent e (kv s)"
    and run: "srv_Metadata cli e k s = (r, t)"
  obtains (failed) err where "r = Inl (Wrap err ''metadata: failed to get metadata'') \<or>
      r = Inl (Wrap err ''metadata: failed to get directory contents'')"
  | (present) md where "file_md e (kv s) (comps k) = Some md" "r = Inr (md\<lparr>Path := k\<rparr>)"
  | (missing) "file_md e (kv s) (comps k) = None" "below e (kv s) (comps k) = {}"
      "r = Inl (NotExist k)"
  | (folder) md where "file_md e (kv s) (comps k) = None" "below e (kv s) (comps k) \<noteq> {}"
      "r = Inr md" "Path md = k" "IsDir md" "Size md = dir_size e (kv s) (comps k)"
      "dir_time e (kv s) (comps k) \<noteq> 0 \<longrightarrow> Timestamp md = dir_time e (kv s) (comps k)"
proof -
  obtain ctx s0 where start: "context_WithTimeout cli (srv_timeout e) s = (ctx, s0)"
    by (cases "context_WithTimeout cli (srv_timeout e) s")
  obtain g s1 where first: "cli_Get cli ctx (md_key e k) False s0 = (g, s1)"
    by (cases "cli_Get cli ctx (md_key e k) False s0")
  note run = run start
  show ?thesis
  proof (cases g)
    case (Inl err)
    with run first have "r = Inl (Wrap err ''metadata: failed to get metadata'')"
      by (simp add: srv_Metadata_def)
    then show ?thesis using failed by blast
  next
    case (Inr xs)
    with first have xs: "cli_Get cli ctx (md_key e k) False s0 = (Inr (point_read (kv s) (md_key e k)), s1)"
      and s1: "kv s1 = kv s"
      using ctx_frame [OF start] by (auto dest: get_point get_frame)
    show ?thesis
    proof (cases "kv_value (kv s) (md_key e k)")
      case (Some x)
      then obtain md v where md: "file_md e (kv s) (comps k) = Some md"
        using consistent_file_md [OF cons, of "comps k"] wf k by (auto simp: go_path)
      with Some run xs have "r = Inr (md\<lparr>Path := k\<rparr>)"
        using wf k
        by (auto simp: srv_Metadata_def point_read_value file_md_def read_md_def unmarshalMDv3_def
            go_path split: option.splits)
      with md show ?thesis by (rule present)
    next
      case None
      then have none: "file_md e (kv s) (comps k) = None"
        using wf k by (simp add: file_md_def read_md_def go_path)
      obtain h s2 where second: "cli_Get cli ctx (md_key e k @ ''/'') True s1 = (h, s2)"
        by (cases "cli_Get cli ctx (md_key e k @ ''/'') True s1")
      show ?thesis
      proof (cases h)
        case (Inl err)
        with None run xs second
        have "r = Inl (Wrap err ''metadata: failed to get directory contents'')"
          by (simp add: srv_Metadata_def point_read_value)
        then show ?thesis using failed by blast
      next
        case (Inr kvs)
        with second s1 have "range_read (kv s) (md_at e (comps k) @ [slash]) kvs"
          using wf k by (metis get_range good_keyD(1) md_key_render)
        note dir = sum_children_dir [OF wf cons good_keyD(2) [OF k] this]
        show ?thesis
        proof (cases kvs)
          case Nil
          with None run xs second \<open>h = Inr kvs\<close> have "r = Inl (NotExist k)"
            by (simp add: srv_Metadata_def point_read_value)
          with none dir(3) Nil show ?thesis by (intro missing) auto
        next
          case (Cons kv' kvs')
          let ?md = "sum_children kvs (zero_Metadata\<lparr>Path := k, IsDir := True, Timestamp := 0\<rparr>)"
          have md: "Path ?md = k" "IsDir ?md" "Size ?md = dir_size e (kv s) (comps k)"
            "Timestamp ?md = dir_time e (kv s) (comps k)"
            using dir(1,2) by (simp_all add: sum_children_eq int64_def zero_Metadata_def)
          obtain n s3 where n: "clock_Now cli s2 = (n, s3)"
            by (cases "clock_Now cli s2")
          with None run xs second \<open>h = Inr kvs\<close> Cons
          have "r = Inr (if Timestamp ?md = 0 then ?md\<lparr>Timestamp := n\<rparr> else ?md)"
            by (simp add: srv_Metadata_def point_read_value Let_def split: if_splits)
          with none dir(3) Cons md show ?thesis
            by (intro folder [of "if Timestamp ?md = 0 then ?md\<lparr>Timestamp := n\<rparr> else ?md"])
               auto
        qed
      qed
    qed
  qed
qed


section \<open>List\<close>

text \<open>The listing of a key is the listing of the key space below its search key.\<close>

lemma srv_List_result:
  assumes "srv_List cli e k fs s = (r, t)"
  obtains (failed) err where "r = Inl (Wrap err ''List: failed to get keys'')"
  | (listed) xs where "r = Inr xs"
      "\<And>x. x \<in> set xs \<longleftrightarrow>
        (\<exists>key v. kv_value (kv s) key = Some v \<and>
           prefix (path_Join [KeyPrefix (cfg e), if HasPrefix k ''/'' then k else ''/'' @ k]) key \<and>
           list_entry (length (KeyPrefix (cfg e))) fs \<lparr> KvKey = key, KvValue = v \<rparr> = Some x)"
proof -
  let ?key = "path_Join [KeyPrefix (cfg e), if HasPrefix k ''/'' then k else ''/'' @ k]"
  obtain ctx s0 where start: "context_WithTimeout cli (srv_timeout e) s = (ctx, s0)"
    by (cases "context_WithTimeout cli (srv_timeout e) s")
  obtain g s1 where get: "cli_Get cli ctx ?key True s0 = (g, s1)"
    by (cases "cli_Get cli ctx ?key True s0")
  show ?thesis
  proof (cases g)
    case (Inl err)
    with assms start get show ?thesis by (intro failed) (auto simp: srv_List_def Let_def)
  next
    case (Inr kvs)
    with get have "range_read (kv s) ?key kvs"
      using ctx_frame [OF start] by (auto dest: get_range)
    note mem = list_mem [OF this]
    have "r = Inr (list_loop (length (KeyPrefix (cfg e))) fs [] kvs)"
      using assms start get Inr by (simp add: srv_List_def Let_def)
    then show ?thesis by (rule listed) (rule mem)
  qed
qed

end

lemma list_entry_relative:
  assumes "list_entry (length P) fs \<lparr> KvKey = P @ rel, KvValue = v \<rparr> = Some x"
  shows "x = (if HasPrefix rel ''/'' then rel else ''/'' @ rel)"
  using assms by (auto simp: list_entry_def Let_def split: if_splits)

context etcd_kv
begin

text \<open>Which stored files a listing shows, for any filters.\<close>

lemma srv_List_files:
  assumes wf: "wf_srv e" "root e \<noteq> []" and m: "consistent e (kv s)" "exclusive e (kv s)"
    and k: "no_dotdot k" and p: "good_path p" "p \<noteq> []"
    and run: "srv_List cli e k fs s = (Inr xs, t)"
  shows "render p \<in> set xs \<longleftrightarrow>
    (\<exists>v. files e (kv s) p = Some v \<and> prefix (val_at e (comps k)) (val_at e p) \<and>
         ''md'' \<notin> set (butlast p) \<and>
         list_all (\<lambda>f. f \<lparr> KvKey = val_at e p, KvValue = EncodeToString v \<rparr>) fs)"
    (is "?L = ?R")
proof -
  let ?P = "KeyPrefix (cfg e)"
  have mem: "x \<in> set xs \<longleftrightarrow>
      (\<exists>key v. kv_value (kv s) key = Some v \<and> prefix (val_at e (comps k)) key \<and>
         list_entry (length ?P) fs \<lparr> KvKey = key, KvValue = v \<rparr> = Some x)" for x
    using srv_List_result [OF run] list_key [OF wf(1) k] by (metis sum.inject(2) sum.distinct(1))
  show ?thesis
  proof
    assume ?L
    then obtain key v where kv: "kv_value (kv s) key = Some v" "prefix (val_at e (comps k)) key"
      and entry: "list_entry (length ?P) fs \<lparr> KvKey = key, KvValue = v \<rparr> = Some (render p)"
      using mem by blast
    have "prefix ?P (val_at e (comps k))"
      using wf by (cases "comps k = []")
        (auto simp: val_at_split, simp add: val_at_def prefix_render)
    with kv(2) obtain rel where rel: "key = ?P @ rel"
      by (metis prefixE prefix_order.trans)
    with entry have p': "render p = (if HasPrefix rel ''/'' then rel else ''/'' @ rel)"
      using list_entry_relative by blast
    have "rel \<noteq> []"
      using entry rel by (auto simp: list_entry_def)
    have "(kv s) key \<noteq> None" using kv(1) by (auto simp: kv_value_def)
    then have "key = ?P \<or> prefix (?P @ ''/'') key"
      using m(2) rel unfolding exclusive_def by (metis prefixI)
    then have "HasPrefix rel ''/''"
      using rel \<open>rel \<noteq> []\<close> by auto
    with p' rel wf p have key: "key = val_at e p"
      by (simp add: val_at_split)
    obtain c where c: "files e (kv s) p = Some c"
      using consistent_files [OF m(1) p(1)] kv(1) key by auto
    then have "v = EncodeToString c"
      using consistent_value [OF m(1) c] kv(1) key by simp
    then show ?R
      using c kv(2) entry list_entry_file [OF wf good_pathD [OF p(1)] p(2)] key by (auto split: if_splits)
  next
    assume ?R
    then obtain v where v: "files e (kv s) p = Some v" "prefix (val_at e (comps k)) (val_at e p)"
      "list_entry (length ?P) fs \<lparr> KvKey = val_at e p, KvValue = EncodeToString v \<rparr> = Some (render p)"
      using list_entry_file [OF wf good_pathD [OF p(1)] p(2)] by auto
    then show ?L
      using consistent_value [OF m(1) v(1)] mem by blast
  qed
qed

end

text \<open>An entry is selected by the search key and the filters.\<close>

definition selected :: "etcdsrv \<Rightarrow> string \<Rightarrow> kv_filter list \<Rightarrow> string \<Rightarrow> string \<Rightarrow> bool" where
  "selected e k fs x y \<longleftrightarrow>
     prefix (val_at e (comps k)) x \<and> list_all (\<lambda>f. f \<lparr> KvKey = x, KvValue = y \<rparr>) fs"

context etcd_kv
begin

text \<open>The whole listing of a tidy key space.\<close>

lemma srv_List_entries:
  assumes wf: "wf_srv e" "root e \<noteq> []" and m: "tidy e (kv s)" and k: "no_dotdot k"
    and run: "srv_List cli e k fs s = (Inr xs, t)"
  shows "set xs = {render p | p y. list_all plain_comp p \<and> p \<noteq> [] \<and>
    kv_value (kv s) (val_at e p) = Some y \<and> ''md'' \<notin> set (butlast p) \<and> selected e k fs (val_at e p) y}"
    (is "_ = ?R")
proof (intro set_eqI iffI)
  let ?P = "KeyPrefix (cfg e)"
  have mem: "x \<in> set xs \<longleftrightarrow>
      (\<exists>key v. kv_value (kv s) key = Some v \<and> prefix (val_at e (comps k)) key \<and>
         list_entry (length ?P) fs \<lparr> KvKey = key, KvValue = v \<rparr> = Some x)" for x
    using srv_List_result [OF run] list_key [OF wf(1) k] by (metis sum.inject(2) sum.distinct(1))
  have entry: "list_entry (length ?P) fs \<lparr> KvKey = val_at e p, KvValue = v \<rparr> =
      (if ''md'' \<in> set (butlast p) \<or> \<not> list_all (\<lambda>f. f \<lparr> KvKey = val_at e p, KvValue = v \<rparr>) fs
       then None else Some (render p))" if "list_all plain_comp p" "p \<noteq> []" for p v
    using list_entry_file [OF wf that] .
  have pre: "prefix ?P (val_at e (comps k))"
    using wf by (cases "comps k = []")
      (auto simp: val_at_split, simp add: val_at_def prefix_render)
  {
    fix x assume "x \<in> set xs"
    then obtain key v where kv: "kv_value (kv s) key = Some v" "prefix (val_at e (comps k)) key"
      "list_entry (length ?P) fs \<lparr> KvKey = key, KvValue = v \<rparr> = Some x"
      using mem by blast
    have "kv s key \<noteq> None" using kv(1) by (auto simp: kv_value_def)
    then obtain p where p: "list_all plain_comp p" "key = val_at e p"
      using m prefix_order.trans [OF pre kv(2)] unfolding tidy_def by blast
    have "p \<noteq> []"
      using kv(3) p(2) wf by (auto simp: list_entry_def val_at_def prefix_render)
    then show "x \<in> ?R"
      using kv p entry [OF p(1)] by (auto simp: selected_def split: if_splits)
  next
    fix x assume "x \<in> ?R"
    then obtain p y where p: "list_all plain_comp p" "p \<noteq> []" "x = render p"
      "kv_value (kv s) (val_at e p) = Some y" "''md'' \<notin> set (butlast p)" "selected e k fs (val_at e p) y"
      by blast
    then show "x \<in> set xs"
      using mem entry [OF p(1,2), of y] by (auto simp: selected_def)
  }
qed

text \<open>The entries are the files and the keys of the reserved areas.\<close>

lemma srv_List_shows:
  assumes wf: "wf_srv e" "root e \<noteq> []" and m: "consistent e (kv s)" "tidy e (kv s)"
    and k: "no_dotdot k" and run: "srv_List cli e k fs s = (Inr xs, t)"
  shows "set xs =
    {render p | p v. files e (kv s) p = Some v \<and> p \<noteq> [] \<and> ''md'' \<notin> set (butlast p) \<and>
       selected e k fs (val_at e p) (EncodeToString v)} \<union>
    {render p | p y. reserved_path p \<and> kv_value (kv s) (val_at e p) = Some y \<and>
       ''md'' \<notin> set (butlast p) \<and> selected e k fs (val_at e p) y}"
proof -
  have stored: "kv_value (kv s) (val_at e p) = Some y \<longleftrightarrow>
      (\<exists>v. files e (kv s) p = Some v \<and> y = EncodeToString v)" if "good_path p" for p y
    using consistent_files [OF m(1) that] consistent_value [OF m(1), of p] by force
  let ?S = "\<lambda>p y. ''md'' \<notin> set (butlast p) \<and> selected e k fs (val_at e p) y"
  note entries = srv_List_entries [OF wf m(2) k run]
  show ?thesis
  proof (intro set_eqI iffI)
    fix x assume "x \<in> set xs"
    then obtain p y where p: "x = render p" "list_all plain_comp p" "p \<noteq> []"
      "kv_value (kv s) (val_at e p) = Some y" "?S p y"
      unfolding entries by blast
    show "x \<in> {render p | p v. files e (kv s) p = Some v \<and> p \<noteq> [] \<and> ?S p (EncodeToString v)} \<union>
        {render p | p y. reserved_path p \<and> kv_value (kv s) (val_at e p) = Some y \<and> ?S p y}"
    proof (cases "good_path p")
      case True
      then obtain v where "files e (kv s) p = Some v" "y = EncodeToString v"
        using stored p(4) by blast
      then show ?thesis using p by blast
    next
      case False
      then show ?thesis using p plain_path_cases by blast
    qed
  next
    fix x assume "x \<in> {render p | p v. files e (kv s) p = Some v \<and> p \<noteq> [] \<and> ?S p (EncodeToString v)} \<union>
        {render p | p y. reserved_path p \<and> kv_value (kv s) (val_at e p) = Some y \<and> ?S p y}"
    then consider (stored) p v where "x = render p" "files e (kv s) p = Some v" "p \<noteq> []" "?S p (EncodeToString v)"
      | (reserved) p y where "x = render p" "reserved_path p" "kv_value (kv s) (val_at e p) = Some y" "?S p y"
      by blast
    then show "x \<in> set xs"
    proof cases
      case stored
      then show ?thesis
        unfolding entries using consistent_value [OF m(1)] files_good plain_path_cases by blast
    next
      case reserved
      then show ?thesis unfolding entries using reserved_path_def by blast
    qed
  qed
qed

end

section \<open>The date of a stored file\<close>

context etcd_timed
begin

lemma srv_Store_dated:
  assumes "srv_Store cli e k v s = (None, t)"
  obtains n js where "Marshal_Metadata (NewMetadata k v n) = Some js"
    "kv t = stored_kv e (kv s) k v js" "now s \<le> n" "n \<le> now t"
proof -
  obtain n s1 where 1: "clock_Now cli s = (n, s1)" by (cases "clock_Now cli s")
  obtain ctx s2 where 0: "context_WithTimeout cli (srv_timeout e) s1 = (ctx, s2)"
    by (cases "context_WithTimeout cli (srv_timeout e) s1")
  obtain x s3 where 2: "cli_Get cli ctx (md_key e k) False s2 = (x, s3)"
    by (cases "cli_Get cli ctx (md_key e k) False s2")
  obtain w s4 where 3: "rateLimiter_wait cli ctx (rateLimiter e) s3 = (w, s4)"
    by (cases "rateLimiter_wait cli ctx (rateLimiter e) s3")
  obtain js s5 where 4: "Marshal_Metadata (NewMetadata k v n) = Some js"
    "cli_Txn cli ctx [OpPut (val_key e k) (EncodeToString v), OpPut (md_key e k) (EncodeToString js)] s4
      = (Inr True, s5)" "t = s5"
    using assms 1 0 2 3
    by (auto simp: srv_Store_def store_ops_def Let_def
        split: sum.splits option.splits prod.splits if_splits)
  have "kv t = stored_kv e (kv s) k v js"
    using txn_done [OF 4(2)] now_frame [OF 1] ctx_frame [OF 0] get_frame [OF 2] limiter_frame [OF 3] 4(3)
    by (simp add: stored_kv_def)
  moreover have "now s \<le> n" "n \<le> now t"
    using now_reading [OF 1] ctx_mono [OF 0] get_mono [OF 2] limiter_mono [OF 3] txn_mono [OF 4(2)] 4(3) by auto
  ultimately show ?thesis using that 4(1) by blast
qed

end

section \<open>The service keeps the storage contract\<close>

locale etcd_service = etcd_kv cli kv pause
  for cli :: "'s client" and kv and pause +
  fixes e :: etcdsrv
  assumes service: "wf_srv e"
begin

lemma load_cases:
  assumes "consistent e (kv s)" "good_key k" "srv_Load cli e k s = (r, t)"
  shows "(\<exists>err m. r = Inl (Wrap err m)) \<or>
    r = (case files e (kv s) (comps k) of None \<Rightarrow> Inl (NotExist k) | Some v \<Rightarrow> Inr v)"
  using srv_Load_result [OF assms(3)] load_answer_consistent [OF service assms(2,1)] by auto

lemma store_cases:
  assumes "consistent e (kv s)" "good_key k" "length v < 2 ^ 63" "srv_Store cli e k v s = (r, t)"
  shows "consistent e (kv t) \<and>
    (files e (kv t) = (files e (kv s))(comps k \<mapsto> v) \<or> r \<noteq> None \<and> kv t = kv s)"
proof -
  have "int (length v) < int (2 ^ 63)" using assms(3) by (simp only: of_nat_less_iff)
  then have "int64 (int (length v))" by (simp add: int64_def)
  with assms(4) show ?thesis
    by (cases rule: srv_Store_effect)
       (use assms(1,2) service in \<open>auto simp: files_stored consistent_stored\<close>)
qed

lemma delete_cases:
  assumes "consistent e (kv s)" "good_key k" "srv_Delete cli e k s = (r, t)"
  shows "consistent e (kv t) \<and>
    (files e (kv t) = (files e (kv s))(comps k := None) \<or> r \<noteq> None \<and> kv t = kv s)"
  using srv_Delete_effect [OF assms(3)] assms(1,2) service
  by (auto simp: files_deleted consistent_deleted)

lemma blob_store:
  "blob_store (srv_Store cli e) (srv_Load cli e) (srv_Delete cli e) comps good_key
     (\<lambda>s. files e (kv s)) (\<lambda>s. consistent e (kv s))"
proof
  fix s k v r t assume "consistent e (kv s)" "good_key k" "length v < 2 ^ 63"
    "srv_Store cli e k v s = (r, t)"
  then show "consistent e (kv t)" using store_cases by blast
next
  fix s k v t assume "consistent e (kv s)" "good_key k" "length v < 2 ^ 63"
    "srv_Store cli e k v s = (None, t)"
  then show "files e (kv t) = (files e (kv s))(comps k \<mapsto> v)" using store_cases by blast
next
  fix s k v err t assume "consistent e (kv s)" "good_key k" "length v < 2 ^ 63"
    "srv_Store cli e k v s = (Some err, t)"
  then show "files e (kv t) = files e (kv s) \<or> files e (kv t) = (files e (kv s))(comps k \<mapsto> v)"
    using store_cases by metis
next
  fix s k r t assume "consistent e (kv s)" "good_key k" "srv_Delete cli e k s = (r, t)"
  then show "consistent e (kv t)" using delete_cases by blast
next
  fix s k t assume "consistent e (kv s)" "good_key k" "srv_Delete cli e k s = (None, t)"
  then show "files e (kv t) = (files e (kv s))(comps k := None)" using delete_cases by blast
next
  fix s k err t assume "consistent e (kv s)" "good_key k" "srv_Delete cli e k s = (Some err, t)"
  then show "files e (kv t) = files e (kv s) \<or> files e (kv t) = (files e (kv s))(comps k := None)"
    using delete_cases by metis
next
  fix s k x t assume "consistent e (kv s)" "good_key k" "srv_Load cli e k s = (x, t)"
  then show "consistent e (kv t)" "files e (kv t) = files e (kv s)"
    by (simp_all add: srv_Load_frame)
next
  fix s k v t assume "consistent e (kv s)" "good_key k" "srv_Load cli e k s = (Inr v, t)"
  from load_cases [OF this] show "files e (kv s) (comps k) = Some v"
    by (auto split: option.splits)
next
  fix s k err t assume "consistent e (kv s)" "good_key k" "srv_Load cli e k s = (Inl err, t)"
    and "IsNotExistError (Some err)"
  with load_cases [OF this(1-3)] show "files e (kv s) (comps k) = None"
    by (auto simp: IsNotExistError_def split: option.splits)
next
  fix s k err t assume "consistent e (kv s)" "good_key k" "srv_Load cli e k s = (Inl err, t)"
  from load_cases [OF this] show "\<not> IsFailedChecksumError (Some err)"
    by (auto simp: IsFailedChecksumError_def split: option.splits)
qed

end

sublocale etcd_service \<subseteq> store: blob_store "srv_Store cli e" "srv_Load cli e" "srv_Delete cli e"
    comps good_key "\<lambda>s. files e (kv s)" "\<lambda>s. consistent e (kv s)"
  by (rule blob_store)

section \<open>On a healthy cluster\<close>

text \<open>A call that makes a handful of requests finishes when its context allows eight.\<close>

context etcd_live
begin

lemma Store_live_keys:
  assumes "healthy s" "8 * latency \<le> srv_timeout e" "val_key e k \<noteq> md_key e k"
  shows "\<exists>t. srv_Store cli e k v s = (None, t) \<and> healthy t"
proof -
  note latency = latency_nonneg [OF assms(1)]
  obtain n s1 where 1: "clock_Now cli s = (n, s1)" "healthy s1" "valid_time n"
    using now_live now_valid assms(1) by blast
  then obtain js where js: "Marshal_Metadata (NewMetadata k v n) = Some js"
    by (auto simp: Marshal_Metadata_def NewMetadata_def valid_time_def)
  obtain n2 s2 where 2: "context_WithTimeout cli (srv_timeout e) s1 = (Some (n2 + srv_timeout e), s2)"
    "healthy s2" "now s1 \<le> n2" "now s2 \<le> now s1 + latency"
    using ctx_live [OF 1(2)] by metis
  let ?ctx = "Some (n2 + srv_timeout e)"
  have "in_time ?ctx (now s2 + latency)" using 2(3,4) assms(2) latency by simp
  then obtain xs s3 where 3: "cli_Get cli ?ctx (md_key e k) False s2 = (Inr xs, s3)" "healthy s3"
    "now s3 \<le> now s2 + latency"
    using get_live 2(2) by blast
  have "in_time ?ctx (now s3 + latency)" using 2(3,4) 3(3) assms(2) latency by simp
  then obtain s4 where 4: "rateLimiter_wait cli ?ctx (rateLimiter e) s3 = (None, s4)" "healthy s4"
    "now s4 \<le> now s3 + latency"
    using limiter_live 3(2) by blast
  let ?ops = "[OpPut (val_key e k) (EncodeToString v), OpPut (md_key e k) (EncodeToString js)]"
  have "in_time ?ctx (now s4 + latency)" using 2(3,4) 3(3) 4(3) assms(2) latency by simp
  moreover have "distinct (map op_key ?ops)"
    using assms(3) by simp
  ultimately obtain b t where 5: "cli_Txn cli ?ctx ?ops s4 = (Inr b, t)" "healthy t"
    using txn_live 4(2) by blast
  then have "b" using txn_done by blast
  with 1(1) 2(1) 3(1) 4(1) 5 js show ?thesis
    by (simp add: srv_Store_def store_ops_def)
qed

lemma Store_live:
  "healthy s \<Longrightarrow> 8 * latency \<le> srv_timeout e \<Longrightarrow> wf_srv e \<Longrightarrow> good_key k \<Longrightarrow>
   \<exists>t. srv_Store cli e k v s = (None, t) \<and> healthy t"
  by (rule Store_live_keys) (simp_all add: go_path file_keys)

text \<open>The other operations begin by making their context.\<close>

lemma begin_live:
  assumes "healthy s" "8 * latency \<le> srv_timeout e"
  obtains d s0 where "context_WithTimeout cli (srv_timeout e) s = (Some d, s0)" "healthy s0"
    "now s0 + 7 * latency \<le> d" "kv s0 = kv s" "now s \<le> now s0"
proof -
  obtain n s0 where 0: "context_WithTimeout cli (srv_timeout e) s = (Some (n + srv_timeout e), s0)"
    "healthy s0" "now s \<le> n" "now s0 \<le> now s + latency" "n \<le> now s0"
    using ctx_live [OF assms(1)] by metis
  show thesis
    by (rule that [OF 0(1,2) _ ctx_frame [OF 0(1)]]) (use 0(3-5) assms(2) in linarith)+
qed

lemma Delete_live:
  assumes "healthy s" "8 * latency \<le> srv_timeout e" "wf_srv e" "good_key k"
  shows "\<exists>t. srv_Delete cli e k s = (None, t) \<and> healthy t"
proof -
  obtain d s0 where 0: "context_WithTimeout cli (srv_timeout e) s = (Some d, s0)" "healthy s0"
    "now s0 + 7 * latency \<le> d"
    by (rule begin_live [OF assms(1,2)])
  have "in_time (Some d) (now s0 + latency)" using 0(3) latency_nonneg [OF assms(1)] by simp
  moreover have "distinct (map op_key [OpDelete (val_key e k), OpDelete (md_key e k)])"
    using assms(3,4) by (simp add: go_path file_keys)
  ultimately obtain b t where
    1: "cli_Txn cli (Some d) [OpDelete (val_key e k), OpDelete (md_key e k)] s0 = (Inr b, t)" "healthy t"
    using txn_live 0(2) by blast
  then have "b" using txn_done by blast
  with 0(1) 1 show ?thesis by (simp add: srv_Delete_def)
qed

lemma Load_live:
  assumes "healthy s" "8 * latency \<le> srv_timeout e"
  shows "\<exists>t. srv_Load cli e k s = (load_answer e (kv s) k, t) \<and> healthy t"
proof -
  obtain d s0 where 0: "context_WithTimeout cli (srv_timeout e) s = (Some d, s0)" "healthy s0"
    "now s0 + 7 * latency \<le> d" "kv s0 = kv s"
    by (rule begin_live [OF assms])
  note latency = latency_nonneg [OF assms(1)]
  have "in_time (Some d) (now s0 + latency)" using 0(3) latency by simp
  then obtain xs s1 where 1: "cli_Get cli (Some d) (md_key e k) False s0 = (Inr xs, s1)" "healthy s1"
    "now s1 \<le> now s0 + latency"
    using get_live 0(2) by blast
  have "in_time (Some d) (now s1 + latency)" using 0(3) 1(3) latency by simp
  then obtain ys s2 where 2: "cli_Get cli (Some d) (val_key e k) False s1 = (Inr ys, s2)" "healthy s2"
    using get_live 1(2) by blast
  have eqs: "xs = point_read (kv s) (md_key e k)" "ys = point_read (kv s) (val_key e k)"
    using 0(4) 1(1) 2(1) get_point get_frame by metis+
  let ?r = "srv_Load cli e k s"
  have "healthy (snd ?r)"
    using 0 1 2 by (auto simp: srv_Load_def split: list.splits option.splits)
  moreover have "fst ?r = load_answer e (kv s) k"
    using 0(1) 1(1) 2(1) eqs
    by (auto simp: srv_Load_def load_answer_def point_read_value split: option.splits)
  ultimately show ?thesis by (metis prod.collapse)
qed

lemma List_live:
  assumes "healthy s" "8 * latency \<le> srv_timeout e"
  shows "\<exists>xs t. srv_List cli e k fs s = (Inr xs, t) \<and> healthy t"
proof -
  obtain d s0 where 0: "context_WithTimeout cli (srv_timeout e) s = (Some d, s0)" "healthy s0"
    "now s0 + 7 * latency \<le> d"
    by (rule begin_live [OF assms])
  have "in_time (Some d) (now s0 + latency)" using 0(3) latency_nonneg [OF assms(1)] by simp
  from get_live [OF 0(2) this, of "path_Join [KeyPrefix (cfg e), if HasPrefix k ''/'' then k
      else ''/'' @ k]" True] 0(1)
  show ?thesis by (auto simp: srv_List_def Let_def)
qed

text \<open>\<open>Metadata\<close> answers: it fails only for a path that is neither a file nor a directory.\<close>

lemma Metadata_live:
  assumes "healthy s" "8 * latency \<le> srv_timeout e" "wf_srv e" "good_key k" "consistent e (kv s)"
  shows "\<exists>r t. srv_Metadata cli e k s = (r, t) \<and> healthy t \<and> (\<forall>err msg. r \<noteq> Inl (Wrap err msg))"
proof -
  obtain d s0 where 0: "context_WithTimeout cli (srv_timeout e) s = (Some d, s0)" "healthy s0"
    "now s0 + 7 * latency \<le> d" "kv s0 = kv s"
    by (rule begin_live [OF assms(1,2)])
  note latency = latency_nonneg [OF assms(1)]
  have "in_time (Some d) (now s0 + latency)" using 0(3) latency by simp
  then obtain xs s1 where 1: "cli_Get cli (Some d) (md_key e k) False s0 = (Inr xs, s1)" "healthy s1"
    "now s1 \<le> now s0 + latency"
    using get_live 0(2) by blast
  have xs: "xs = point_read (kv s) (md_key e k)" using get_point [OF 1(1)] 0(4) by simp
  show ?thesis
  proof (cases "kv_value (kv s) (md_key e k)")
    case (Some y)
    then obtain md where "read_md (kv s) (md_key e k) = Some md"
      using consistent_file_md [OF assms(5), of "comps k"] assms(3,4)
      by (auto simp: go_path file_md_def)
    then show ?thesis
      using 0(1) 1 xs Some
      by (auto simp: srv_Metadata_def point_read_value read_md_def unmarshalMDv3_def
          split: option.splits)
  next
    case None
    have "in_time (Some d) (now s1 + latency)" using 0(3) 1(3) latency by simp
    then obtain kvs s2 where 2: "cli_Get cli (Some d) (md_key e k @ ''/'') True s1 = (Inr kvs, s2)"
      "healthy s2"
      using get_live 1(2) by blast
    obtain n s3 where 3: "clock_Now cli s2 = (n, s3)" "healthy s3"
      using now_live 2(2) by blast
    then show ?thesis
      using 0(1) 1(1) xs None 2
      by (cases kvs) (auto simp: srv_Metadata_def point_read_value Let_def)
  qed
qed

end

section \<open>The contract on the reference etcd\<close>

lemma normal_prefix_default [simp]: "normal_prefix (KeyPrefix default_config)"
  by (simp add: normal_prefix_def default_config_def no_dotdot_def comps_def render_def)

abbreviation default_srv :: etcdsrv where
  "default_srv \<equiv> new_etcdsrv default_config"

lemma wf_srv_default [simp]: "wf_srv default_srv"
  by (rule wf_srv_new) simp

interpretation ref_service: etcd_service "ref_client n" w_kv ref_pause default_srv
  by unfold_locales simp

end
