(* ===== verification/Go_Float.thy ===== *)
theory Go_Float
  imports Go_Time "HOL-Library.Log_Nat"
begin

text \<open>
  The part of float64 arithmetic the program uses: \<open>Duration.Seconds\<close>, whose value \<open>lock\<close>
  converts to the seconds of a lease.  A float64 has 53 significant bits and every operation
  rounds to the nearest one, ties to even.  The values here are not negative and are counted
  in units of \<open>2 ^ - 82\<close>, the last bit of the smallest fraction that occurs, one nanosecond.
\<close>

section \<open>Rounding\<close>

text \<open>The quotient of two numbers to the nearest integer, ties to even.\<close>

definition round_div :: "nat \<Rightarrow> nat \<Rightarrow> nat" where
  "round_div n m =
     (let q = n div m; r = n mod m in if 2 * r < m \<or> 2 * r = m \<and> even q then q else q + 1)"

text \<open>The unit of the last of 53 bits of a number of that size.\<close>

definition last_bit :: "nat \<Rightarrow> nat" where
  "last_bit q = 2 ^ (floorlog 2 q - 53)"

definition round_float :: "nat \<Rightarrow> nat \<Rightarrow> nat" where
  "round_float n m = (let u = last_bit (n div m) in u * round_div n (m * u))"

lemma round_div_le:
  assumes "0 < m" "n \<le> m * k" shows "round_div n m \<le> k"
proof (cases "n = m * k")
  case False
  then have "n < m * k" using assms(2) by simp
  then have "n div m < k" using assms(1) by (simp add: div_less_iff_less_mult mult.commute)
  then show ?thesis by (simp add: round_div_def Let_def)
qed (use assms(1) in \<open>simp add: round_div_def\<close>)

lemma round_div_ge:
  assumes "0 < m" "m * k \<le> n" shows "k \<le> round_div n m"
proof -
  have "k \<le> n div m" using assms by (simp add: less_eq_div_iff_mult_less_eq mult.commute)
  then show ?thesis by (simp add: round_div_def Let_def)
qed

text \<open>Rounding does not pass a number that is itself a float64 of that size.\<close>

lemma last_bit_pos [simp]: "0 < last_bit q"
  by (simp add: last_bit_def)

lemma last_bit_dvd:
  assumes "q < 2 ^ (k + 53)" shows "last_bit q dvd 2 ^ k"
proof -
  have "floorlog 2 q \<le> k + 53"
    using assms by (simp add: floorlog_le_iff)
  then show ?thesis by (simp add: last_bit_def le_imp_power_dvd)
qed

lemma round_float_le:
  assumes "0 < m" "n \<le> m * (2 ^ k * j)" "n < m * 2 ^ (k + 53)"
  shows "round_float n m \<le> 2 ^ k * j"
proof -
  let ?u = "last_bit (n div m)"
  have "n div m < 2 ^ (k + 53)"
    using assms(1,3) by (simp add: div_less_iff_less_mult mult.commute)
  then obtain c where c: "2 ^ k = ?u * c" using last_bit_dvd by (metis dvdE)
  have "round_div n (m * ?u) \<le> c * j"
    by (rule round_div_le) (use assms(1,2) c in \<open>simp_all add: mult.assoc\<close>)
  then show ?thesis by (simp add: round_float_def Let_def c mult.assoc)
qed

lemma round_float_ge:
  assumes "0 < m" "m * (2 ^ k * j) \<le> n" "n < m * 2 ^ (k + 53)"
  shows "2 ^ k * j \<le> round_float n m"
proof -
  let ?u = "last_bit (n div m)"
  have "n div m < 2 ^ (k + 53)"
    using assms(1,3) by (simp add: div_less_iff_less_mult mult.commute)
  then obtain c where c: "2 ^ k = ?u * c" using last_bit_dvd by (metis dvdE)
  have "c * j \<le> round_div n (m * ?u)"
    by (rule round_div_ge) (use assms(1,2) c in \<open>simp_all add: mult.assoc\<close>)
  then show ?thesis by (simp add: round_float_def Let_def c mult.assoc)
qed

section \<open>Seconds\<close>

text \<open>\<open>Seconds\<close> of \<open>d\<close> nanoseconds: \<^verbatim>\<open>float64(sec) + float64(nsec)/1e9\<close>.  The two conversions
  are exact, the division and the sum are rounded.\<close>

definition nano_fraction :: "nat \<Rightarrow> nat" where
  "nano_fraction nsec = round_float (nsec * 2 ^ 82) 1000000000"

definition duration_Seconds :: "nat \<Rightarrow> nat" where
  "duration_Seconds d =
     round_float (d div 1000000000 * 2 ^ 82 + nano_fraction (d mod 1000000000)) 1"

text \<open>\<open>int64(d.Seconds())\<close>: the conversion truncates.\<close>

definition whole_seconds :: "int \<Rightarrow> int" where
  "whole_seconds d =
     (if 0 \<le> d then int (duration_Seconds (nat d) div 2 ^ 82)
      else - int (duration_Seconds (nat (- d)) div 2 ^ 82))"

lemma nano_fraction_le: "8 * n \<le> 1000000000 * j \<Longrightarrow> n < 1000000000 \<Longrightarrow> nano_fraction n \<le> 2 ^ 79 * j"
  unfolding nano_fraction_def by (rule round_float_le) simp_all

text \<open>The result is within the second that it is rounded from, its end included.\<close>

lemma duration_Seconds_le:
  assumes "d \<le> 1000000000 * j" "j < 2 ^ 50"
  shows "duration_Seconds d div 2 ^ 82 \<le> j"
proof -
  let ?s = "d div 1000000000" and ?r = "d mod 1000000000"
  have d: "d = 1000000000 * ?s + ?r" "?r < 1000000000" by simp_all
  have f: "nano_fraction ?r \<le> 2 ^ 79 * 8" by (rule nano_fraction_le) (use d(2) in simp_all)
  have "?s * 2 ^ 82 + nano_fraction ?r \<le> 2 ^ 82 * j"
  proof (cases "?s = j")
    case True
    then have "?r = 0" using assms(1) d(1) by linarith
    then show ?thesis using True nano_fraction_le [of 0 0] by simp
  next
    case False
    then have "?s + 1 \<le> j" using assms(1) d by linarith
    then have "2 ^ 82 * (?s + 1) \<le> 2 ^ 82 * j" by (intro mult_le_mono2)
    then show ?thesis using f by simp
  qed
  then have "duration_Seconds d \<le> 2 ^ 82 * j"
    unfolding duration_Seconds_def
    by (intro round_float_le) (use assms(2) in simp_all)
  then show ?thesis by (metis div_le_mono nonzero_mult_div_cancel_left power_not_zero zero_neq_numeral)
qed

lemma duration_Seconds_ge:
  assumes "1000000000 * j \<le> d" "d < 1000000000 * 2 ^ 50"
  shows "j \<le> duration_Seconds d div 2 ^ 82"
proof -
  let ?s = "d div 1000000000" and ?r = "d mod 1000000000"
  have s: "j \<le> ?s" using assms(1) by (simp add: less_eq_div_iff_mult_less_eq mult.commute)
  have b: "?s < 2 ^ 50" using assms(2) by (simp add: div_less_iff_less_mult)
  have f: "nano_fraction ?r \<le> 2 ^ 79 * 8" by (rule nano_fraction_le) simp_all
  have "2 ^ 82 * j \<le> duration_Seconds d"
    unfolding duration_Seconds_def
    by (rule round_float_ge) (use s b f in simp_all)
  then show ?thesis by (metis div_le_mono nonzero_mult_div_cancel_left power_not_zero zero_neq_numeral)
qed

lemma whole_seconds_le: "d \<le> j * Second \<Longrightarrow> 0 \<le> j \<Longrightarrow> j < 2 ^ 50 \<Longrightarrow> whole_seconds d \<le> j"
proof -
  assume d: "d \<le> j * Second" "0 \<le> j" "j < 2 ^ 50"
  have "nat d \<le> 1000000000 * nat j" "nat j < 2 ^ 50" using d by (simp_all add: Second_def nat_le_iff)
  then show ?thesis using duration_Seconds_le [of "nat d" "nat j"] d(2)
    by (auto simp: whole_seconds_def)
qed

lemma whole_seconds_ge: "j * Second \<le> d \<Longrightarrow> 0 \<le> j \<Longrightarrow> d < 2 ^ 63 \<Longrightarrow> j \<le> whole_seconds d"
proof -
  assume d: "j * Second \<le> d" "0 \<le> j" "d < 2 ^ 63"
  have "1000000000 * nat j \<le> nat d" "nat d < 1000000000 * 2 ^ 50" "0 \<le> d"
    using d by (simp_all add: Second_def)
  then show ?thesis using duration_Seconds_ge [of "nat j" "nat d"]
    by (auto simp: whole_seconds_def)
qed

text \<open>The largest duration is not rounded up.\<close>

lemma whole_seconds_max: "d \<le> max_duration \<Longrightarrow> whole_seconds d \<le> 9223372036"
proof (cases "d < 9223372036 * Second")
  case False
  assume d: "d \<le> max_duration"
  let ?n = "nat d"
  have n: "9223372036 * 1000000000 \<le> ?n" "?n < 2 ^ 63"
    using False d by (simp_all add: Second_def max_duration_def)
  then have s: "?n div 1000000000 = 9223372036" by simp
  have "nano_fraction (?n mod 1000000000) \<le> 2 ^ 79 * 7"
    by (rule nano_fraction_le) (use n s in \<open>simp_all add: modulo_nat_def\<close>)
  then have "duration_Seconds ?n \<le> 2 ^ 79 * (8 * 9223372036 + 7)"
    unfolding duration_Seconds_def s by (intro round_float_le) simp_all
  then have "duration_Seconds ?n div 2 ^ 82 \<le> 9223372036" by simp
  then show ?thesis using False by (simp add: whole_seconds_def Second_def)
qed (rule whole_seconds_le; simp)

text \<open>Some values; the last shows that rounding can add a second.\<close>

lemma whole_seconds_examples:
  "whole_seconds (300 * Second) = 300" "whole_seconds 1999999999 = 1"
  "whole_seconds (- 1500000000) = - 1"
  "whole_seconds (16777215 * Second + 999999999) = 16777215"
  "whole_seconds (16777216 * Second + 999999999) = 16777217"
  by (simp_all add: whole_seconds_def duration_Seconds_def nano_fraction_def round_float_def
      round_div_def last_bit_def Let_def compute_floorlog Second_def)

end
