(* ===== verification/Locks.thy ===== *)
theory Locks
  imports Storage Go_Float
begin

text \<open>
  \<open>src/etcd.go\<close>, the locking half: \<open>Lock\<close> and \<open>Unlock\<close>, both retried by \<open>execute\<close>.  A lock is
  a record under the lock prefix holding the token of its owner and the time it was obtained;
  the token is made once per process by \<open>init\<close>, from 32 bytes of \<^verbatim>\<open>rand.Read\<close>, and is an
  argument of the operations.
\<close>

section \<open>The token\<close>

text \<open>\<open>init\<close>: the token of the process; an error of the random source ends the process
  (\<open>log.Fatal\<close>).\<close>

definition init_token :: "(nat \<Rightarrow> go_error + bytes) \<Rightarrow> go_error + string" where
  "init_token rand_Read =
     (case rand_Read 32 of
        Inl err \<Rightarrow> Inl err
      | Inr tok \<Rightarrow> Inr (EncodeToString tok))"

text \<open>A token survives the JSON encoding of the lock record, and different random bytes make
  different tokens.\<close>

lemma sanitize_token: "init_token rnd = Inr tok \<Longrightarrow> sanitize tok = tok"
  by (auto simp: init_token_def split: sum.splits)

lemma EncodeToString_inject: "EncodeToString a = EncodeToString b \<longleftrightarrow> a = b"
  using DecodeString_Encode by (metis option.inject)

lemma token_distinct:
  "init_token rnd = Inr tok \<Longrightarrow> init_token rnd' = Inr tok' \<Longrightarrow> rnd 32 \<noteq> rnd' 32 \<Longrightarrow> tok \<noteq> tok'"
  by (auto simp: init_token_def EncodeToString_inject split: sum.splits)

section \<open>Acquiring and releasing\<close>

text \<open>The time to live of a lease, \<open>int64(d.Seconds())\<close>, with the rounding of \<open>Go_Float\<close>.\<close>

definition lease_ttl :: "int \<Rightarrow> int" where
  "lease_ttl d = whole_seconds d"

abbreviation err_time :: go_error where
  "err_time \<equiv> External ''parsing time''"

abbreviation err_time_marshal :: go_error where
  "err_time_marshal \<equiv> External ''Time.MarshalText: year outside of range [0,9999]''"

text \<open>Whether the answer of etcd lets the lock be set: the code's \<open>okToSet\<close>.\<close>

definition lock_ok_to_set ::
  "'s client \<Rightarrow> etcdsrv \<Rightarrow> string \<Rightarrow> KeyValue list \<Rightarrow> 's \<Rightarrow> (go_error + bool) \<times> 's" where
  "lock_ok_to_set cli e tok kvs s =
     (case kvs of
        [] \<Rightarrow> (Inr True, s)
      | x # _ \<Rightarrow>
          (case DecodeString (KvValue x) of
             None \<Rightarrow> (Inl (Wrap err_base64 ''lock: failed to decode base64 lock representation''), s)
           | Some b \<Rightarrow>
               (case Unmarshal_Lock b zero_Lock of
                  None \<Rightarrow> (Inl (Wrap err_json ''lock: failed to unmarshal existing lock''), s)
                | Some l \<Rightarrow>
                    (case UnmarshalText (Obtained l) of
                       None \<Rightarrow> (Inl (Wrap err_time ''lock: failed to unmarshal time''), s)
                     | Some lockTime \<Rightarrow>
                         (case clock_Now cli s of (n, s1) \<Rightarrow>
                            (Inr (Token l = tok \<or> LockTimeout (cfg e) \<le> time_Sub n lockTime),
                             s1))))))"

definition lock_write :: "'s client \<Rightarrow> ctx \<Rightarrow> string \<Rightarrow> string \<Rightarrow> string \<Rightarrow> int \<Rightarrow> 's operation" where
  "lock_write cli ctx tok key lk leaseID s =
     (case clock_Now cli s of (n, s1) \<Rightarrow>
      case MarshalText n of
        None \<Rightarrow> (Some (Wrap err_time_marshal ''lock: failed to marshal current UTC time''), s1)
      | Some ts \<Rightarrow>
          (case cli_Put cli ctx lk
                  (EncodeToString (Marshal_Lock
                     \<lparr> Token = tok, Obtained = ts, Key = key, LeaseID = leaseID \<rparr>)) s1 of
             (Inl err, s2) \<Rightarrow> (Some (Wrap err ''failed to get lock''), s2)
           | (Inr _, s2) \<Rightarrow> (None, s2)))"

definition lock_acquire :: "'s client \<Rightarrow> etcdsrv \<Rightarrow> string \<Rightarrow> string \<Rightarrow> 's operation" where
  "lock_acquire cli e tok key s =
     (let lk = path_Join [lockKey e, key] in
      case context_WithTimeout cli (srv_timeout e) s of (ctx, s1) \<Rightarrow>
      case rateLimiter_wait cli ctx (rateLimiter e) s1 of
        (Some err, s2) \<Rightarrow> (Some err, s2)
      | (None, s2) \<Rightarrow>
          (case cli_Grant cli ctx (lease_ttl (LockTimeout (cfg e))) s2 of
             (Inl err, s3) \<Rightarrow> (Some err, s3)
           | (Inr leaseID, s3) \<Rightarrow>
               (case cli_Get cli ctx lk False s3 of
                  (Inl err, s4) \<Rightarrow> (Some (Wrap err ''lock: failed to get existing lock''), s4)
                | (Inr kvs, s4) \<Rightarrow>
                    (case lock_ok_to_set cli e tok kvs s4 of
                       (Inl err, s5) \<Rightarrow> (Some err, s5)
                     | (Inr okToSet, s5) \<Rightarrow>
                         if okToSet then lock_write cli ctx tok key lk leaseID s5
                         else (Some (LockError key (LockTimeout (cfg e))
                                       (Some (Errorf ''lock already exists''))), s5)))))"

definition srv_lock :: "'s client \<Rightarrow> etcdsrv \<Rightarrow> string \<Rightarrow> string \<Rightarrow> 's operation" where
  "srv_lock cli e tok key = srv_execute cli e (lock_acquire cli e tok key)"

definition srv_Lock :: "'s client \<Rightarrow> etcdsrv \<Rightarrow> string \<Rightarrow> string \<Rightarrow> 's operation" where
  "srv_Lock cli e token key = srv_lock cli e token key"

text \<open>The context of \<open>Unlock\<close> is made once, outside the operation it retries.\<close>

definition lock_release :: "'s client \<Rightarrow> etcdsrv \<Rightarrow> ctx \<Rightarrow> string \<Rightarrow> string \<Rightarrow> 's operation" where
  "lock_release cli e ctx token key s =
     (case cli_Get cli ctx (path_Join [lockKey e, key]) False s of
        (Inl err, s1) \<Rightarrow> (Some (Wrap err ''failed to get lock info''), s1)
      | (Inr [], s1) \<Rightarrow> (None, s1)
      | (Inr (x # _), s1) \<Rightarrow>
          (case DecodeString (KvValue x) of
             None \<Rightarrow> (Some (Wrap err_base64 ''failed to decode lock''), s1)
           | Some b \<Rightarrow>
               (case Unmarshal_Lock b zero_Lock of
                  None \<Rightarrow> (Some (Wrap err_json ''failed to unmarshal lock''), s1)
                | Some l \<Rightarrow>
                    if Token l \<noteq> token
                    then (Some (Errorf ''cannot unlock - lock owned by different client''), s1)
                    else (case cli_Revoke cli ctx (LeaseID l) s1 of
                            (Inl err, s2) \<Rightarrow> (Some (Wrap err ''failed to revoke lease''), s2)
                          | (Inr _, s2) \<Rightarrow> (None, s2)))))"

definition srv_Unlock :: "'s client \<Rightarrow> etcdsrv \<Rightarrow> string \<Rightarrow> string \<Rightarrow> 's operation" where
  "srv_Unlock cli e token key s =
     (case context_WithTimeout cli (srv_timeout e) s of
        (ctx, s1) \<Rightarrow> srv_execute cli e (lock_release cli e ctx token key) s1)"

section \<open>Lock records in the key space\<close>

text \<open>The record under a lock key with the time it was obtained, if it decodes.\<close>

definition read_lock :: "keyspace \<Rightarrow> string \<Rightarrow> (Lock \<times> time) option" where
  "read_lock m lk =
     (case kv_value m lk of
        None \<Rightarrow> None
      | Some v \<Rightarrow>
          (case DecodeString v of
             None \<Rightarrow> None
           | Some b \<Rightarrow>
               (case Unmarshal_Lock b zero_Lock of
                  None \<Rightarrow> None
                | Some l \<Rightarrow>
                    (case UnmarshalText (Obtained l) of None \<Rightarrow> None | Some t \<Rightarrow> Some (l, t)))))"

definition lock_value :: "string \<Rightarrow> string \<Rightarrow> int \<Rightarrow> string \<Rightarrow> string" where
  "lock_value tok key leaseID ts =
     EncodeToString (Marshal_Lock \<lparr> Token = tok, Obtained = ts, Key = key, LeaseID = leaseID \<rparr>)"

lemma read_lock_written:
  assumes "MarshalText n = Some ts" "int64 i"
  shows "read_lock (m(lk \<mapsto> (lock_value tok key i ts, x))) lk =
    Some (\<lparr> Token = sanitize tok, Obtained = ts, Key = sanitize key, LeaseID = i \<rparr>, n)"
  using assms
  by (simp add: read_lock_def lock_value_def Unmarshal_Marshal_Lock UnmarshalText_MarshalText)

lemma read_lock_other: "lk \<noteq> k \<Longrightarrow> read_lock (m(k \<mapsto> v)) lk = read_lock m lk"
  by (cases v) (simp add: read_lock_def)

text \<open>Nothing the program writes is attached to a lease.\<close>

definition unleased :: "keyspace \<Rightarrow> bool" where
  "unleased m \<longleftrightarrow> (\<forall>k v l. m k = Some (v, l) \<longrightarrow> l = 0)"

lemma unleased_empty [simp]: "unleased Map.empty"
  by (simp add: unleased_def)

lemma drop_lease_unleased: "unleased m \<Longrightarrow> drop_lease i m = m"
  by (auto simp: drop_lease_def unleased_def fun_eq_iff split: option.splits)

lemma unleased_upd [simp]:
  "unleased m \<Longrightarrow> unleased (m(k \<mapsto> (v, 0)))" "unleased m \<Longrightarrow> unleased (m(k := None))"
  by (simp_all add: unleased_def)

lemma ok_to_set_corrupt:
  assumes "kv_value m lk = Some y" "read_lock m lk = None"
  shows "lock_ok_to_set cli e tok (point_read m lk) s \<noteq> (Inr ok, t)"
proof (cases "DecodeString y")
  case None
  then show ?thesis using assms by (simp add: lock_ok_to_set_def point_read_value)
next
  case (Some b)
  note decoded = this
  show ?thesis
  proof (cases "Unmarshal_Lock b zero_Lock")
    case None
    then show ?thesis using assms decoded by (simp add: lock_ok_to_set_def point_read_value)
  next
    case (Some l)
    then have "UnmarshalText (Obtained l) = None"
      using assms decoded by (simp add: read_lock_def split: option.splits)
    then show ?thesis using assms decoded Some by (simp add: lock_ok_to_set_def point_read_value)
  qed
qed

text \<open>A change under a lock key is invisible to the files.\<close>

lemma lock_frame:
  assumes wf: "wf_srv e" and l: "list_all plain_comp l"
    and same: "\<And>x. x \<noteq> lock_at e l \<Longrightarrow> m' x = m x"
  shows "files e m' = files e m" and "consistent e m \<Longrightarrow> consistent e m'"
proof -
  have vals: "kv_value m' (md_at e cs) = kv_value m (md_at e cs)"
    "kv_value m' (val_at e cs) = kv_value m (val_at e cs)" if "good_path cs" for cs
    using same [of "md_at e cs"] same [of "val_at e cs"]
      lock_md_disjoint [OF wf l good_pathD [OF that]] lock_val_disjoint [OF wf l that]
    by (auto simp: kv_value_def)
  show "files e m' = files e m"
    using vals by (auto simp: files_def read_val_def fun_eq_iff)
  have "\<not> prefix (md_area e) (lock_at e l)"
    using prefix_render_dir [of "root e @ [''md'']" "root e @ ''lock'' # l"] wf l
    by (auto simp: md_area_def md_prefix_render lock_at_def)
  then have "m x \<noteq> None" if "m' x \<noteq> None" "prefix (md_area e) x" for x
    using same [of x] that by (cases "x = lock_at e l") auto
  then show "consistent e m \<Longrightarrow> consistent e m'"
    using vals unfolding consistent_def intact_def read_md_def by metis
qed

section \<open>One attempt\<close>

context etcd_timed
begin

lemma ok_to_set_frame:
  "lock_ok_to_set cli e tok kvs s = (r, t) \<Longrightarrow> kv t = kv s \<and> now s \<le> now t"
  by (auto simp: lock_ok_to_set_def split: list.splits option.splits prod.splits
      dest: now_frame now_reading)

text \<open>An attempt stops without a write, or finds the lock settable and writes.\<close>

lemma lock_acquire_steps:
  assumes "lock_acquire cli e tok key s = (r, t)"
  obtains (stopped) err where "r = Some err" "kv t = kv s" "now s \<le> now t"
  | (settable) ctx i s3 s4 where "now s \<le> now s3" "i \<noteq> 0" "int64 i" "kv s4 = kv s" "now s3 \<le> now s4"
      "lock_ok_to_set cli e tok (point_read (kv s) (lock_key e key)) s3 = (Inr True, s4)"
      "lock_write cli ctx tok key (lock_key e key) i s4 = (r, t)"
proof -
  obtain ctx s0 where 0: "context_WithTimeout cli (srv_timeout e) s = (ctx, s0)"
    by (cases "context_WithTimeout cli (srv_timeout e) s")
  obtain w s1 where 1: "rateLimiter_wait cli ctx (rateLimiter e) s0 = (w, s1)"
    by (cases "rateLimiter_wait cli ctx (rateLimiter e) s0")
  obtain g s2 where 2: "cli_Grant cli ctx (lease_ttl (LockTimeout (cfg e))) s1 = (g, s2)"
    by (cases "cli_Grant cli ctx (lease_ttl (LockTimeout (cfg e))) s1")
  obtain x s3 where 3: "cli_Get cli ctx (lock_key e key) False s2 = (x, s3)"
    by (cases "cli_Get cli ctx (lock_key e key) False s2")
  note kvs = ctx_frame [OF 0] limiter_frame [OF 1] grant_frame [OF 2] get_frame [OF 3]
  note times = ctx_mono [OF 0] limiter_mono [OF 1] grant_mono [OF 2] get_mono [OF 3]
  show ?thesis
  proof (cases "w = None \<and> (\<exists>i kvs ok s4. g = Inr i \<and> x = Inr kvs \<and>
      lock_ok_to_set cli e tok kvs s3 = (Inr ok, s4) \<and> ok)")
    case False
    then have "\<exists>err. r = Some err" "kv t = kv s" "now s \<le> now t"
      using assms 0 1 2 3 kvs times
      by (auto simp: lock_acquire_def Let_def dest!: ok_to_set_frame
          split: option.splits sum.splits prod.splits if_splits)
    then show ?thesis using stopped by blast
  next
    case True
    then obtain i kvs s4 where 4: "w = None" "g = Inr i" "x = Inr kvs"
      "lock_ok_to_set cli e tok kvs s3 = (Inr True, s4)" by auto
    moreover have "kvs = point_read (kv s) (lock_key e key)"
      using get_point 3 4(3) kvs(1-3) by metis
    moreover have "i \<noteq> 0" "int64 i" using grant_id 2 4(2) by (auto simp: int64_def)
    moreover have "lock_write cli ctx tok key (lock_key e key) i s4 = (r, t)"
      using assms 0 1 2 3 4 by (simp add: lock_acquire_def)
    ultimately show ?thesis
      using kvs times ok_to_set_frame [OF 4(4)] by (intro settable) auto
  qed
qed

lemma lock_write_effect:
  assumes "lock_write cli ctx tok key lk i s = (r, t)"
  obtains (unchanged) err where "r = Some err" "kv t = kv s" "now s \<le> now t"
  | (written) n ts where "MarshalText n = Some ts" "now s \<le> n" "n \<le> now t"
      "kv t = (kv s)(lk \<mapsto> (lock_value tok key i ts, 0))"
proof -
  obtain n s5 where 5: "clock_Now cli s = (n, s5)" by (cases "clock_Now cli s")
  note n = now_reading [OF 5]
  show ?thesis
  proof (cases "MarshalText n")
    case None
    then have "r = Some (Wrap err_time_marshal ''lock: failed to marshal current UTC time'')" "t = s5"
      using assms 5 by (simp_all add: lock_write_def)
    then show ?thesis
      using now_frame [OF 5] n by (intro unchanged) auto
  next
    case (Some ts)
    obtain p s6 where 6: "cli_Put cli ctx lk (lock_value tok key i ts) s5 = (p, s6)"
      by (cases "cli_Put cli ctx lk (lock_value tok key i ts) s5")
    then have t: "t = s6" "(\<exists>err. p = Inl err) \<longrightarrow> (\<exists>err. r = Some err)"
      using assms 5 Some by (auto simp: lock_write_def lock_value_def split: sum.splits)
    have "kv t = (kv s)(lk \<mapsto> (lock_value tok key i ts, 0)) \<or> (\<exists>err. p = Inl err) \<and> kv t = kv s"
      using put_fail put_done 6 t now_frame [OF 5] by (metis sum.exhaust)
    moreover have "n \<le> now t" using n put_mono [OF 6] t(1) by auto
    ultimately show ?thesis
      using written [OF Some] unchanged t(2) n by (metis order_trans)
  qed
qed

text \<open>
  An attempt writes this client's record, dated between its start and its end, or leaves the
  key space alone.
\<close>

lemma lock_acquire_effect:
  assumes "lock_acquire cli e tok key s = (r, t)"
  obtains (unchanged) err where "r = Some err" "kv t = kv s" "now s \<le> now t"
  | (written) n i ts where "MarshalText n = Some ts" "i \<noteq> 0" "int64 i" "now s \<le> n" "n \<le> now t"
      "kv t = (kv s)(lock_key e key \<mapsto> (lock_value tok key i ts, 0))"
  using assms
proof (cases rule: lock_acquire_steps)
  case (settable ctx i s3 s4)
  from settable(7) show ?thesis
  proof (cases rule: lock_write_effect)
    case (unchanged err)
    then show ?thesis using settable that(1) by auto
  next
    case (written n ts)
    then show ?thesis using settable that(2) [of n ts i] by auto
  qed
qed (rule unchanged)

text \<open>While another client's record is unexpired, no attempt succeeds or changes anything.\<close>

lemma lock_acquire_excluded:
  assumes run: "lock_acquire cli e tok key s = (r, t)"
    and other: "read_lock (kv s) (lock_key e key) = Some (l, obtained)" "Token l \<noteq> tok"
    and timeout: "0 < LockTimeout (cfg e)" "LockTimeout (cfg e) \<le> max_duration"
    and early: "now t < obtained + LockTimeout (cfg e)"
  shows "r \<noteq> None \<and> kv t = kv s \<and> now s \<le> now t"
  using run
proof (cases rule: lock_acquire_steps)
  case (settable ctx i s3 s4)
  then obtain n where n: "clock_Now cli s3 = (n, s4)" "LockTimeout (cfg e) \<le> time_Sub n obtained"
    using other by (auto simp: lock_ok_to_set_def read_lock_def point_read_value
        split: option.splits prod.splits)
  have "n \<le> now t"
    using settable(7) now_reading [OF n(1)] by (cases rule: lock_write_effect) auto
  then show ?thesis
    using n(2) time_Sub_ge_iff [OF timeout] early by auto
qed auto

end

section \<open>With retries\<close>

text \<open>The lock was written by the client, some time between two moments.\<close>

definition lock_written ::
  "etcdsrv \<Rightarrow> string \<Rightarrow> string \<Rightarrow> time \<Rightarrow> time \<Rightarrow> keyspace \<Rightarrow> keyspace \<Rightarrow> bool" where
  "lock_written e tok key a b m m' \<longleftrightarrow>
     (\<exists>n i ts. MarshalText n = Some ts \<and> i \<noteq> 0 \<and> int64 i \<and> a \<le> n \<and> n \<le> b \<and>
       m' = m(lock_key e key \<mapsto> (lock_value tok key i ts, 0)))"

lemma lock_written_read:
  assumes "lock_written e tok key a b m m'" "sanitize tok = tok"
  obtains l n where "read_lock m' (lock_key e key) = Some (l, n)" "Token l = tok" "a \<le> n" "n \<le> b"
    "LeaseID l \<noteq> 0"
  using assms read_lock_written by (fastforce simp: lock_written_def)

lemma lock_written_other:
  "lock_written e tok key a b m m' \<Longrightarrow> x \<noteq> lock_key e key \<Longrightarrow> m' x = m x"
  by (auto simp: lock_written_def)

lemma lock_written_unleased:
  "lock_written e tok key a b m m' \<Longrightarrow> unleased m \<Longrightarrow> unleased m'"
  by (auto simp: lock_written_def)

lemma lock_writtenI:
  "MarshalText n = Some ts \<Longrightarrow> i \<noteq> 0 \<Longrightarrow> int64 i \<Longrightarrow> a \<le> n \<Longrightarrow> n \<le> b \<Longrightarrow>
   m' = m(lock_key e key \<mapsto> (lock_value tok key i ts, 0)) \<Longrightarrow> lock_written e tok key a b m m'"
  unfolding lock_written_def by blast

lemma lock_written_mono:
  assumes "lock_written e tok key a b m m'" "a' \<le> a" "b \<le> b'"
  shows "lock_written e tok key a' b' m m'"
proof -
  obtain n i ts where "MarshalText n = Some ts" "i \<noteq> 0" "int64 i" "a \<le> n" "n \<le> b"
    "m' = m(lock_key e key \<mapsto> (lock_value tok key i ts, 0))"
    using assms(1) unfolding lock_written_def by blast
  then show ?thesis using assms(2,3) by (intro lock_writtenI [of n ts i]) auto
qed

lemma lock_written_again:
  assumes "lock_written e tok key a b m m'" "lock_written e tok key a c m' m''"
  shows "lock_written e tok key a c m m''"
proof -
  obtain n i ts where "MarshalText n = Some ts" "i \<noteq> 0" "int64 i" "a \<le> n" "n \<le> c"
    "m'' = m'(lock_key e key \<mapsto> (lock_value tok key i ts, 0))"
    using assms(2) unfolding lock_written_def by blast
  moreover have "m'(lock_key e key \<mapsto> x) = m(lock_key e key \<mapsto> x)" for x
    using assms(1) by (auto simp: lock_written_def)
  ultimately show ?thesis by (intro lock_writtenI [of n ts i]) auto
qed

context etcd_timed
begin

lemma srv_lock_effect:
  assumes "srv_lock cli e tok key s = (r, t)"
  shows "now s \<le> now t \<and>
    (r \<noteq> None \<and> kv t = kv s \<or> lock_written e tok key (now s) (now t) (kv s) (kv t))"
proof -
  let ?W = "\<lambda>u. lock_written e tok key (now s) (now u) (kv s) (kv u)"
  let ?P = "\<lambda>u. now s \<le> now u \<and> (kv u = kv s \<or> ?W u)"
  have step: "now u \<le> now v \<and> (r' \<noteq> None \<and> kv v = kv s \<or> ?W v)"
    if "?P u" "lock_acquire cli e tok key u = (r', v)" for u r' v
    using that(2)
  proof (cases rule: lock_acquire_effect)
    case (unchanged err)
    then show ?thesis
      using that(1) lock_written_mono [of e tok key "now s" "now u" "kv s" "kv u" "now s" "now v"]
      by auto
  next
    case (written n i ts)
    then have "lock_written e tok key (now u) (now v) (kv u) (kv v)"
      by (intro lock_writtenI [of n ts i]) auto
    then have "lock_written e tok key (now s) (now v) (kv u) (kv v)"
      using that(1) lock_written_mono by blast
    then show ?thesis
      using that(1) written(4,5)
        lock_written_again [of e tok key "now s" "now u" "kv s" "kv u" "now v" "kv v"] by auto
  qed
  show ?thesis
  proof (cases "noBackoff e")
    case True
    then show ?thesis
      using assms step [of s r t] by (auto simp: srv_lock_def srv_execute_def)
  next
    case False
    then have "retried pause (lock_acquire cli e tok key) s (r, t)"
      using assms retry [of "lock_acquire cli e tok key" s srv_backoff]
      by (simp add: srv_lock_def srv_execute_def)
    moreover have "?P (pause v)" if "?P u" "lock_acquire cli e tok key u = (Some err, v)" for u err v
      using step [OF that] that(1) pause_mono [of v] pause_frame [of v]
        lock_written_mono [of e tok key "now s" "now v" "kv s" "kv v" "now s" "now (pause v)"]
      by auto
    ultimately obtain u where "?P u" "lock_acquire cli e tok key u = (r, t)"
      using retried_last [where P = ?P and s = s and r = "(r, t)"] by blast
    then show ?thesis using step [of u r t] by auto
  qed
qed

lemma srv_lock_excluded:
  assumes run: "srv_lock cli e tok key s = (r, t)"
    and other: "read_lock (kv s) (lock_key e key) = Some (l, obtained)" "Token l \<noteq> tok"
    and timeout: "0 < LockTimeout (cfg e)" "LockTimeout (cfg e) \<le> max_duration"
    and early: "now t < obtained + LockTimeout (cfg e)"
  shows "r \<noteq> None \<and> kv t = kv s"
proof (cases "noBackoff e")
  case True
  then show ?thesis
    using run lock_acquire_excluded [OF _ other timeout] early
    by (auto simp: srv_lock_def srv_execute_def)
next
  case False
  let ?op = "lock_acquire cli e tok key"
  have mono: "now u \<le> now v" if "?op u = (r', v)" for u r' v
    using that by (cases rule: lock_acquire_effect) auto
  have later: "retried pause ?op u x \<Longrightarrow> now u \<le> now (snd x)" for u x
  proof (induction rule: retried.induct)
    case (again u err v x)
    then show ?case using mono [OF again.hyps(1)] pause_mono [of v] by linarith
  qed (auto dest: mono)
  have "retried pause ?op u x \<Longrightarrow> kv u = kv s \<Longrightarrow> now (snd x) < obtained + LockTimeout (cfg e) \<Longrightarrow>
      fst x \<noteq> None \<and> kv (snd x) = kv s" for u x
  proof (induction rule: retried.induct)
    case (success u v)
    then show ?case using lock_acquire_excluded [OF _ _ other(2) timeout] other(1) by fastforce
  next
    case (give_up u err v)
    then show ?case using lock_acquire_excluded [OF _ _ other(2) timeout] other(1) by fastforce
  next
    case (again u err v x)
    then have "now v < obtained + LockTimeout (cfg e)"
      using later [OF again.hyps(2)] pause_mono [of v] by linarith
    then have "kv v = kv s"
      using lock_acquire_excluded [OF again.hyps(1) _ other(2) timeout] other(1) again.prems by auto
    then show ?case using again pause_frame by simp
  qed
  moreover have "retried pause ?op s (r, t)"
    using run False retry [of ?op s srv_backoff] by (simp add: srv_lock_def srv_execute_def)
  ultimately show ?thesis using early by fastforce
qed

section \<open>Releasing\<close>

lemma lock_release_effect:
  assumes "lock_release cli e ctx token key s = (r, t)"
  shows "kv t = kv s \<or>
    (\<exists>b l. Option.bind (kv_value (kv s) (lock_key e key)) DecodeString = Some b \<and>
       Unmarshal_Lock b zero_Lock = Some l \<and> Token l = token \<and> kv t = drop_lease (LeaseID l) (kv s))"
proof -
  obtain x s1 where 1: "cli_Get cli ctx (lock_key e key) False s = (x, s1)"
    by (cases "cli_Get cli ctx (lock_key e key) False s")
  have kv1: "kv s1 = kv s" by (rule get_frame [OF 1])
  have x: "xs = point_read (kv s) (lock_key e key)" if "x = Inr xs" for xs
    using get_point 1 that by blast
  show ?thesis
  proof (cases "\<exists>xs y b l. x = Inr xs \<and> kv_value (kv s) (lock_key e key) = Some y \<and>
      DecodeString y = Some b \<and> Unmarshal_Lock b zero_Lock = Some l \<and> Token l = token")
    case False
    then have "t = s1"
      using assms 1 x
      by (auto simp: lock_release_def point_read_value
          split: prod.splits sum.splits list.splits option.splits if_splits)
    then show ?thesis using kv1 by simp
  next
    case True
    then obtain y b l where y: "x = Inr (point_read (kv s) (lock_key e key))"
      "kv_value (kv s) (lock_key e key) = Some y" "DecodeString y = Some b"
      "Unmarshal_Lock b zero_Lock = Some l" "Token l = token"
      using x by blast
    obtain u s2 where 2: "cli_Revoke cli ctx (LeaseID l) s1 = (u, s2)"
      by (cases "cli_Revoke cli ctx (LeaseID l) s1")
    have "t = s2"
      using assms 1 2 y
      by (auto simp: lock_release_def point_read_value split: sum.splits)
    moreover have "kv s2 = kv s1 \<or> kv s2 = drop_lease (LeaseID l) (kv s1)"
      using 2 by (cases u) (auto dest: revoke_done revoke_fail)
    ultimately show ?thesis using y kv1 by auto
  qed
qed

lemma srv_Unlock_retried:
  assumes "srv_Unlock cli e token key s = (r, t)" "P (kv s)"
    and "\<And>ctx u r' v. P (kv u) \<Longrightarrow> lock_release cli e ctx token key u = (r', v) \<Longrightarrow> P (kv v) \<and> Q r' (kv v)"
  shows "P (kv t) \<and> Q r (kv t)"
proof -
  obtain ctx s0 where 0: "context_WithTimeout cli (srv_timeout e) s = (ctx, s0)"
    by (cases "context_WithTimeout cli (srv_timeout e) s")
  then have run: "srv_execute cli e (lock_release cli e ctx token key) s0 = (r, t)" and P: "P (kv s0)"
    using assms(1,2) ctx_frame [OF 0] by (simp_all add: srv_Unlock_def)
  show ?thesis
  proof (cases "noBackoff e")
    case True
    then show ?thesis
      using run assms(3) [OF P] by (simp add: srv_execute_def)
  next
    case False
    then have "retried pause (lock_release cli e ctx token key) s0 (r, t)"
      using run retry [of "lock_release cli e ctx token key" s0 srv_backoff]
      by (simp add: srv_execute_def)
    then have "(\<lambda>(r, t). P (kv t) \<and> Q r (kv t)) (r, t)"
    proof (rule retried_post [where P = "\<lambda>s. P (kv s)"])
      show "P (kv (pause v))" if "P (kv u)" "lock_release cli e ctx token key u = (Some err, v)" for u err v
        using assms(3) [OF that] by (simp add: pause_frame)
      show "case lock_release cli e ctx token key u of (r, t) \<Rightarrow> P (kv t) \<and> Q r (kv t)" if "P (kv u)" for u
        using assms(3) [OF that] by (cases "lock_release cli e ctx token key u") auto
    qed (rule P)
    then show ?thesis by simp
  qed
qed

text \<open>Revoking a lease no key is attached to removes nothing.\<close>

lemma srv_Unlock_unleased:
  assumes "srv_Unlock cli e token key s = (r, t)" "unleased (kv s)"
  shows "kv t = kv s"
  using srv_Unlock_retried [where P = "\<lambda>m. m = kv s" and Q = "\<lambda>_ _. True", OF assms(1) refl]
    lock_release_effect drop_lease_unleased [OF assms(2)]
  by metis

text \<open>Only the owner's token lets a release reach etcd.\<close>

lemma srv_Unlock_foreign:
  assumes "srv_Unlock cli e token key s = (r, t)"
    and "read_lock (kv s) (lock_key e key) = Some (l, n)" "Token l \<noteq> token"
  shows "r \<noteq> None \<and> kv t = kv s"
proof -
  obtain y b where l: "kv_value (kv s) (lock_key e key) = Some y" "DecodeString y = Some b"
    "Unmarshal_Lock b zero_Lock = Some l"
    using assms(2) by (auto simp: read_lock_def split: option.splits)
  have "kv v = kv s \<and> r' \<noteq> None" if "kv u = kv s" "lock_release cli e ctx token key u = (r', v)"
    for ctx u r' v
  proof -
    have "kv v = kv s"
      using lock_release_effect [OF that(2)] that(1) l assms(3) by auto
    moreover have "r' \<noteq> None"
      using that l assms(3)
      by (auto simp: lock_release_def point_read_value
          split: prod.splits sum.splits list.splits option.splits if_splits dest: get_point)
    ultimately show ?thesis by blast
  qed
  then show ?thesis
    using srv_Unlock_retried [where P = "\<lambda>m. m = kv s" and Q = "\<lambda>r _. r \<noteq> None", OF assms(1) refl]
    by blast
qed

text \<open>A record that does not decode blocks everybody: no attempt succeeds or repairs it.\<close>

lemma srv_lock_corrupt:
  assumes "srv_lock cli e tok key s = (r, t)"
    and "kv_value (kv s) (lock_key e key) = Some y" "read_lock (kv s) (lock_key e key) = None"
  shows "r \<noteq> None \<and> kv t = kv s"
proof -
  have step: "kv v = kv s \<and> r' \<noteq> None" if "kv u = kv s" "lock_acquire cli e tok key u = (r', v)"
    for u r' v
    using that(2)
  proof (cases rule: lock_acquire_steps)
    case (settable ctx i s3 s4)
    then show ?thesis
      using that(1) ok_to_set_corrupt [OF assms(2,3)] by metis
  qed (use that(1) in auto)
  show ?thesis
  proof (cases "noBackoff e")
    case True
    then show ?thesis using assms(1) step [of s r t] by (simp add: srv_lock_def srv_execute_def)
  next
    case False
    then have "retried pause (lock_acquire cli e tok key) s (r, t)"
      using assms(1) retry [of "lock_acquire cli e tok key" s srv_backoff]
      by (simp add: srv_lock_def srv_execute_def)
    then obtain u where "kv u = kv s" "lock_acquire cli e tok key u = (r, t)"
      using retried_last [where P = "\<lambda>u. kv u = kv s" and s = s and r = "(r, t)"] step pause_frame
      by (metis (no_types, lifting))
    then show ?thesis using step by blast
  qed
qed

end

section \<open>How often an operation runs\<close>

context etcd_timed
begin

lemma lock_acquire_mono: "lock_acquire cli e tok key s = (r, t) \<Longrightarrow> now s \<le> now t"
  by (erule lock_acquire_effect) auto

lemma lock_release_mono:
  assumes "lock_release cli e ctx token key s = (r, t)"
  shows "now s \<le> now t"
proof -
  obtain x s1 where 1: "cli_Get cli ctx (lock_key e key) False s = (x, s1)"
    by (cases "cli_Get cli ctx (lock_key e key) False s")
  have "t = s1 \<or> (\<exists>i u. cli_Revoke cli ctx i s1 = (u, t))"
    using assms 1
    by (auto simp: lock_release_def split: prod.splits sum.splits list.splits option.splits if_splits)
  then show ?thesis using get_mono [OF 1] revoke_mono by (meson order_trans)
qed

end

text \<open>A release begun after the deadline of its context fails before it reaches etcd, so a
  successful \<open>Unlock\<close> ends in a release begun within \<open>RequestTimeout\<close> of the call.\<close>

context etcd_deadline
begin

lemma lock_release_late:
  assumes "lock_release cli e ctx token key s = (r, t)" "\<not> in_time ctx (now s)"
  shows "r \<noteq> None \<and> kv t = kv s"
proof -
  obtain x s1 where 1: "cli_Get cli ctx (lock_key e key) False s = (x, s1)"
    by (cases "cli_Get cli ctx (lock_key e key) False s")
  then obtain err where "x = Inl err" using get_late assms(2) by blast
  then show ?thesis using assms(1) 1 get_frame [OF 1] by (auto simp: lock_release_def)
qed

lemma srv_Unlock_deadline:
  assumes "srv_Unlock cli e token key s = (None, t)"
    and start: "context_WithTimeout cli (srv_timeout e) s = (ctx, s0)"
  shows "\<exists>u. lock_release cli e ctx token key u = (None, t) \<and> now s0 \<le> now u \<and>
    now u \<le> now s0 + srv_timeout e"
proof -
  obtain n where n: "ctx = Some (n + srv_timeout e)" "n \<le> now s0"
    by (rule ctx_deadline [OF start])
  have run: "srv_execute cli e (lock_release cli e ctx token key) s0 = (None, t)"
    using assms by (simp add: srv_Unlock_def)
  have "\<exists>u. now s0 \<le> now u \<and> lock_release cli e ctx token key u = (None, t)"
  proof (cases "noBackoff e")
    case True
    then show ?thesis using run by (auto simp: srv_execute_def)
  next
    case False
    then have "retried pause (lock_release cli e ctx token key) s0 (None, t)"
      using run retry [of "lock_release cli e ctx token key" s0 srv_backoff]
      by (simp add: srv_execute_def)
    then show ?thesis
    proof (rule retried_last [where P = "\<lambda>u. now s0 \<le> now u"])
      show "now s0 \<le> now (pause v)"
        if "now s0 \<le> now u" "lock_release cli e ctx token key u = (Some err, v)" for u err v
        using that(1) lock_release_mono [OF that(2)] pause_mono [of v] by linarith
    qed simp
  qed
  then obtain u where u: "now s0 \<le> now u" "lock_release cli e ctx token key u = (None, t)" by blast
  then have "in_time ctx (now u)" using lock_release_late by blast
  with n u show ?thesis by auto
qed

end

text \<open>The backoff policy of \<open>execute\<close> allows at most 61 runs of an operation.\<close>

context etcd_paced
begin

lemma execute_attempts:
  assumes "srv_execute cli e op s = (r, t)" and "\<And>s r t. op s = (r, t) \<Longrightarrow> now s \<le> now t"
  shows "\<exists>n \<le> 61. attempts srv_backoff pause now op (now s) n s (r, t)"
proof (cases "noBackoff e")
  case True
  then have "attempts srv_backoff pause now op (now s) 1 s (r, t)"
    using attempts.last_run [of srv_backoff pause now op "now s" s] assms(1)
    by (simp add: srv_execute_def)
  then show ?thesis by (intro exI [of _ 1]) simp
next
  case False
  then obtain n where n: "attempts srv_backoff pause now op (now s) n s (r, t)"
    using assms(1) retry_paced [of srv_backoff op s] by (auto simp: srv_execute_def)
  have "n = 1 \<or> int (n - 1) * Second \<le> 60 * Second"
    using attempts_bound [OF n order.refl assms(2)]
    by (simp add: srv_backoff_def Second_def)
  then have "n \<le> 61"
    by (auto simp: Second_def)
  with n show ?thesis by blast
qed

end

section \<open>On a healthy cluster\<close>

lemma retried_success: "retried pause op s r \<Longrightarrow> op s = (None, t) \<Longrightarrow> r = (None, t)"
  by (induction rule: retried.induct) auto

context etcd_live
begin

lemma ok_to_set_live:
  assumes "healthy s"
    and "kv_value m lk = None \<or>
      (\<exists>l n. read_lock m lk = Some (l, n) \<and> (Token l = tok \<or> n + LockTimeout (cfg e) \<le> now s))"
    and "LockTimeout (cfg e) \<le> max_duration"
  shows "\<exists>t. lock_ok_to_set cli e tok (point_read m lk) s = (Inr True, t) \<and> healthy t \<and>
    now t \<le> now s + latency"
proof -
  obtain n s1 where n: "clock_Now cli s = (n, s1)" "healthy s1" "now s1 \<le> now s + latency"
    using now_live assms(1) by blast
  have "now s \<le> n" using now_reading [OF n(1)] by simp
  then show ?thesis
    using assms(1,2) n time_Sub_ge [OF _ assms(3), of n] latency_nonneg [OF assms(1)]
    by (auto simp: lock_ok_to_set_def read_lock_def point_read_value split: option.splits)
qed

lemma lock_write_live:
  assumes "healthy s" "in_time ctx (now s + 2 * latency)"
  shows "\<exists>t. lock_write cli ctx tok key lk i s = (None, t) \<and> healthy t"
proof -
  obtain n s1 where n: "clock_Now cli s = (n, s1)" "healthy s1" "valid_time n" "now s1 \<le> now s + latency"
    using now_live now_valid assms(1) by blast
  then obtain ts where "MarshalText n = Some ts" by (auto simp: valid_time_def)
  moreover have "in_time ctx (now s1 + latency)" using assms(2) n(4) by (auto elim: in_time_earlier)
  then obtain t where "cli_Put cli ctx lk (lock_value tok key i ts) s1 = (Inr (), t)" "healthy t"
    using put_live n(2) by blast
  ultimately show ?thesis
    using n(1) by (simp add: lock_write_def lock_value_def)
qed

text \<open>A lock that is absent, owned by the client or expired is acquired.\<close>

lemma srv_lock_live:
  assumes "healthy s" and patient: "8 * latency \<le> srv_timeout e"
    and settable: "kv_value (kv s) (lock_key e key) = None \<or>
      (\<exists>l n. read_lock (kv s) (lock_key e key) = Some (l, n) \<and>
             (Token l = tok \<or> n + LockTimeout (cfg e) \<le> now s))"
    and timeout: "LockTimeout (cfg e) \<le> 9000000000 * Second"
  shows "\<exists>t. srv_lock cli e tok key s = (None, t) \<and> healthy t"
proof -
  have small: "LockTimeout (cfg e) \<le> max_duration"
    using timeout by (simp add: max_duration_def Second_def)
  have ttl: "lease_ttl (LockTimeout (cfg e)) \<le> 9000000000"
    using whole_seconds_le [OF timeout] by (simp add: lease_ttl_def)
  note latency = latency_nonneg [OF assms(1)]
  obtain d s0 where 0: "context_WithTimeout cli (srv_timeout e) s = (Some d, s0)" "healthy s0"
    "now s0 + 7 * latency \<le> d" "kv s0 = kv s" "now s \<le> now s0"
    by (rule begin_live [OF assms(1,2)])
  have "in_time (Some d) (now s0 + latency)" using 0(3) latency by simp
  then obtain s1 where 1: "rateLimiter_wait cli (Some d) (rateLimiter e) s0 = (None, s1)" "healthy s1"
    "now s1 \<le> now s0 + latency"
    using limiter_live 0(2) by blast
  have "in_time (Some d) (now s1 + latency)" using 0(3) 1(3) latency by simp
  then obtain i s2 where 2: "cli_Grant cli (Some d) (lease_ttl (LockTimeout (cfg e))) s1 = (Inr i, s2)"
    "healthy s2" "now s2 \<le> now s1 + latency"
    using grant_live 1(2) ttl by blast
  have "in_time (Some d) (now s2 + latency)" using 0(3) 1(3) 2(3) latency by simp
  then obtain xs s3 where 3: "cli_Get cli (Some d) (lock_key e key) False s2 = (Inr xs, s3)"
    "healthy s3" "now s3 \<le> now s2 + latency"
    using get_live 2(2) by blast
  have xs: "xs = point_read (kv s) (lock_key e key)"
    using get_point [OF 3(1)] limiter_frame [OF 1(1)] grant_frame [OF 2(1)] 0(4) by simp
  have "now s \<le> now s3"
    using 0(5) limiter_mono [OF 1(1)] grant_mono [OF 2(1)] get_mono [OF 3(1)] by linarith
  with settable have "kv_value (kv s) (lock_key e key) = None \<or>
      (\<exists>l n. read_lock (kv s) (lock_key e key) = Some (l, n) \<and>
             (Token l = tok \<or> n + LockTimeout (cfg e) \<le> now s3))"
    by (metis order_trans)
  from ok_to_set_live [OF 3(2) this small]
  obtain s4 where 4: "lock_ok_to_set cli e tok xs s3 = (Inr True, s4)" "healthy s4"
    "now s4 \<le> now s3 + latency"
    using xs by blast
  have "in_time (Some d) (now s4 + 2 * latency)" using 0(3) 1(3) 2(3) 3(3) 4(3) latency by simp
  then obtain t where 5: "lock_write cli (Some d) tok key (lock_key e key) i s4 = (None, t)" "healthy t"
    using lock_write_live 4(2) by blast
  have run: "lock_acquire cli e tok key s = (None, t)"
    using 0(1) 1 2 3 4 5 by (simp add: lock_acquire_def)
  have "backoff_Retry cli srv_backoff (lock_acquire cli e tok key) s = (None, t)"
    by (rule retried_success [where op = "lock_acquire cli e tok key" and s = s, OF retry run])
  then show ?thesis
    using run 5(2) by (cases "noBackoff e") (simp_all add: srv_lock_def srv_execute_def)
qed

end

section \<open>Runs on the reference etcd\<close>

lemma default_timeout [simp]:
  "LockTimeout (cfg default_srv) = 300 * Second"
  by (simp add: new_etcdsrv_def default_config_def Minute_def Second_def)

text \<open>The default request timeout leaves time for eight requests.\<close>

lemma default_patient: "8 * 1000 \<le> srv_timeout default_srv"
  by (simp add: new_etcdsrv_def default_config_def Second_def)

lemmas default_patient_simp [simp] = default_patient [simplified]

end
