(* ===== verification/Cluster.thy ===== *)
theory Cluster
  imports Storage Locks
begin

text \<open>
  \<open>src/cluster.go\<close>, the storage methods of certmagic: how the object handed to certmagic delegates to the
  service.  A method called before \<open>Provision\<close> has set the service dereferences a nil
  interface; that panic is the value \<open>None\<close>.
\<close>

section \<open>The cluster object\<close>

record Cluster =
  cl_srv :: "etcdsrv option"
  cl_cfg :: "ClusterConfig option"

record KeyInfo =
  KI_Key :: string
  KI_Modified :: time
  KI_Size :: int
  KI_IsTerminal :: bool

definition cluster_Store :: "'s client \<Rightarrow> Cluster \<Rightarrow> string \<Rightarrow> bytes \<Rightarrow> 's
    \<Rightarrow> (go_error option \<times> 's) option" where
  "cluster_Store cli c key value s = map_option (\<lambda>e. srv_Store cli e key value s) (cl_srv c)"

definition cluster_Load :: "'s client \<Rightarrow> Cluster \<Rightarrow> string \<Rightarrow> 's
    \<Rightarrow> ((go_error + bytes) \<times> 's) option" where
  "cluster_Load cli c key s = map_option (\<lambda>e. srv_Load cli e key s) (cl_srv c)"

definition cluster_Delete :: "'s client \<Rightarrow> Cluster \<Rightarrow> string \<Rightarrow> 's
    \<Rightarrow> (go_error option \<times> 's) option" where
  "cluster_Delete cli c key s = map_option (\<lambda>e. srv_Delete cli e key s) (cl_srv c)"

definition cluster_Exists :: "'s client \<Rightarrow> Cluster \<Rightarrow> string \<Rightarrow> 's \<Rightarrow> (bool \<times> 's) option" where
  "cluster_Exists cli c key s =
     map_option (\<lambda>e. case srv_Metadata cli e key s of
         (Inl err, t) \<Rightarrow> (False, t)
       | (Inr md, t) \<Rightarrow> (True, t)) (cl_srv c)"

definition cluster_List :: "'s client \<Rightarrow> Cluster \<Rightarrow> string \<Rightarrow> bool \<Rightarrow> 's
    \<Rightarrow> ((go_error + string list) \<times> 's) option" where
  "cluster_List cli c pre recursive s =
     map_option (\<lambda>e.
       let pre1 = (if HasPrefix pre ''/'' then pre else ''/'' @ pre);
           pre2 = TrimSuffix pre1 ''/'';
           filters = (if recursive then [FilterRemoveDirectories]
                      else [FilterExactPrefix (pre2 @ ''/'') (srv_prefix e)])
       in srv_List cli e pre2 filters s) (cl_srv c)"

definition cluster_Stat :: "'s client \<Rightarrow> Cluster \<Rightarrow> string \<Rightarrow> 's
    \<Rightarrow> ((go_error + KeyInfo) \<times> 's) option" where
  "cluster_Stat cli c key s =
     map_option (\<lambda>e. case srv_Metadata cli e key s of
         (Inl err, t) \<Rightarrow> (Inl err, t)
       | (Inr md, t) \<Rightarrow>
           (Inr \<lparr> KI_Key = Path md, KI_Modified = Timestamp md, KI_Size = Size md,
                  KI_IsTerminal = (\<not> IsDir md) \<rparr>, t)) (cl_srv c)"

definition cluster_Lock :: "'s client \<Rightarrow> string \<Rightarrow> Cluster \<Rightarrow> string \<Rightarrow> 's
    \<Rightarrow> (go_error option \<times> 's) option" where
  "cluster_Lock cli token c key s = map_option (\<lambda>e. srv_Lock cli e token key s) (cl_srv c)"

definition cluster_Unlock :: "'s client \<Rightarrow> string \<Rightarrow> Cluster \<Rightarrow> string \<Rightarrow> 's
    \<Rightarrow> (go_error option \<times> 's) option" where
  "cluster_Unlock cli token c key s = map_option (\<lambda>e. srv_Unlock cli e token key s) (cl_srv c)"

definition cluster_CertMagicStorage :: "Cluster \<Rightarrow> go_error + Cluster" where
  "cluster_CertMagicStorage c = Inr c"

text \<open>\<open>Validate\<close>: the object is valid once a service is set.\<close>

definition cluster_Validate :: "Cluster \<Rightarrow> go_error option" where
  "cluster_Validate c =
     (if cl_srv c = None then Some (Errorf ''etcd service not initialized'') else None)"

section \<open>Listings of the cluster\<close>

text \<open>
  A directory name is any spelling of its path; trimming one slash at its end does not change
  its path.
\<close>

lemma comps_snoc_slash [simp]: "comps (k @ [slash]) = comps k"
  using comps_append_slash [of k "[]"] by simp

lemma no_dotdot_snoc_slash [simp]: "no_dotdot (k @ [slash]) = no_dotdot k"
  using no_dotdot_append_slash [of k "[]"] by simp

lemma TrimSuffix_slash:
  "comps (TrimSuffix k ''/'') = comps k" "no_dotdot (TrimSuffix k ''/'') = no_dotdot k"
  by (cases k rule: rev_cases; auto simp: TrimSuffix_def)+

text \<open>The argument of \<^verbatim>\<open>List\<close> as the service sees it.\<close>

definition list_arg :: "string \<Rightarrow> string" where
  "list_arg pre = TrimSuffix (if HasPrefix pre ''/'' then pre else ''/'' @ pre) ''/''"

lemma list_arg_comps [simp]:
  "comps (list_arg pre) = comps pre" "no_dotdot (list_arg pre) = no_dotdot pre"
  by (auto simp: list_arg_def TrimSuffix_slash)

lemma cluster_List_alt:
  "cluster_List cli \<lparr> cl_srv = Some e, cl_cfg = c \<rparr> pre recursive s =
     Some (srv_List cli e (list_arg pre)
       (if recursive then [FilterRemoveDirectories]
        else [FilterExactPrefix (list_arg pre @ ''/'') (KeyPrefix (cfg e))]) s)"
  by (simp add: cluster_List_def list_arg_def srv_prefix_def Let_def)

lemma val_at_below:
  assumes "root e \<noteq> []" "p \<noteq> []"
  shows "prefix (val_at e (butlast p)) (val_at e p)"
proof -
  have "root e @ p = (root e @ butlast p) @ [last p]"
    using assms(2) by (metis append.assoc append_butlast_last_id)
  then have "val_at e p = render (root e @ butlast p) @ slash # last p"
    using assms(1) render_snoc [of "root e @ butlast p" "last p"] by (simp add: val_at_def)
  then show ?thesis by (simp add: val_at_def)
qed

context etcd_kv
begin

text \<open>Recursively, every non-empty file at or below a string prefix of the directory.\<close>

lemma cluster_List_recursive:
  assumes "wf_srv e" "root e \<noteq> []" "consistent e (kv s)" "exclusive e (kv s)"
    and "no_dotdot pre" "good_path p" "p \<noteq> []"
    and "cluster_List cli \<lparr> cl_srv = Some e, cl_cfg = c \<rparr> pre True s = Some (Inr xs, t)"
  shows "render p \<in> set xs \<longleftrightarrow>
    (\<exists>v. files e (kv s) p = Some v \<and> v \<noteq> [] \<and> prefix (val_at e (comps pre)) (val_at e p) \<and>
         ''md'' \<notin> set (butlast p))"
  using srv_List_files [OF assms(1-4) _ assms(6,7), of "list_arg pre" "[FilterRemoveDirectories]" xs t]
    assms(5,8)
  by (auto simp: cluster_List_alt FilterRemoveDirectories_def)

text \<open>Otherwise the non-empty files directly in the directory.\<close>

lemma cluster_List_directory:
  assumes "wf_srv e" "root e \<noteq> []" "consistent e (kv s)" "exclusive e (kv s)"
    and "list_all plain_comp d" "list_arg pre = (if d = [] then [] else render d)"
    and "good_path p" "p \<noteq> []"
    and "cluster_List cli \<lparr> cl_srv = Some e, cl_cfg = c \<rparr> pre False s = Some (Inr xs, t)"
  shows "render p \<in> set xs \<longleftrightarrow>
    (\<exists>v. files e (kv s) p = Some v \<and> v \<noteq> [] \<and> butlast p = d \<and> ''md'' \<notin> set d)"
proof -
  have d: "comps pre = d" "no_dotdot pre"
    using list_arg_comps [of pre] assms(5,6) by (auto split: if_splits)
  have filter: "FilterExactPrefix (list_arg pre @ ''/'') (KeyPrefix (cfg e))
      \<lparr> KvKey = val_at e p, KvValue = v \<rparr> \<longleftrightarrow> v \<noteq> [] \<and> butlast p = d" for v
    using FilterExactPrefix_file(2) [of e "butlast p" "last p" d v] assms(1,2,5-8) good_pathD
    by (cases "v = []") (auto simp: FilterExactPrefix_def Let_def)
  have below: "prefix (val_at e d) (val_at e p)" if "butlast p = d"
    using val_at_below [OF assms(2,8)] that by simp
  show ?thesis
    using srv_List_files [OF assms(1-4) _ assms(7,8), of "list_arg pre"
        "[FilterExactPrefix (list_arg pre @ ''/'') (KeyPrefix (cfg e))]" xs t] assms(9) d below
    by (auto simp: cluster_List_alt filter)
qed

text \<open>
  The whole listing of a directory of a tidy key space: its files, and the keys directly in it
  that belong to the reserved areas.
\<close>

lemma cluster_List_shows:
  assumes wf: "wf_srv e" "root e \<noteq> []" and m: "consistent e (kv s)" "tidy e (kv s)"
    and d: "list_all plain_comp d" "list_arg pre = (if d = [] then [] else render d)"
    and run: "cluster_List cli \<lparr> cl_srv = Some e, cl_cfg = c \<rparr> pre False s = Some (Inr xs, t)"
  shows "set xs =
    {render (d @ [x]) | x v. files e (kv s) (d @ [x]) = Some v \<and> v \<noteq> [] \<and> ''md'' \<notin> set d} \<union>
    {render (d @ [x]) | x y. reserved_path (d @ [x]) \<and> kv_value (kv s) (val_at e (d @ [x])) = Some y \<and>
       y \<noteq> [] \<and> ''md'' \<notin> set d}"
proof -
  let ?fs = "[FilterExactPrefix (list_arg pre @ ''/'') (KeyPrefix (cfg e))]"
  have k: "comps pre = d" "no_dotdot pre"
    using list_arg_comps [of pre] d by (auto split: if_splits)
  have selects: "selected e (list_arg pre) ?fs (val_at e p) y \<longleftrightarrow> y \<noteq> [] \<and> butlast p = d"
    if "list_all plain_comp p" "p \<noteq> []" for p y
  proof -
    have "FilterExactPrefix (list_arg pre @ ''/'') (KeyPrefix (cfg e))
        \<lparr> KvKey = val_at e p, KvValue = y \<rparr> \<longleftrightarrow> y \<noteq> [] \<and> butlast p = d"
      using FilterExactPrefix_file(2) [of e "butlast p" "last p" d y] wf d that
      by (cases "y = []") (auto simp: FilterExactPrefix_def Let_def)
    then show ?thesis
      using val_at_below [OF wf(2) that(2)] k by (auto simp: selected_def)
  qed
  have inside: "p \<noteq> [] \<and> ''md'' \<notin> set (butlast p) \<and> y \<noteq> [] \<and> butlast p = d \<longleftrightarrow>
      (\<exists>x. p = d @ [x]) \<and> y \<noteq> [] \<and> ''md'' \<notin> set d" for p :: "string list" and y :: string
    by (cases p rule: rev_cases) auto
  have plain: "list_all plain_comp p \<and> p \<noteq> []" if "reserved_path p" for p
    using that by (simp add: reserved_path_def)
  have files: "list_all plain_comp p" if "files e (kv s) p = Some v" for p v
    using files_good [OF that] good_pathD by blast
  have "srv_List cli e (list_arg pre) ?fs s = (Inr xs, t)"
    using run by (simp add: cluster_List_alt)
  from srv_List_shows [OF wf m _ this] k
  have all: "set xs =
    {render p | p v. files e (kv s) p = Some v \<and> p \<noteq> [] \<and> ''md'' \<notin> set (butlast p) \<and>
       selected e (list_arg pre) ?fs (val_at e p) (EncodeToString v)} \<union>
    {render p | p y. reserved_path p \<and> kv_value (kv s) (val_at e p) = Some y \<and>
       ''md'' \<notin> set (butlast p) \<and> selected e (list_arg pre) ?fs (val_at e p) y}" by simp
  have "{render p | p v. files e (kv s) p = Some v \<and> p \<noteq> [] \<and> ''md'' \<notin> set (butlast p) \<and>
      selected e (list_arg pre) ?fs (val_at e p) (EncodeToString v)} =
    {render (d @ [x]) | x v. files e (kv s) (d @ [x]) = Some v \<and> v \<noteq> [] \<and> ''md'' \<notin> set d}"
  proof -
    have "files e (kv s) p = Some v \<and> p \<noteq> [] \<and> ''md'' \<notin> set (butlast p) \<and>
        selected e (list_arg pre) ?fs (val_at e p) (EncodeToString v) \<longleftrightarrow>
      files e (kv s) p = Some v \<and> (\<exists>x. p = d @ [x]) \<and> v \<noteq> [] \<and> ''md'' \<notin> set d" for p v
      using selects [of p "EncodeToString v"] files [of p v] inside [of p v] by auto
    then show ?thesis by auto
  qed
  moreover have "{render p | p y. reserved_path p \<and> kv_value (kv s) (val_at e p) = Some y \<and>
      ''md'' \<notin> set (butlast p) \<and> selected e (list_arg pre) ?fs (val_at e p) y} =
    {render (d @ [x]) | x y. reserved_path (d @ [x]) \<and> kv_value (kv s) (val_at e (d @ [x])) = Some y \<and>
       y \<noteq> [] \<and> ''md'' \<notin> set d}"
  proof -
    have "reserved_path p \<and> kv_value (kv s) (val_at e p) = Some y \<and> ''md'' \<notin> set (butlast p) \<and>
        selected e (list_arg pre) ?fs (val_at e p) y \<longleftrightarrow>
      reserved_path p \<and> kv_value (kv s) (val_at e p) = Some y \<and> (\<exists>x. p = d @ [x]) \<and> y \<noteq> [] \<and>
        ''md'' \<notin> set d" for p y
      using selects [of p y] plain [of p] inside [of p y] by auto
    then show ?thesis by auto
  qed
  ultimately show ?thesis using all by simp
qed

end

end
