(* ===== verification/Storage_Properties.thy ===== *)
theory Storage_Properties
  imports Cluster
begin

text \<open>
  The properties of the storage half of the service, each over any client that satisfies the
  contract of \<open>Etcd_Client\<close>, and each with a witness on the reference etcd.
\<close>

section \<open>Instances for the witnesses\<close>

lemma etcd_serviceI: "etcd_kv cli kv pause \<Longrightarrow> wf_srv e \<Longrightarrow> etcd_service cli kv pause e"
  by (simp add: etcd_service_def etcd_service_axioms_def)

lemma etcd_live_kv:
  "etcd_live cli kv pause now healthy latency \<Longrightarrow> etcd_kv cli kv pause"
  "etcd_live cli kv pause now healthy latency \<Longrightarrow> etcd_timed cli kv pause now"
  by (simp_all add: etcd_live_def etcd_timed_def)

abbreviation ref_etcd :: "world client" where
  "ref_etcd \<equiv> ref_client 3"

lemma good_key_ab [simp]:
  "good_key ''a/b''" "comps ''a/b'' = [''a'', ''b'']" "good_path [''a'', ''b'']"
  by (simp_all add: good_key_def good_path_def no_dotdot_def comps_def plain_comp_def)

lemma root_default [simp]: "root default_srv = [''caddy'']"
  by (simp add: root_def new_etcdsrv_def default_config_def comps_def)

text \<open>A file stored on the healthy reference etcd, read back.\<close>

lemma ref_stored:
  assumes "good_key k" "length v < 2 ^ 63" "w_healthy w" "consistent default_srv (w_kv w)"
    "exclusive default_srv (w_kv w)" "tidy default_srv (w_kv w)"
  obtains t u where "srv_Store ref_etcd default_srv k v w = (None, t)" "w_healthy t"
    "consistent default_srv (w_kv t)" "exclusive default_srv (w_kv t)"
    "tidy default_srv (w_kv t)"
    "files default_srv (w_kv t) = (files default_srv (w_kv w))(comps k \<mapsto> v)"
    "srv_Load ref_etcd default_srv k t = (Inr v, u)"
proof -
  obtain t where t: "srv_Store ref_etcd default_srv k v w = (None, t)" "w_healthy t"
    using ref_live.Store_live [OF assms(3) default_patient wf_srv_default assms(1)] by blast
  have cases: "consistent default_srv (w_kv t)"
    "files default_srv (w_kv t) = (files default_srv (w_kv w))(comps k \<mapsto> v)"
    using ref_service.store_cases [OF assms(4,1,2) t(1)] by auto
  then have "load_answer default_srv (w_kv t) k = Inr v"
    using load_answer_consistent [OF wf_srv_default assms(1)] by simp
  moreover have "exclusive default_srv (w_kv t)" "tidy default_srv (w_kv t)"
    by (cases rule: ref.srv_Store_effect [OF t(1)];
        use assms(1,5,6) in \<open>auto intro!: exclusive_stored tidy_stored\<close>)+
  ultimately show ?thesis
    using that t cases ref_live.Load_live [OF t(2) default_patient, of 3 k] by auto
qed

section \<open>A store of contents under paths\<close>

text \<open>C1: any sequence of \<open>Store\<close>, \<open>Load\<close> and \<open>Delete\<close> behaves like a map from paths to
  contents, whatever fails: the log of the run is explained by a map in which a failed write
  may or may not have happened, no load ever reports a checksum failure, and the key space
  stays consistent.\<close>

theorem storage_refines_map:
  assumes "etcd_kv cli kv pause" and "wf_srv e" and "consistent e (kv s)"
    and "\<forall>c \<in> set cs. good_key (command_key c) \<and> command_fits c"
    and "run_commands (srv_Store cli e) (srv_Load cli e) (srv_Delete cli e) cs s = (evs, t)"
  shows "explained comps (\<lambda>p. {files e (kv s) p}) evs \<and> consistent e (kv t)"
proof -
  note blob = etcd_service.blob_store [OF etcd_serviceI [OF assms(1,2)]]
  show ?thesis
    by (rule blob_store.run_explained [OF blob assms(3,4,5)]) simp
qed

abbreviation flaky :: world where
  "flaky \<equiv> w_init\<lparr>w_faults := [No_Fault, No_Fault, Lost_Reply, No_Fault, Refused, No_Fault]\<rparr>"

lemma storage_refines_map_witness:
  "explained comps (\<lambda>p. {None})
     (fst (run_commands (srv_Store ref_etcd default_srv) (srv_Load ref_etcd default_srv)
       (srv_Delete ref_etcd default_srv)
       [Store_cmd ''a/b'' ''hi'', Load_cmd ''a/b'', Delete_cmd ''a/b'', Load_cmd ''a/b''] flaky))"
proof -
  obtain evs t where run: "run_commands (srv_Store ref_etcd default_srv)
      (srv_Load ref_etcd default_srv) (srv_Delete ref_etcd default_srv)
      [Store_cmd ''a/b'' ''hi'', Load_cmd ''a/b'', Delete_cmd ''a/b'', Load_cmd ''a/b''] flaky
      = (evs, t)"
    by (cases "run_commands (srv_Store ref_etcd default_srv)
      (srv_Load ref_etcd default_srv) (srv_Delete ref_etcd default_srv)
      [Store_cmd ''a/b'' ''hi'', Load_cmd ''a/b'', Delete_cmd ''a/b'', Load_cmd ''a/b''] flaky")
  have "files default_srv (w_kv flaky) = (\<lambda>p. None)"
    by (simp add: files_def kv_value_def fun_eq_iff)
  with storage_refines_map [OF ref.etcd_kv_axioms wf_srv_default _ _ run]
  have "explained comps (\<lambda>p. {None}) evs" by simp
  then show ?thesis by (simp only: run fst_conv)
qed

lemma store_then_load:
  assumes "etcd_live cli kv pause now healthy latency" and "wf_srv e" and "consistent e (kv s)"
    and "healthy s" and "good_key k" and "length v < 2 ^ 63"
    and "8 * latency \<le> srv_timeout e"
  shows "\<exists>t u. srv_Store cli e k v s = (None, t) \<and> srv_Load cli e k t = (Inr v, u)"
proof -
  note kv = etcd_live_kv(1) [OF assms(1)]
  obtain t where t: "srv_Store cli e k v s = (None, t)" "healthy t"
    using etcd_live.Store_live [OF assms(1,4,7,2,5)] by blast
  have "consistent e (kv t)" "files e (kv t) (comps k) = Some v"
    using etcd_service.store_cases [OF etcd_serviceI [OF kv assms(2)] assms(3,5,6) t(1)] by auto
  then have "load_answer e (kv t) k = Inr v"
    using load_answer_consistent [OF assms(2,5)] by simp
  then show ?thesis
    using t etcd_live.Load_live [OF assms(1) t(2) assms(7), of k] by auto
qed

text \<open>C3: on a healthy cluster \<open>Store\<close> succeeds and \<open>Load\<close> then returns the stored content,
  byte for byte.\<close>

theorem load_returns_stored:
  assumes "etcd_live cli kv pause now healthy latency" and "wf_srv e" and "consistent e (kv s)"
    and "healthy s" and "good_key k" and "length v < 2 ^ 63"
    and "8 * latency \<le> srv_timeout e"
  shows "\<exists>t u. srv_Store cli e k v s = (None, t) \<and> srv_Load cli e k t = (Inr v, u)"
  by (rule store_then_load [OF assms])

lemma load_returns_stored_witness:
  "\<exists>t u. srv_Store ref_etcd default_srv ''a/b'' ''hi'' w_init = (None, t) \<and>
         srv_Load ref_etcd default_srv ''a/b'' t = (Inr ''hi'', u)"
  by (rule load_returns_stored [OF ref_live.etcd_live_axioms]) simp_all

text \<open>C2: whatever the outcome of \<open>Store\<close>, the content and its metadata change together or
  not at all, the consistency of the key space is kept and no other etcd key is touched.\<close>

theorem store_atomic:
  assumes "etcd_kv cli kv pause" and "wf_srv e" and "consistent e (kv s)"
    and "good_key k" and "length v < 2 ^ 63" and "srv_Store cli e k v s = (r, t)"
  shows "consistent e (kv t) \<and>
    (files e (kv t) = (files e (kv s))(comps k \<mapsto> v) \<or> r \<noteq> None \<and> kv t = kv s) \<and>
    (\<forall>x. x \<noteq> val_key e k \<and> x \<noteq> md_key e k \<longrightarrow> kv t x = kv s x)"
  using etcd_service.store_cases [OF etcd_serviceI [OF assms(1,2)] assms(3-6)]
    etcd_kv.srv_Store_other [OF assms(1,6)] by blast

lemma store_atomic_witness:
  "\<exists>r t. srv_Store ref_etcd default_srv ''a/b'' ''hi'' flaky = (r, t) \<and> consistent default_srv (w_kv t)"
  using store_atomic [OF ref.etcd_kv_axioms wf_srv_default, of flaky "''a/b''" "''hi''" 3]
  by (cases "srv_Store ref_etcd default_srv ''a/b'' ''hi'' flaky") simp

text \<open>C30: on a healthy cluster \<open>Delete\<close> succeeds, also for a key that does not exist, and
  \<open>Load\<close> and \<open>Delete\<close> after it answer \<open>NotExist\<close> and success; other files are untouched.\<close>

theorem delete_removes:
  assumes "etcd_live cli kv pause now healthy latency" and "wf_srv e" and "consistent e (kv s)"
    and "healthy s" and "good_key k"
    and "8 * latency \<le> srv_timeout e"
  shows "\<exists>t u w. srv_Delete cli e k s = (None, t) \<and> srv_Load cli e k t = (Inl (NotExist k), u) \<and>
    srv_Delete cli e k u = (None, w) \<and> files e (kv t) = (files e (kv s))(comps k := None)"
proof -
  note kv = etcd_live_kv(1) [OF assms(1)]
  obtain t where t: "srv_Delete cli e k s = (None, t)" "healthy t"
    using etcd_live.Delete_live [OF assms(1,4,6,2,5)] by blast
  have files: "consistent e (kv t)" "files e (kv t) = (files e (kv s))(comps k := None)"
    using etcd_service.delete_cases [OF etcd_serviceI [OF kv assms(2)] assms(3,5) t(1)] by auto
  then have "load_answer e (kv t) k = Inl (NotExist k)"
    using load_answer_consistent [OF assms(2,5)] by simp
  then obtain u where "srv_Load cli e k t = (Inl (NotExist k), u)" "healthy u"
    using etcd_live.Load_live [OF assms(1) t(2) assms(6), of k] by auto
  then show ?thesis
    using t files etcd_live.Delete_live [OF assms(1) _ assms(6,2,5)] by blast
qed

lemma delete_removes_witness:
  "\<exists>t u w. srv_Delete ref_etcd default_srv ''a/b'' w_init = (None, t) \<and>
     srv_Load ref_etcd default_srv ''a/b'' t = (Inl (NotExist ''a/b''), u) \<and>
     srv_Delete ref_etcd default_srv ''a/b'' u = (None, w) \<and>
     files default_srv (w_kv t) = (files default_srv (w_kv w_init))([''a'', ''b''] := None)"
  using delete_removes [OF ref_live.etcd_live_axioms wf_srv_default, of w_init "''a/b''"] by simp

text \<open>C4: \<open>Load\<close> never returns bytes whose SHA-1 differs from the stored hash: what it returns
  is the decoded value and matches the decoded metadata, on any key space, consistent or not.\<close>

theorem load_verifies_hash:
  assumes "etcd_kv cli kv pause" and "srv_Load cli e k s = (Inr v, t)"
  shows "\<exists>md. read_md (kv s) (md_key e k) = Some md \<and> Hash md = sha1_Sum v \<and>
    read_val (kv s) (val_key e k) = Some v \<and> kv t = kv s"
  using etcd_kv.srv_Load_result [OF assms] etcd_kv.srv_Load_frame [OF assms]
  by (auto simp: load_answer_def read_md_def read_val_def unmarshalMDv3_def
      split: option.splits if_splits)

lemma load_verifies_hash_witness:
  "\<exists>s t md. srv_Load ref_etcd default_srv ''a/b'' s = (Inr ''hi'', t) \<and>
     read_md (w_kv s) (md_key default_srv ''a/b'') = Some md \<and> Hash md = sha1_Sum ''hi''"
proof -
  obtain t u where "srv_Load ref_etcd default_srv ''a/b'' t = (Inr ''hi'', u)"
    by (rule ref_stored [of "''a/b''" "''hi''" w_init]) simp_all
  with load_verifies_hash [OF ref.etcd_kv_axioms this] show ?thesis by blast
qed

text \<open>C33: \<open>Load\<close> reports damage: with valid metadata in place, a missing value, a value that
  is not base64 and a value with another hash give three different errors, the one of each
  branch of the code; only the last is a \<open>FailedChecksum\<close>, and none is a \<open>NotExist\<close>.\<close>

theorem load_reports_damage:
  assumes "etcd_live cli kv pause now healthy latency" and "healthy s"
    and "read_md (kv s) (md_key e k) = Some md"
    and "\<forall>v. read_val (kv s) (val_key e k) = Some v \<longrightarrow> sha1_Sum v \<noteq> Hash md"
    and "8 * latency \<le> srv_timeout e"
  shows "\<exists>err t. srv_Load cli e k s = (Inl err, t) \<and>
    err = (case kv_value (kv s) (val_key e k) of
        None \<Rightarrow> Errorf ''load: value not found but metadata exists''
      | Some y \<Rightarrow>
          (case DecodeString y of
            None \<Rightarrow> Wrap err_base64 ''load: failed to decode value''
          | Some _ \<Rightarrow> FailedChecksum k)) \<and>
    \<not> IsNotExistError (Some err) \<and>
    (IsFailedChecksumError (Some err) \<longleftrightarrow> read_val (kv s) (val_key e k) \<noteq> None)"
proof -
  obtain t where "srv_Load cli e k s = (load_answer e (kv s) k, t)"
    using etcd_live.Load_live [OF assms(1,2,5)] by blast
  then show ?thesis
    using assms(3,4)
    by (auto simp: load_answer_def read_md_def read_val_def unmarshalMDv3_def IsNotExistError_def
        IsFailedChecksumError_def split: option.splits bind_splits)
qed

lemma load_reports_damage_witness:
  "\<exists>s err t. srv_Load ref_etcd default_srv ''a/b'' s = (Inl err, t) \<and> \<not> IsNotExistError (Some err)"
proof -
  obtain t u where t: "w_healthy t" "consistent default_srv (w_kv t)"
    "files default_srv (w_kv t) [''a'', ''b''] = Some ''hi''"
    by (rule ref_stored [of "''a/b''" "''hi''" w_init]) simp_all
  then obtain md where md: "read_md (w_kv t) (md_key default_srv ''a/b'') = Some md"
    using consistent_file_md [of default_srv "w_kv t" "[''a'', ''b'']"] files_good [OF t(3)]
      md_key_render [OF wf_srv_default, of "''a/b''"]
    by (auto simp: files_def file_md_def split: if_splits)
  let ?w = "t\<lparr>w_store := filter (\<lambda>x. fst x \<noteq> val_key default_srv ''a/b'') (w_store t)\<rparr>"
  have "w_kv ?w = (w_kv t)(val_key default_srv ''a/b'' := None)"
    by (simp add: map_of_filter_key w_kv_def)
  moreover have "md_key default_srv ''a/b'' \<noteq> val_key default_srv ''a/b''"
    by (simp add: go_path file_keys)
  ultimately show ?thesis
    using load_reports_damage [OF ref_live.etcd_live_axioms, of ?w default_srv "''a/b''" md 3] t(1) md
    by auto
qed

section \<open>Metadata\<close>

text \<open>C31: after a successful \<open>Store\<close>, \<open>Metadata\<close> describes the file: its key as asked for, the
  length and the SHA-1 of the content, not a directory, and a timestamp between the start and
  the end of the \<open>Store\<close>.\<close>

theorem metadata_of_stored:
  assumes "etcd_timed cli kv pause now" and "wf_srv e" and "consistent e (kv s)"
    and "good_key k" and "length v < 2 ^ 63" and "srv_Store cli e k v s = (None, t)"
    and "srv_Metadata cli e k t = (Inr md, u)"
  shows "Path md = k \<and> Size md = int (length v) \<and> Hash md = sha1_Sum v \<and> \<not> IsDir md \<and>
    now s \<le> Timestamp md \<and> Timestamp md \<le> now t"
proof -
  obtain n js where n: "Marshal_Metadata (NewMetadata k v n) = Some js"
    "kv t = stored_kv e (kv s) k v js" "now s \<le> n" "n \<le> now t"
    using etcd_timed.srv_Store_dated [OF assms(1,6)] by metis
  have "int (length v) < int (2 ^ 63)" using assms(5) by (simp only: of_nat_less_iff)
  then have fits: "int64 (int (length v))" by (simp add: int64_def)
  have md: "file_md e (kv t) (comps k) = Some (stored_md k v n)"
    using file_md_stored [OF assms(2,4) n(1) fits] n(2) by simp
  have cons: "consistent e (kv t)"
    using consistent_stored [OF assms(2,4) n(1) fits assms(3)] n(2) by simp
  have "etcd_kv cli kv pause" using assms(1) by (simp add: etcd_timed_def)
  from this assms(2,4) cons assms(7) show ?thesis
    by (cases rule: etcd_kv.srv_Metadata_result) (use md n(3,4) in auto)
qed

lemma metadata_of_stored_witness:
  "\<exists>t u md. srv_Store ref_etcd default_srv ''a/b'' ''hi'' w_init = (None, t) \<and>
     srv_Metadata ref_etcd default_srv ''a/b'' t = (Inr md, u) \<and> Size md = 2 \<and> \<not> IsDir md"
proof -
  obtain t where t: "srv_Store ref_etcd default_srv ''a/b'' ''hi'' w_init = (None, t)" "w_healthy t"
    "consistent default_srv (w_kv t)" "files default_srv (w_kv t) [''a'', ''b''] = Some ''hi''"
    by (rule ref_stored [of "''a/b''" "''hi''" w_init]) simp_all
  obtain r u where r: "srv_Metadata ref_etcd default_srv ''a/b'' t = (r, u)"
    "\<forall>err msg. r \<noteq> Inl (Wrap err msg)"
    using ref_live.Metadata_live [OF t(2) default_patient wf_srv_default _ t(3), of "''a/b''" 3] by auto
  have "file_md default_srv (w_kv t) [''a'', ''b''] \<noteq> None"
    using consistent_file_md [OF t(3), of "[''a'', ''b'']"] t(4)
    by (auto simp: files_def split: if_splits)
  then obtain md where "srv_Metadata ref_etcd default_srv ''a/b'' t = (Inr md, u)"
    using r by (cases rule: ref.srv_Metadata_result [OF wf_srv_default _ t(3) r(1)]) auto
  with metadata_of_stored [OF ref_timed.etcd_timed_axioms wf_srv_default _ _ _ t(1) this]
  show ?thesis using t(1) by auto
qed

text \<open>C32: the metadata of a path that is no file but has files below it is that of a directory:
  its size is the wrapped 64-bit sum of the lengths of the files below it at any depth, its
  timestamp the latest of theirs; a path with neither is \<open>NotExist\<close>.\<close>

theorem metadata_of_directory:
  assumes "etcd_live cli kv pause now healthy latency" and "wf_srv e" and "consistent e (kv s)"
    and "healthy s" and "good_key k" and "files e (kv s) (comps k) = None"
    and "8 * latency \<le> srv_timeout e"
  shows "\<exists>r t. srv_Metadata cli e k s = (r, t) \<and>
    (if below e (kv s) (comps k) = {} then r = Inl (NotExist k)
     else \<exists>md. r = Inr md \<and> IsDir md \<and> Path md = k \<and>
            Size md = wrap64 (\<Sum>p \<in> below e (kv s) (comps k). int (length (the (files e (kv s) p)))) \<and>
            (dir_time e (kv s) (comps k) \<noteq> 0 \<longrightarrow> Timestamp md = dir_time e (kv s) (comps k)))"
proof -
  note kv = etcd_live_kv(1) [OF assms(1)]
  obtain r t where r: "srv_Metadata cli e k s = (r, t)" "\<forall>err msg. r \<noteq> Inl (Wrap err msg)"
    using etcd_live.Metadata_live [OF assms(1,4,7,2,5,3)] by blast
  have "kv_value (kv s) (md_at e (comps k)) = None"
    using consistent_file_md [OF assms(3), of "comps k"] assms(5,6) by fastforce
  then have none: "file_md e (kv s) (comps k) = None"
    by (simp add: file_md_def read_md_def)
  show ?thesis
    by (cases rule: etcd_kv.srv_Metadata_result [OF kv assms(2,5,3) r(1)])
       (use r none in \<open>auto simp: dir_size_def\<close>)
qed

lemma metadata_of_directory_witness:
  "\<exists>t r u. srv_Store ref_etcd default_srv ''a/b'' ''hi'' w_init = (None, t) \<and>
     srv_Metadata ref_etcd default_srv ''a'' t = (r, u) \<and>
     (\<exists>md. r = Inr md \<and> IsDir md \<and> Size md = 2)"
proof -
  obtain t where t: "srv_Store ref_etcd default_srv ''a/b'' ''hi'' w_init = (None, t)" "w_healthy t"
    "consistent default_srv (w_kv t)"
    "files default_srv (w_kv t) = (files default_srv (w_kv w_init))([''a'', ''b''] \<mapsto> ''hi'')"
    by (rule ref_stored [of "''a/b''" "''hi''" w_init]) simp_all
  have files: "files default_srv (w_kv t) = [[''a'', ''b''] \<mapsto> ''hi'']"
    unfolding t(4) by (simp add: files_def kv_value_def fun_eq_iff)
  have key: "good_key ''a''" "comps ''a'' = [''a'']"
    by (simp_all add: good_key_def good_path_def no_dotdot_def comps_def plain_comp_def)
  have below: "below default_srv (w_kv t) [''a''] = {[''a'', ''b'']}"
    by (auto simp: below_def files split: if_splits)
  show ?thesis
    using metadata_of_directory [OF ref_live.etcd_live_axioms wf_srv_default t(3,2) key(1), of 3] t(1)
    by (auto simp: key(2) files below wrap64_def)
qed

section \<open>Listings\<close>



text \<open>The recursive listing of the cluster shows a file exactly if it is stored, not empty,
  its etcd key starts with the bytes of the directory's and no directory on its path is
  called \<^verbatim>\<open>md\<close>.\<close>

theorem cluster_list_recursive:
  assumes "etcd_kv cli kv pause" and "wf_srv e" and "root e \<noteq> []"
    and "consistent e (kv s)" and "exclusive e (kv s)" and "no_dotdot pre"
    and "good_path p" and "p \<noteq> []"
    and "cluster_List cli \<lparr> cl_srv = Some e, cl_cfg = c \<rparr> pre True s = Some (Inr xs, t)"
  shows "render p \<in> set xs \<longleftrightarrow>
    (\<exists>v. files e (kv s) p = Some v \<and> v \<noteq> [] \<and> prefix (val_at e (comps pre)) (val_at e p) \<and>
         ''md'' \<notin> set (butlast p))"
  by (rule etcd_kv.cluster_List_recursive [OF assms])

abbreviation default_cluster :: Cluster where
  "default_cluster \<equiv> \<lparr> cl_srv = Some default_srv, cl_cfg = Some default_config \<rparr>"

lemma cluster_list_recursive_witness:
  "\<exists>t xs u. srv_Store ref_etcd default_srv ''a/b'' ''hi'' w_init = (None, t) \<and>
     cluster_List ref_etcd default_cluster ''a'' True t = Some (Inr xs, u) \<and> ''/a/b'' \<in> set xs"
proof -
  obtain t where t: "srv_Store ref_etcd default_srv ''a/b'' ''hi'' w_init = (None, t)" "w_healthy t"
    "consistent default_srv (w_kv t)" "exclusive default_srv (w_kv t)"
    "files default_srv (w_kv t) [''a'', ''b''] = Some ''hi''"
    by (rule ref_stored [of "''a/b''" "''hi''" w_init]) simp_all
  obtain xs u where xs: "cluster_List ref_etcd default_cluster ''a'' True t = Some (Inr xs, u)"
    using ref_live.List_live [OF t(2)] by (force simp: cluster_List_alt)
  have key: "no_dotdot ''a''" "comps ''a'' = [''a'']"
    by (simp_all add: no_dotdot_def comps_def)
  have "render [''a'', ''b''] \<in> set xs"
    using cluster_list_recursive [OF ref.etcd_kv_axioms wf_srv_default _ t(3,4) key(1) _ _ xs,
        of "[''a'', ''b'']"] t(5)
    by (simp add: val_at_def render_def key(2))
  then show ?thesis using t(1) xs by (auto simp: render_def)
qed

text \<open>C35: under a key prefix other than \<^verbatim>\<open>/\<close> and on a tidy key space, the non-recursive
  listing of a directory written as a clean path consists exactly of the non-empty files
  directly in it, and of the reserved paths directly in it that hold a value (for the directory
  \<^verbatim>\<open>/lock\<close> the lock records); it is empty when the directory or one above it is called
  \<^verbatim>\<open>md\<close>.\<close>

theorem cluster_list_directory:
  assumes "etcd_kv cli kv pause" and "wf_srv e" and "root e \<noteq> []"
    and "consistent e (kv s)" and "tidy e (kv s)"
    and "list_all plain_comp d" and "list_arg pre = (if d = [] then [] else render d)"
    and "cluster_List cli \<lparr> cl_srv = Some e, cl_cfg = c \<rparr> pre False s = Some (Inr xs, t)"
  shows "set xs =
    {render (d @ [x]) | x v. files e (kv s) (d @ [x]) = Some v \<and> v \<noteq> [] \<and> ''md'' \<notin> set d} \<union>
    {render (d @ [x]) | x y. reserved_path (d @ [x]) \<and>
       kv_value (kv s) (val_at e (d @ [x])) = Some y \<and> y \<noteq> [] \<and> ''md'' \<notin> set d}"
  by (rule etcd_kv.cluster_List_shows [OF assms])

lemma cluster_list_directory_witness:
  "\<exists>t xs u. srv_Store ref_etcd default_srv ''a/b'' ''hi'' w_init = (None, t) \<and>
     cluster_List ref_etcd default_cluster ''a'' False t = Some (Inr xs, u) \<and> ''/a/b'' \<in> set xs"
proof -
  obtain t where t: "srv_Store ref_etcd default_srv ''a/b'' ''hi'' w_init = (None, t)" "w_healthy t"
    "consistent default_srv (w_kv t)" "tidy default_srv (w_kv t)"
    "files default_srv (w_kv t) [''a'', ''b''] = Some ''hi''"
    by (rule ref_stored [of "''a/b''" "''hi''" w_init]) simp_all
  obtain xs u where xs: "cluster_List ref_etcd default_cluster ''a'' False t = Some (Inr xs, u)"
    using ref_live.List_live [OF t(2)] by (force simp: cluster_List_alt)
  have arg: "list_arg ''a'' = (if [''a''] = [] then [] else render [''a''])"
    "list_all plain_comp [''a'']"
    by (simp_all add: list_arg_def TrimSuffix_def render_def plain_comp_def suffix_def)
  have "render ([''a''] @ [''b'']) \<in> set xs"
    unfolding cluster_list_directory [OF ref.etcd_kv_axioms wf_srv_default _ t(3,4) arg(2,1) xs, simplified]
    using t(5) by fastforce
  then show ?thesis using t(1) xs by (auto simp: render_def)
qed

text \<open>A file under a directory called \<^verbatim>\<open>md\<close> can be stored and loaded and is in no listing:
  \<open>List\<close> takes it for a metadata entry.\<close>

theorem list_hides_md_directories:
  assumes "etcd_live cli kv pause now healthy latency" and "wf_srv e" and "root e \<noteq> []"
    and "consistent e (kv s)" and "exclusive e (kv s)" and "healthy s"
    and "good_key k" and "length v < 2 ^ 63" and "''md'' \<in> set (butlast (comps k))"
    and "no_dotdot dir"
    and "8 * latency \<le> srv_timeout e"
  shows "\<exists>t xs u w. srv_Store cli e k v s = (None, t) \<and> srv_Load cli e k t = (Inr v, w) \<and>
    srv_List cli e dir fs t = (Inr xs, u) \<and> render (comps k) \<notin> set xs"
proof -
  note kv = etcd_live_kv(1) [OF assms(1)]
  obtain t where t: "srv_Store cli e k v s = (None, t)" "healthy t"
    using etcd_live.Store_live [OF assms(1,6,11,2,7)] by blast
  have cons: "consistent e (kv t)" "files e (kv t) (comps k) = Some v"
    using etcd_service.store_cases [OF etcd_serviceI [OF kv assms(2)] assms(4,7,8) t(1)] by auto
  have excl: "exclusive e (kv t)"
    by (cases rule: etcd_kv.srv_Store_effect [OF kv t(1)])
       (use assms(2,3,5,7) in \<open>auto intro!: exclusive_stored\<close>)
  have "load_answer e (kv t) k = Inr v"
    using load_answer_consistent [OF assms(2,7)] cons by simp
  then obtain w where "srv_Load cli e k t = (Inr v, w)"
    using etcd_live.Load_live [OF assms(1) t(2) assms(11), of k] by auto
  moreover obtain xs u where xs: "srv_List cli e dir fs t = (Inr xs, u)"
    using etcd_live.List_live [OF assms(1) t(2) assms(11)] by blast
  moreover have "comps k \<noteq> []" using assms(9) by auto
  ultimately show ?thesis
    using etcd_kv.srv_List_files [OF kv assms(2,3) cons(1) excl assms(10) good_keyD(2) [OF assms(7)] _ xs]
      assms(9) t(1) by blast
qed

lemma list_hides_md_directories_witness:
  "\<exists>t xs u w. srv_Store ref_etcd default_srv ''a/md/b'' ''hi'' w_init = (None, t) \<and>
     srv_Load ref_etcd default_srv ''a/md/b'' t = (Inr ''hi'', w) \<and>
     srv_List ref_etcd default_srv ''/'' [] t = (Inr xs, u) \<and> ''/a/md/b'' \<notin> set xs"
proof -
  have k: "good_key ''a/md/b''" "comps ''a/md/b'' = [''a'', ''md'', ''b'']"
    by (simp_all add: good_key_def good_path_def no_dotdot_def comps_def plain_comp_def)
  show ?thesis
    using list_hides_md_directories [OF ref_live.etcd_live_axioms wf_srv_default _ _ _ _ k(1),
        of w_init "''hi''" "''/''" 3 "[]"]
    by (simp add: k(2)) (simp add: render_def)
qed

text \<open>A foreign key that starts with the bytes of the prefix but lies outside it, such as
  \<^verbatim>\<open>/caddyfoo\<close> for the prefix \<^verbatim>\<open>/caddy\<close>, is reported by the listing of the root as
  \<^verbatim>\<open>/foo\<close>, a file that does not exist.\<close>

theorem list_reports_foreign_keys:
  assumes "etcd_kv cli kv pause" and "wf_srv e"
    and "kv_value (kv s) (KeyPrefix (cfg e) @ z) = Some v"
    and "z \<noteq> []" and "\<not> HasPrefix z ''/''" and "\<not> sublist ''/md/'' z"
    and "srv_List cli e ''/'' [] s = (Inr xs, t)"
  shows "''/'' @ z \<in> set xs"
proof -
  have "val_at e [] = KeyPrefix (cfg e)"
    using assms(2) by (simp add: val_at_def prefix_render)
  moreover have "comps ''/'' = []" "no_dotdot ''/''"
    by (simp_all add: comps_def no_dotdot_def)
  moreover have "list_entry (length (KeyPrefix (cfg e))) []
      \<lparr> KvKey = KeyPrefix (cfg e) @ z, KvValue = v \<rparr> = Some (''/'' @ z)"
    using assms(4-6) by (simp add: list_entry_def Contains_iff Let_def)
  ultimately show ?thesis
    using etcd_kv.srv_List_result [OF assms(1,7)] list_key [OF assms(2), of "''/''"] assms(3)
    by (metis prefixI sum.distinct(1) sum.inject(2))
qed

abbreviation foreign :: world where
  "foreign \<equiv> w_init\<lparr>w_store := [(''/caddyfoo'', ''x'', 0)]\<rparr>"

lemma foreign_sublist: "\<not> sublist ''/md/'' ''foo''"
  by (auto simp: sublist_def Cons_eq_append_conv)

lemma list_reports_foreign_keys_witness:
  "\<exists>xs t. srv_List ref_etcd default_srv ''/'' [] foreign = (Inr xs, t) \<and> ''/foo'' \<in> set xs"
proof -
  have "w_healthy foreign" by simp
  then obtain xs t where xs: "srv_List ref_etcd default_srv ''/'' [] foreign = (Inr xs, t)"
    using ref_live.List_live [OF _ default_patient] by blast
  have "kv_value (w_kv foreign) (KeyPrefix (cfg default_srv) @ ''foo'') = Some ''x''"
    by (simp add: kv_value_def new_etcdsrv_def default_config_def)
  with list_reports_foreign_keys [OF ref.etcd_kv_axioms wf_srv_default this _ _ foreign_sublist xs]
  show ?thesis using xs by simp
qed

text \<open>With the key prefix \<^verbatim>\<open>/\<close> the test that keeps metadata out of listings does not
  work: the metadata record of every stored file is listed as a file below \<^verbatim>\<open>/md\<close>.\<close>

theorem root_prefix_lists_metadata:
  assumes "etcd_kv cli kv pause" and "wf_srv e" and "root e = []"
    and "consistent e (kv s)" and "files e (kv s) p = Some v" and "p \<noteq> []"
    and "''md'' \<notin> set (butlast p)" and "srv_List cli e ''/'' [] s = (Inr xs, t)"
  shows "render (''md'' # p) \<in> set xs"
proof -
  have p: "good_path p" by (rule files_good [OF assms(5)])
  obtain x where x: "kv_value (kv s) (md_at e p) = Some x"
    using assms(5) by (auto simp: files_def split: if_splits)
  have P: "KeyPrefix (cfg e) = [slash]"
    using prefix_render [OF assms(2)] assms(3) by (simp add: render_def)
  have md: "md_at e p = slash # ''md'' @ render p"
    using render_append [of "[''md'']" p] assms(3,6) by (simp add: md_at_def render_def)
  have "\<not> sublist ''/md/'' (''md'' @ render p)"
  proof
    assume "sublist ''/md/'' (''md'' @ render p)"
    then obtain a b where "''md'' @ render p = a @ ''/md/'' @ b"
      by (auto simp: sublist_def)
    then have "sublist ''/md/'' (render p)"
      by (cases a; cases "tl a") (auto simp: sublist_def)
    then show False
      using md_sublist [OF good_pathD [OF p]] assms(7) by simp
  qed
  then have "list_entry (length (KeyPrefix (cfg e))) [] \<lparr> KvKey = md_at e p, KvValue = x \<rparr> =
      Some (render (''md'' # p))"
    using md assms(3) by (simp add: list_entry_def Contains_iff Let_def P md_at_def)
  moreover have "val_at e [] = [slash]"
    using assms(3) by (simp add: val_at_def render_def)
  moreover have "prefix [slash] (md_at e p)" using md by simp
  moreover have "comps ''/'' = []" "no_dotdot ''/''"
    by (simp_all add: comps_def no_dotdot_def)
  ultimately show ?thesis
    using etcd_kv.srv_List_result [OF assms(1,8)] list_key [OF assms(2), of "''/''"] x
    by (metis sum.distinct(1) sum.inject(2))
qed

abbreviation root_srv :: etcdsrv where
  "root_srv \<equiv> new_etcdsrv (default_config\<lparr>KeyPrefix := ''/''\<rparr>)"

lemma wf_root_srv [simp]: "wf_srv root_srv" "root root_srv = []"
  by (auto intro!: wf_srv_new simp: normal_prefix_def no_dotdot_def comps_def render_def)
     (simp add: root_def new_etcdsrv_def comps_def)

lemma root_patient: "8 * 1000 \<le> srv_timeout root_srv"
  by (simp add: new_etcdsrv_def default_config_def Second_def)

lemma root_prefix_lists_metadata_witness:
  "\<exists>t xs u. srv_Store ref_etcd root_srv ''a/b'' ''hi'' w_init = (None, t) \<and>
     srv_List ref_etcd root_srv ''/'' [] t = (Inr xs, u) \<and> ''/md/a/b'' \<in> set xs"
proof -
  obtain t where t: "srv_Store ref_etcd root_srv ''a/b'' ''hi'' w_init = (None, t)" "w_healthy t"
    using ref_live.Store_live [OF w_init_healthy root_patient wf_root_srv(1)] good_key_ab by blast
  have cons: "consistent root_srv (w_kv t)" "files root_srv (w_kv t) [''a'', ''b''] = Some ''hi''"
    using etcd_service.store_cases [OF etcd_serviceI [OF ref.etcd_kv_axioms wf_root_srv(1)] _ _ _ t(1)]
    by simp_all
  obtain xs u where xs: "srv_List ref_etcd root_srv ''/'' [] t = (Inr xs, u)"
    using ref_live.List_live [OF t(2) root_patient] by blast
  show ?thesis
    using root_prefix_lists_metadata [OF ref.etcd_kv_axioms wf_root_srv cons _ _ xs] t(1) xs
    by (simp add: render_def)
qed

section \<open>Keys\<close>

text \<open>C38: which files share an etcd key, for any two keys without \<^verbatim>\<open>..\<close>: two value keys, or
  two metadata keys, are equal exactly if the paths are; the value key of one file is the
  metadata key of another exactly if its path is \<^verbatim>\<open>md\<close> followed by the other's, and the key of
  a lock exactly if its path is \<^verbatim>\<open>lock\<close> followed by the lock's; no metadata key is the key of a
  lock.\<close>

theorem file_keys_disjoint:
  assumes "wf_srv e" and "no_dotdot a" and "no_dotdot b" and "no_dotdot l"
  shows "(val_key e a = val_key e b \<longleftrightarrow> comps a = comps b) \<and>
    (md_key e a = md_key e b \<longleftrightarrow> comps a = comps b) \<and>
    (val_key e a = md_key e b \<longleftrightarrow> comps a = ''md'' # comps b) \<and>
    (val_key e a = lock_key e l \<longleftrightarrow> comps a = ''lock'' # comps l) \<and>
    md_key e a \<noteq> lock_key e l"
  using key_collisions [OF assms(1,2)] assms(3,4) by blast

lemma file_keys_disjoint_witness:
  "val_key default_srv ''a/b'' \<noteq> val_key default_srv ''c'' \<and>
   val_key default_srv ''a/b'' \<notin> {md_key default_srv ''c'', lock_key default_srv ''c''} \<and>
   val_key default_srv ''lock/c'' = lock_key default_srv ''c''"
proof -
  have k: "no_dotdot ''c''" "comps ''c'' = [''c'']"
    "no_dotdot ''lock/c''" "comps ''lock/c'' = [''lock'', ''c'']"
    by (simp_all add: no_dotdot_def comps_def)
  show ?thesis
    using file_keys_disjoint [of default_srv "''a/b''" "''c''" "''c''"]
      file_keys_disjoint [of default_srv "''lock/c''" "''c''" "''c''"] k by simp
qed

text \<open>The reserved areas are not protected: the value key of \<^verbatim>\<open>md/k\<close> is the metadata key
  of \<^verbatim>\<open>k\<close>, so storing a file there makes the file \<open>k\<close> unreadable.\<close>

theorem md_keys_collide:
  assumes "etcd_live cli kv pause now healthy latency" and "wf_srv e" and "healthy s"
    and "no_dotdot k" and "Unmarshal_Metadata v zero_Metadata = None"
    and "8 * latency \<le> srv_timeout e"
  shows "\<exists>t u. srv_Store cli e (''md/'' @ k) v s = (None, t) \<and>
    srv_Load cli e k t = (Inl (Wrap err_json ''load: failed to unmarshal metadata''), u)"
proof -
  have k: "no_dotdot (''md/'' @ k)" "comps (''md/'' @ k) = ''md'' # comps k"
    using no_dotdot_append_slash [of "''md''" k] comps_append_slash [of "''md''" k] assms(4)
    by simp_all
  have keys: "val_key e (''md/'' @ k) = md_key e k"
    using assms(2,4) k by (simp add: val_key_render md_key_render) (simp add: val_at_def md_at_def)
  have "list_all plain_comp (comps k)" using assms(4) by (rule plain_comps)
  then have ne: "md_key e (''md/'' @ k) \<noteq> md_key e k"
    using assms(2,4) k by (simp add: md_key_render) (simp add: md_at_def render_inject)
  then obtain t where t: "srv_Store cli e (''md/'' @ k) v s = (None, t)" "healthy t"
    using etcd_live.Store_live_keys [OF assms(1,3,6), of "''md/'' @ k" v] keys by auto
  have "kv_value (kv t) (md_key e k) = Some (EncodeToString v)"
    by (cases rule: etcd_kv.srv_Store_effect [OF etcd_live_kv(1) [OF assms(1)] t(1)])
       (use keys ne in \<open>auto simp: stored_kv_def apply_ops_def\<close>)
  then show ?thesis
    using etcd_live.Load_live [OF assms(1) t(2) assms(6), of k] t(1) assms(5)
    by (auto simp: load_answer_def)
qed

lemma md_keys_collide_witness:
  "\<exists>t u. srv_Store ref_etcd default_srv ''md/a/b'' ''hi'' w_init = (None, t) \<and>
     srv_Load ref_etcd default_srv ''a/b'' t
       = (Inl (Wrap err_json ''load: failed to unmarshal metadata''), u)"
proof -
  have "Unmarshal_Metadata ''hi'' zero_Metadata = None"
    by code_simp
  then show ?thesis
    using md_keys_collide [OF ref_live.etcd_live_axioms wf_srv_default w_init_healthy, of "''a/b''" "''hi''" 3]
    by simp
qed

section \<open>The cluster object\<close>

text \<open>C40: on a healthy cluster \<open>Exists\<close> holds exactly for files and for directories with a
  file below them.\<close>

theorem exists_iff_stored:
  assumes "etcd_live cli kv pause now healthy latency" and "wf_srv e" and "consistent e (kv s)"
    and "healthy s" and "good_key k"
    and "8 * latency \<le> srv_timeout e"
  shows "\<exists>t. cluster_Exists cli \<lparr> cl_srv = Some e, cl_cfg = c \<rparr> k s =
    Some (files e (kv s) (comps k) \<noteq> None \<or> below e (kv s) (comps k) \<noteq> {}, t)"
proof -
  note kv = etcd_live_kv(1) [OF assms(1)]
  obtain r t where r: "srv_Metadata cli e k s = (r, t)" "\<forall>err msg. r \<noteq> Inl (Wrap err msg)"
    using etcd_live.Metadata_live [OF assms(1,4,6,2,5,3)] by blast
  have md: "file_md e (kv s) (comps k) \<noteq> None \<longleftrightarrow> files e (kv s) (comps k) \<noteq> None"
    using consistent_file_md [OF assms(3) good_keyD(2) [OF assms(5)]] assms(5)
    by (auto simp: files_def file_md_def read_md_def split: if_splits)
  show ?thesis
    by (cases rule: etcd_kv.srv_Metadata_result [OF kv assms(2,5,3) r(1)])
       (use r md in \<open>auto simp: cluster_Exists_def\<close>)
qed

lemma exists_iff_stored_witness:
  "\<exists>t u. srv_Store ref_etcd default_srv ''a/b'' ''hi'' w_init = (None, t) \<and>
     cluster_Exists ref_etcd default_cluster ''a/b'' t = Some (True, u)"
proof -
  obtain t where t: "srv_Store ref_etcd default_srv ''a/b'' ''hi'' w_init = (None, t)" "w_healthy t"
    "consistent default_srv (w_kv t)" "files default_srv (w_kv t) [''a'', ''b''] = Some ''hi''"
    by (rule ref_stored [of "''a/b''" "''hi''" w_init]) simp_all
  show ?thesis
    using exists_iff_stored [OF ref_live.etcd_live_axioms wf_srv_default t(3,2),
        of "''a/b''" 3 "Some default_config"] t(1,4)
    by auto
qed

text \<open>\<open>Exists\<close> cannot tell a failing request from an absent key: whenever \<open>Metadata\<close> ends
  with any error, the answer is that the key does not exist, while \<open>Stat\<close> passes the error on.\<close>

theorem exists_hides_errors:
  assumes "srv_Metadata cli e k s = (Inl err, t)"
  shows "cluster_Exists cli \<lparr> cl_srv = Some e, cl_cfg = c \<rparr> k s = Some (False, t) \<and>
    cluster_Stat cli \<lparr> cl_srv = Some e, cl_cfg = c \<rparr> k s = Some (Inl err, t)"
  using assms by (simp add: cluster_Exists_def cluster_Stat_def)

lemma exists_hides_errors_witness:
  "\<exists>t u. srv_Store ref_etcd default_srv ''a/b'' ''hi'' w_init = (None, t) \<and>
     cluster_Exists ref_etcd default_cluster ''a/b'' (t\<lparr>w_faults := [Refused]\<rparr>) = Some (False, u)"
proof -
  obtain t where t: "srv_Store ref_etcd default_srv ''a/b'' ''hi'' w_init = (None, t)"
    using ref_live.Store_live [OF w_init_healthy default_patient wf_srv_default, of "''a/b''" 3 "''hi''"] by auto
  have "\<exists>err. fst (srv_Metadata ref_etcd default_srv ''a/b'' (t\<lparr>w_faults := [Refused]\<rparr>)) = Inl err"
    by (simp add: srv_Metadata_def context_WithTimeout_def ref_defs request_def w_step_def Let_def
        w_advance_def)
  then obtain err u where "srv_Metadata ref_etcd default_srv ''a/b'' (t\<lparr>w_faults := [Refused]\<rparr>) =
      (Inl err, u)"
    by (metis prod.collapse)
  from exists_hides_errors [OF this] show ?thesis using t by blast
qed

text \<open>\<open>Stat\<close> of a file reports the key asked for, the stored timestamp and size, and that
  it is terminal; of a directory, that it is not.\<close>

theorem stat_reports_metadata:
  assumes "etcd_live cli kv pause now healthy latency" and "wf_srv e" and "consistent e (kv s)"
    and "healthy s" and "good_key k" and "file_md e (kv s) (comps k) = Some md"
    and "8 * latency \<le> srv_timeout e"
  shows "\<exists>t. cluster_Stat cli \<lparr> cl_srv = Some e, cl_cfg = c \<rparr> k s =
    Some (Inr \<lparr> KI_Key = k, KI_Modified = Timestamp md,
                KI_Size = int (length (the (files e (kv s) (comps k)))), KI_IsTerminal = True \<rparr>, t)"
proof -
  note kv = etcd_live_kv(1) [OF assms(1)]
  obtain r t where r: "srv_Metadata cli e k s = (r, t)" "\<forall>err msg. r \<noteq> Inl (Wrap err msg)"
    using etcd_live.Metadata_live [OF assms(1,4,7,2,5,3)] by blast
  have "kv_value (kv s) (md_at e (comps k)) \<noteq> None"
    using assms(6) by (cases "kv_value (kv s) (md_at e (comps k))")
      (simp_all add: file_md_def read_md_def split: if_splits)
  then have "Size md = int (length (the (files e (kv s) (comps k))))" "\<not> IsDir md"
    using consistent_file_md [OF assms(3) good_keyD(2) [OF assms(5)]] assms(6) by fastforce+
  then show ?thesis
    by (cases rule: etcd_kv.srv_Metadata_result [OF kv assms(2,5,3) r(1)])
       (use r assms(6) in \<open>auto simp: cluster_Stat_def\<close>)
qed

lemma stat_reports_metadata_witness:
  "\<exists>t u i. srv_Store ref_etcd default_srv ''a/b'' ''hi'' w_init = (None, t) \<and>
     cluster_Stat ref_etcd default_cluster ''a/b'' t = Some (Inr i, u) \<and>
     KI_Size i = 2 \<and> KI_IsTerminal i"
proof -
  obtain t where t: "srv_Store ref_etcd default_srv ''a/b'' ''hi'' w_init = (None, t)" "w_healthy t"
    "consistent default_srv (w_kv t)" "files default_srv (w_kv t) [''a'', ''b''] = Some ''hi''"
    by (rule ref_stored [of "''a/b''" "''hi''" w_init]) simp_all
  obtain md where "file_md default_srv (w_kv t) [''a'', ''b''] = Some md"
    using consistent_file_md [OF t(3), of "[''a'', ''b'']"] t(4)
    by (auto simp: files_def split: if_splits)
  then show ?thesis
    using stat_reports_metadata [OF ref_live.etcd_live_axioms wf_srv_default t(3,2),
        of "''a/b''" md 3 "Some default_config"] t(1,4)
    by auto
qed

text \<open>\<open>Validate\<close> accepts the object exactly when its methods do not panic: each of them
  needs the service that \<open>Provision\<close> sets.\<close>

theorem validate_guards_methods:
  "cluster_Validate c = None \<longleftrightarrow>
     cluster_Store cli c k v s \<noteq> None \<and> cluster_Load cli c k s \<noteq> None \<and>
     cluster_Delete cli c k s \<noteq> None \<and> cluster_Exists cli c k s \<noteq> None \<and>
     cluster_List cli c k b s \<noteq> None \<and> cluster_Stat cli c k s \<noteq> None \<and>
     cluster_Lock cli tok c k s \<noteq> None \<and> cluster_Unlock cli tok c k s \<noteq> None"
  by (auto simp: cluster_Validate_def cluster_Store_def cluster_Load_def cluster_Delete_def
      cluster_Exists_def cluster_List_def cluster_Stat_def cluster_Lock_def cluster_Unlock_def)

end
