(* ===== verification/Lock_Properties.thy ===== *)
theory Lock_Properties
  imports Storage_Properties
begin

text \<open>
  The properties of locking for one client, against the contract of the etcd client.  What
  several processes can rely on is in \<open>Shared_Properties\<close>.
\<close>

text \<open>C7: while the lock record of another client is younger than the lock timeout, \<open>lock\<close>
  neither succeeds nor changes anything, however often it is retried and whatever fails.\<close>

theorem lock_excludes_others:
  assumes "etcd_timed cli kv pause now"
    and "srv_lock cli e tok key s = (r, t)"
    and "read_lock (kv s) (lock_key e key) = Some (l, obtained)" and "Token l \<noteq> tok"
    and "0 < LockTimeout (cfg e)" and "LockTimeout (cfg e) \<le> max_duration"
    and "now t < obtained + LockTimeout (cfg e)"
  shows "r \<noteq> None \<and> kv t = kv s"
  by (rule etcd_timed.srv_lock_excluded [OF assms])

text \<open>C8: whatever the outcome of \<open>Lock\<close>, the key space is unchanged or holds, under the
  lock's key only, a record with the token of this process that decodes, dated between the
  start and the end of the call and naming a granted lease; after a success it does hold one.\<close>

theorem lock_records_owner:
  assumes "etcd_timed cli kv pause now" and "init_token rnd = Inr token"
    and "srv_Lock cli e token key s = (r, t)"
  shows "r \<noteq> None \<and> kv t = kv s \<or>
    (\<forall>x. x \<noteq> lock_key e key \<longrightarrow> kv t x = kv s x) \<and>
    (\<exists>l n. read_lock (kv t) (lock_key e key) = Some (l, n) \<and> Token l = token \<and> LeaseID l \<noteq> 0 \<and>
       now s \<le> n \<and> n \<le> now t)"
proof -
  consider "r \<noteq> None \<and> kv t = kv s" | "lock_written e token key (now s) (now t) (kv s) (kv t)"
    using etcd_timed.srv_lock_effect [OF assms(1)] assms(3) unfolding srv_Lock_def by blast
  then show ?thesis
  proof cases
    case 2
    obtain l n where "read_lock (kv t) (lock_key e key) = Some (l, n)" "Token l = token" "now s \<le> n"
      "n \<le> now t" "LeaseID l \<noteq> 0"
      by (rule lock_written_read [OF 2 sanitize_token [OF assms(2)]])
    then show ?thesis using lock_written_other [OF 2] by blast
  qed simp
qed

text \<open>C9: on a healthy cluster, given a \<open>RequestTimeout\<close> that leaves time for the requests, a
  lock that is absent, or held by the same client, or older than the timeout, is acquired.\<close>

theorem lock_available:
  assumes "etcd_live cli kv pause now healthy latency" and "healthy s"
    and "8 * latency \<le> srv_timeout e"
    and "kv_value (kv s) (lock_key e key) = None \<or>
      (\<exists>l n. read_lock (kv s) (lock_key e key) = Some (l, n) \<and>
             (Token l = tok \<or> n + LockTimeout (cfg e) \<le> now s))"
    and "LockTimeout (cfg e) \<le> 9000000000 * Second"
  shows "\<exists>t. srv_lock cli e tok key s = (None, t) \<and> healthy t"
  by (rule etcd_live.srv_lock_live [OF assms])

text \<open>A lock held on the reference etcd.\<close>

lemma ref_locked:
  assumes "sanitize tok = tok"
  obtains t l n where "srv_lock ref_etcd default_srv tok ''k'' w_init = (None, t)" "w_healthy t"
    "read_lock (w_kv t) (lock_key default_srv ''k'') = Some (l, n)" "Token l = tok" "n \<le> w_now t"
    "unleased (w_kv t)"
proof -
  obtain t where t: "srv_lock ref_etcd default_srv tok ''k'' w_init = (None, t)" "w_healthy t"
    using ref_live.srv_lock_live [OF w_init_healthy default_patient, of "''k''" tok 3]
    by (auto simp: kv_value_def Second_def)
  have w: "lock_written default_srv tok ''k'' (w_now w_init) (w_now t) (w_kv w_init) (w_kv t)"
    using ref_timed.srv_lock_effect [OF t(1)] by blast
  obtain l n where l: "read_lock (w_kv t) (lock_key default_srv ''k'') = Some (l, n)" "Token l = tok"
    "n \<le> w_now t"
    by (rule lock_written_read [OF w assms])
  show ?thesis
    by (rule that [OF t l lock_written_unleased [OF w]]) simp
qed

lemma sanitize_a [simp]: "sanitize ''a'' = ''a''" "sanitize ''b'' = ''b''"
  by (simp_all add: sanitize_ascii)

text \<open>A token for the witnesses.\<close>

definition demo_token :: string where
  "demo_token = EncodeToString (replicate 32 (CHR ''x''))"

lemma demo_token_init: "init_token (\<lambda>n. Inr (replicate n (CHR ''x''))) = Inr demo_token"
  by (simp add: init_token_def demo_token_def)

lemma lock_records_owner_witness:
  "\<exists>t l n. srv_Lock ref_etcd default_srv demo_token ''k'' w_init = (None, t) \<and>
     read_lock (w_kv t) (lock_key default_srv ''k'') = Some (l, n) \<and> Token l = demo_token"
proof -
  obtain t where t: "srv_Lock ref_etcd default_srv demo_token ''k'' w_init = (None, t)"
    unfolding srv_Lock_def by (rule ref_locked [OF sanitize_token [OF demo_token_init]])
  show ?thesis
    using lock_records_owner [OF ref_timed.etcd_timed_axioms demo_token_init t] t by auto
qed

lemma lock_available_witness:
  "\<exists>t. srv_lock ref_etcd default_srv ''a'' ''k'' w_init = (None, t) \<and> w_healthy t"
  using lock_available [OF ref_live.etcd_live_axioms w_init_healthy default_patient, of "''k''" "''a''" 3]
  by (simp add: kv_value_def Second_def)

text \<open>C13: \<open>Lock\<close> and \<open>Unlock\<close> return: the policy that \<open>execute\<close> sets (1 s, 5 s, 30 s) allows at
  most 61 runs of an operation, and the answer is that of the last.\<close>

theorem retries_bounded:
  assumes "etcd_paced cli kv pause now"
    and "context_WithTimeout cli (srv_timeout e) s = (ctx, s0)"
  shows "(\<exists>n \<le> 61. attempts srv_backoff pause now (lock_acquire cli e token key) (now s) n s
      (srv_Lock cli e token key s)) \<and>
    (\<exists>n \<le> 61. attempts srv_backoff pause now (lock_release cli e ctx token key) (now s0) n s0
      (srv_Unlock cli e token key s))"
proof -
  have timed: "etcd_timed cli kv pause now" using assms by (simp add: etcd_paced_def)
  note execute = etcd_paced.execute_attempts [OF assms(1) prod.collapse [symmetric]]
  show ?thesis
    unfolding srv_Lock_def srv_lock_def srv_Unlock_def assms(2)
    using execute [OF etcd_timed.lock_acquire_mono [OF timed]]
      execute [OF etcd_timed.lock_release_mono [OF timed]]
    by (simp add: prod.collapse)
qed

lemma retries_bounded_witness:
  "\<exists>n \<le> 61. attempts srv_backoff ref_pause w_now
     (lock_acquire ref_etcd default_srv demo_token ''k'') (w_now w_init) n w_init
     (srv_Lock ref_etcd default_srv demo_token ''k'' w_init)"
  using retries_bounded [OF ref_paced.etcd_paced_axioms]
  by (cases "context_WithTimeout ref_etcd (srv_timeout default_srv) w_init") blast

abbreviation refused_once :: world where
  "refused_once \<equiv> w_init\<lparr>w_faults := [Refused]\<rparr>"

text \<open>C17: the requests of \<open>Unlock\<close> share the context made before the first attempt, so its
  retries end with \<open>RequestTimeout\<close>, whatever time the backoff policy has left: a release begun
  later fails and changes nothing, and a successful \<open>Unlock\<close> ends in one begun in time.\<close>

theorem unlock_retries_share_deadline:
  assumes "etcd_deadline cli kv pause now"
    and "context_WithTimeout cli (srv_timeout e) s = (ctx, s0)"
    and "srv_Unlock cli e token key s = (r, t)"
  shows "(\<forall>u r' v. now s0 + srv_timeout e < now u \<longrightarrow>
       lock_release cli e ctx token key u = (r', v) \<longrightarrow> r' \<noteq> None \<and> kv v = kv u) \<and>
    (r = None \<longrightarrow> (\<exists>u. lock_release cli e ctx token key u = (None, t) \<and>
       now s0 \<le> now u \<and> now u \<le> now s0 + srv_timeout e))"
proof (intro conjI impI allI)
  fix u r' v assume u: "now s0 + srv_timeout e < now u" "lock_release cli e ctx token key u = (r', v)"
  have "etcd_timed cli kv pause now" using assms(1) by (simp add: etcd_deadline_def)
  then obtain n where "ctx = Some (n + srv_timeout e)" "n \<le> now s0"
    using etcd_timed.ctx_deadline [OF _ assms(2)] by metis
  then have "\<not> in_time ctx (now u)" using u(1) by simp
  from etcd_deadline.lock_release_late [OF assms(1) u(2) this]
  show "r' \<noteq> None" "kv v = kv u" by blast+
next
  assume "r = None"
  then show "\<exists>u. lock_release cli e ctx token key u = (None, t) \<and> now s0 \<le> now u \<and>
      now u \<le> now s0 + srv_timeout e"
    using etcd_deadline.srv_Unlock_deadline [OF assms(1) _ assms(2)] assms(3) by blast
qed

text \<open>A release that is refused once and then succeeds.\<close>

lemma unlock_retries_share_deadline_witness:
  "\<exists>ctx s0 t u. context_WithTimeout ref_etcd (srv_timeout default_srv) refused_once = (ctx, s0) \<and>
     srv_Unlock ref_etcd default_srv ''a'' ''k'' refused_once = (None, t) \<and>
     lock_release ref_etcd default_srv ctx ''a'' ''k'' u = (None, t) \<and>
     w_now u \<le> w_now s0 + srv_timeout default_srv"
proof -
  obtain ctx s0 where 0:
    "context_WithTimeout ref_etcd (srv_timeout default_srv) refused_once = (ctx, s0)"
    by (cases "context_WithTimeout ref_etcd (srv_timeout default_srv) refused_once")
  have "fst (srv_Unlock ref_etcd default_srv ''a'' ''k'' refused_once) = None"
    by (simp add: srv_Unlock_def srv_execute_def lock_release_def context_WithTimeout_def ref_defs
        request_def w_step_def Let_def w_advance_def w_init_def point_read_def w_kv_def
        ref_pause_def may_retry_def srv_backoff_def new_etcdsrv_def default_config_def
        Second_def last_instant_def day_ns_def eval_nat_numeral)
  then obtain t where t: "srv_Unlock ref_etcd default_srv ''a'' ''k'' refused_once = (None, t)"
    by (metis prod.collapse)
  from unlock_retries_share_deadline [OF ref_deadline.etcd_deadline_axioms 0 t] 0 t show ?thesis
    by blast
qed

text \<open>The default service without retries.\<close>

abbreviation impatient :: etcdsrv where
  "impatient \<equiv> default_srv\<lparr>noBackoff := True\<rparr>"

text \<open>A reference etcd whose clock does not advance with the requests.\<close>

definition still :: "world \<Rightarrow> world \<Rightarrow> bool" where
  "still w t \<longleftrightarrow> (w_tick w = 0 \<longrightarrow> w_tick t = 0 \<and> w_now t = w_now w)"

lemma still_trans: "still a b \<Longrightarrow> still b c \<Longrightarrow> still a c"
  by (auto simp: still_def)

lemma still_step: "w_step w = (f, w1) \<Longrightarrow> still w w1"
  by (auto simp: still_def w_step_def w_advance_def Let_def split: list.splits)

lemma still_request:
  assumes "request ctx f w = (r, t)" and "\<And>w. still w (snd (f w))"
  shows "still w t"
  using assms(1)
proof (cases rule: request_cases)
  case (answered w1)
  then show ?thesis using still_step still_trans assms(2) [of w1] by (metis snd_conv)
next
  case (unmade err)
  then show ?thesis using still_step by blast
next
  case (lost w1 err)
  then show ?thesis using still_step still_trans assms(2) by metis
qed

lemma still_same [simp]: "still w w"
  by (simp add: still_def)

lemma still_upd [simp]:
  "still w (w\<lparr>w_store := s\<rparr>)" "still w (w\<lparr>w_next := i, w_leases := ls\<rparr>)"
  by (simp_all add: still_def)

lemma still_requests:
  "cli_Get (ref_client n) ctx k p w = (x, t) \<Longrightarrow> still w t"
  "cli_Put (ref_client n) ctx k v w = (y, t) \<Longrightarrow> still w t"
  "cli_Grant (ref_client n) ctx ttl w = (g, t) \<Longrightarrow> still w t"
  "rateLimiter_wait (ref_client n) ctx r w = (o', t) \<Longrightarrow> still w t"
  "cli_Revoke (ref_client n) ctx i w = (y, t) \<Longrightarrow> still w t"
  "clock_Now (ref_client n) w = (m, t) \<Longrightarrow> still w t"
  "context_WithTimeout (ref_client n) d w = (ctx, t) \<Longrightarrow> still w t"
proof -
  show "cli_Get (ref_client n) ctx k p w = (x, t) \<Longrightarrow> still w t"
    by (auto simp: ref_client_def ref_Get_def elim!: still_request)
  show "cli_Put (ref_client n) ctx k v w = (y, t) \<Longrightarrow> still w t"
    by (auto simp: ref_client_def ref_Put_def elim!: still_request)
  show "cli_Grant (ref_client n) ctx ttl w = (g, t) \<Longrightarrow> still w t"
    by (auto simp: ref_client_def ref_Grant_def Let_def elim!: still_request)
  show "rateLimiter_wait (ref_client n) ctx r w = (o', t) \<Longrightarrow> still w t"
    by (auto simp: rateLimiter_wait_def ref_client_def ref_Wait_def split: prod.splits if_splits dest: still_step)
  show "cli_Revoke (ref_client n) ctx i w = (y, t) \<Longrightarrow> still w t"
    by (auto simp: ref_client_def ref_Revoke_def still_def elim!: still_request [unfolded still_def, rule_format])
  show now: "clock_Now (ref_client n) w = (m, t) \<Longrightarrow> still w t" for m
    by (auto simp: ref_client_def ref_Now_def still_def w_advance_def)
  show "context_WithTimeout (ref_client n) d w = (ctx, t) \<Longrightarrow> still w t"
    by (auto simp: context_WithTimeout_def split: prod.splits dest: now)
qed

lemma still_ok: "lock_ok_to_set (ref_client n) e tok kvs w = (x, t) \<Longrightarrow> still w t"
  by (auto simp: lock_ok_to_set_def split: prod.splits option.splits list.splits
      dest: still_requests)

lemma still_write: "lock_write (ref_client n) ctx tok key lk i w = (x, t) \<Longrightarrow> still w t"
  by (auto simp: lock_write_def split: prod.splits sum.splits option.splits
      dest!: still_requests intro: still_trans)

lemma still_acquire:
  assumes "lock_acquire (ref_client n) e tok key w = (r, t)"
  shows "still w t"
proof -
  obtain ctx s0 where 0: "context_WithTimeout (ref_client n) (srv_timeout e) w = (ctx, s0)"
    by (cases "context_WithTimeout (ref_client n) (srv_timeout e) w")
  obtain o' s1 where 1: "rateLimiter_wait (ref_client n) ctx (rateLimiter e) s0 = (o', s1)"
    by (cases "rateLimiter_wait (ref_client n) ctx (rateLimiter e) s0")
  obtain g s2 where 2: "cli_Grant (ref_client n) ctx (lease_ttl (LockTimeout (cfg e))) s1 = (g, s2)"
    by (cases "cli_Grant (ref_client n) ctx (lease_ttl (LockTimeout (cfg e))) s1")
  obtain x s3 where 3: "cli_Get (ref_client n) ctx (lock_key e key) False s2 = (x, s3)"
    by (cases "cli_Get (ref_client n) ctx (lock_key e key) False s2")
  have s3: "still w s0" "still w s1" "still w s2" "still w s3"
    using still_requests(7) [OF 0] still_requests(4) [OF 1] still_requests(3) [OF 2] still_requests(1) [OF 3] still_trans
    by metis+
  show ?thesis
  proof (cases x)
    case (Inl err)
    then show ?thesis
      using assms 0 1 2 3 s3 by (auto simp: lock_acquire_def Let_def split: option.splits sum.splits)
  next
    case (Inr kvs)
    obtain y s4 where 4: "lock_ok_to_set (ref_client n) e tok kvs s3 = (y, s4)"
      by (cases "lock_ok_to_set (ref_client n) e tok kvs s3")
    have s4: "still w s4" using s3(4) still_ok [OF 4] by (rule still_trans)
    have "still w s5" if "lock_write (ref_client n) ctx tok key (lock_key e key) i s4 = (z, s5)" for i z s5
      using s4 still_write [OF that] by (rule still_trans)
    then show ?thesis
      using assms 0 1 2 3 4 s3 s4 Inr
      by (auto simp: lock_acquire_def Let_def split: option.splits sum.splits if_splits)
  qed
qed

lemma still_release: "lock_release (ref_client n) e ctx tok key w = (r, t) \<Longrightarrow> still w t"
  by (auto simp: lock_release_def split: prod.splits sum.splits list.splits option.splits if_splits
      dest!: still_requests intro: still_trans)

lemma still_Unlock:
  assumes "srv_Unlock (ref_client n) impatient tok key w = (r, t)"
  shows "still w t"
proof -
  obtain ctx s0 where 0: "context_WithTimeout (ref_client n) (srv_timeout impatient) w = (ctx, s0)"
    by (cases "context_WithTimeout (ref_client n) (srv_timeout impatient) w")
  with assms have "lock_release (ref_client n) impatient ctx tok key s0 = (r, t)"
    by (simp add: srv_Unlock_def srv_execute_def)
  then show ?thesis
    using still_requests(7) [OF 0] still_release still_trans by blast
qed

lemma lock_excludes_others_witness:
  "\<exists>t n r u. srv_lock ref_etcd default_srv ''a'' ''k'' w_init = (None, t) \<and>
     srv_lock ref_etcd impatient ''b'' ''k'' (t\<lparr>w_tick := 0, w_now := n\<rparr>) = (r, u) \<and> r \<noteq> None"
proof -
  obtain t l n where t: "srv_lock ref_etcd default_srv ''a'' ''k'' w_init = (None, t)"
    "read_lock (w_kv t) (lock_key default_srv ''k'') = Some (l, n)" "Token l = ''a''" "n \<le> w_now t"
    by (rule ref_locked [OF sanitize_a(1)])
  let ?w = "t\<lparr>w_tick := 0, w_now := n\<rparr>"
  obtain r u where run: "srv_lock ref_etcd impatient ''b'' ''k'' ?w = (r, u)"
    by (cases "srv_lock ref_etcd impatient ''b'' ''k'' ?w")
  have "w_now u = n"
    using still_acquire [of 3 impatient "''b''" "''k''" ?w r u] run
    by (simp add: still_def srv_lock_def srv_execute_def)
  moreover have "w_kv ?w = w_kv t" by (simp add: w_kv_def)
  ultimately show ?thesis
    using lock_excludes_others [OF ref_timed.etcd_timed_axioms run, of l n] run t
    by (auto simp: Second_def max_duration_def)
qed

text \<open>\<open>Unlock\<close> with a token other than the owner's fails and changes nothing.\<close>

theorem unlock_needs_owner:
  assumes "etcd_timed cli kv pause now"
    and "read_lock (kv s) (lock_key e key) = Some (l, n)" and "Token l \<noteq> token"
    and "srv_Unlock cli e token key s = (r, t)"
  shows "r \<noteq> None \<and> kv t = kv s"
  by (rule etcd_timed.srv_Unlock_foreign [OF assms(1,4,2,3)])

lemma unlock_needs_owner_witness:
  "\<exists>t r u. srv_lock ref_etcd default_srv ''a'' ''k'' w_init = (None, t) \<and>
     srv_Unlock ref_etcd default_srv ''b'' ''k'' t = (r, u) \<and> r \<noteq> None \<and> w_kv u = w_kv t"
proof -
  obtain t l n where t: "srv_lock ref_etcd default_srv ''a'' ''k'' w_init = (None, t)"
    "read_lock (w_kv t) (lock_key default_srv ''k'') = Some (l, n)" "Token l = ''a''"
    by (rule ref_locked [OF sanitize_a(1)])
  obtain r u where "srv_Unlock ref_etcd default_srv ''b'' ''k'' t = (r, u)"
    by (cases "srv_Unlock ref_etcd default_srv ''b'' ''k'' t")
  with unlock_needs_owner [OF ref_timed.etcd_timed_axioms t(2) _ this] t show ?thesis by auto
qed

text \<open>C14: \<open>Unlock\<close> does not release: the lock's record is written without its lease, so
  revoking the lease deletes nothing.  On a key space of such records, every \<open>Unlock\<close>, also a
  successful one, leaves everything as it was, and another client stays locked out until the
  timeout has passed.\<close>

theorem unlock_does_not_release:
  assumes "etcd_timed cli kv pause now" and "unleased (kv s)"
    and "srv_Unlock cli e token key s = (r, t)"
    and "read_lock (kv s) (lock_key e key) = Some (l, obtained)" and "Token l = token"
    and "tok \<noteq> token" and "srv_lock cli e tok key t = (r', u)"
    and "0 < LockTimeout (cfg e)" and "LockTimeout (cfg e) \<le> max_duration"
    and "now u < obtained + LockTimeout (cfg e)"
  shows "kv t = kv s \<and> r' \<noteq> None"
proof -
  have "kv t = kv s"
    by (rule etcd_timed.srv_Unlock_unleased [OF assms(1,3,2)])
  then show ?thesis
    using etcd_timed.srv_lock_excluded [OF assms(1,7) _ _ assms(8,9,10), of l] assms(4-6) by auto
qed

lemma unlock_does_not_release_witness:
  "\<exists>t n x u r w. srv_lock ref_etcd default_srv ''a'' ''k'' w_init = (None, t) \<and>
     srv_Unlock ref_etcd impatient ''a'' ''k'' (t\<lparr>w_tick := 0, w_now := n\<rparr>) = (x, u) \<and>
     srv_lock ref_etcd impatient ''b'' ''k'' u = (r, w) \<and> r \<noteq> None"
proof -
  obtain t l n where t: "srv_lock ref_etcd default_srv ''a'' ''k'' w_init = (None, t)"
    "read_lock (w_kv t) (lock_key default_srv ''k'') = Some (l, n)" "Token l = ''a''" "n \<le> w_now t"
    "unleased (w_kv t)"
    by (rule ref_locked [OF sanitize_a(1)])
  let ?w = "t\<lparr>w_tick := 0, w_now := n\<rparr>"
  obtain x u where 1: "srv_Unlock ref_etcd impatient ''a'' ''k'' ?w = (x, u)"
    by (cases "srv_Unlock ref_etcd impatient ''a'' ''k'' ?w")
  obtain r w where 2: "srv_lock ref_etcd impatient ''b'' ''k'' u = (r, w)"
    by (cases "srv_lock ref_etcd impatient ''b'' ''k'' u")
  have "still ?w w"
    using still_Unlock [of 3 "''a''" "''k''" ?w x u]
      still_acquire [of 3 impatient "''b''" "''k''" u r w] 1 2 still_trans
    by (simp add: srv_lock_def srv_Unlock_def srv_execute_def)
  then have "w_now w = n" by (simp add: still_def)
  moreover have "w_kv ?w = w_kv t" by (simp add: w_kv_def)
  ultimately have "r \<noteq> None"
    using unlock_does_not_release [OF ref_timed.etcd_timed_axioms _ 1 _ _ _ 2, of l n] t
    by (auto simp: Second_def max_duration_def)
  then show ?thesis using t(1) 1 2 by blast
qed

text \<open>C37: a lock record that does not decode can never be replaced: every \<open>lock\<close> fails and
  leaves it in place, also after the timeout.\<close>

theorem corrupt_lock_blocks:
  assumes "etcd_timed cli kv pause now"
    and "srv_lock cli e tok key s = (r, t)"
    and "kv_value (kv s) (lock_key e key) = Some y" and "read_lock (kv s) (lock_key e key) = None"
  shows "r \<noteq> None \<and> kv t = kv s"
  by (rule etcd_timed.srv_lock_corrupt [OF assms])

abbreviation corrupt :: world where
  "corrupt \<equiv> w_init\<lparr>w_store := [(lock_key default_srv ''k'', ''?'', 0)]\<rparr>"

lemma corrupt_lock_blocks_witness:
  "\<exists>r t. srv_lock ref_etcd default_srv ''a'' ''k'' corrupt = (r, t) \<and> r \<noteq> None"
proof -
  obtain r t where run: "srv_lock ref_etcd default_srv ''a'' ''k'' corrupt = (r, t)"
    by (cases "srv_lock ref_etcd default_srv ''a'' ''k'' corrupt")
  have y: "kv_value (w_kv corrupt) (lock_key default_srv ''k'') = Some ''?''"
    by (simp add: kv_value_def)
  have "DecodeString ''?'' = None" by code_simp
  then have "read_lock (w_kv corrupt) (lock_key default_srv ''k'') = None"
    using y by (simp add: read_lock_def)
  from corrupt_lock_blocks [OF ref_timed.etcd_timed_axioms run y this] run show ?thesis by simp
qed

text \<open>C36: locks and files: \<open>lock\<close> and \<open>Unlock\<close> keep every stored file and the consistency of
  the key space; \<open>Store\<close> and \<open>Delete\<close> of any key without \<^verbatim>\<open>..\<close> keep a lock, unless the path of
  the file is \<^verbatim>\<open>lock\<close> followed by that of the lock: a successful \<open>Delete\<close> of that path removes
  the lock, and a successful \<open>Store\<close> replaces its record by the content of the file.\<close>

theorem locks_and_files_independent:
  assumes "etcd_timed cli kv pause now" and "wf_srv e" and "no_dotdot key" and "no_dotdot k"
    and "unleased (kv s)" and "consistent e (kv s)"
  shows "(srv_lock cli e tok key s = (r, t) \<longrightarrow> files e (kv t) = files e (kv s) \<and> consistent e (kv t)) \<and>
    (srv_Unlock cli e tok key s = (r, t) \<longrightarrow> files e (kv t) = files e (kv s) \<and> consistent e (kv t)) \<and>
    (srv_Store cli e k v s = (r, t) \<longrightarrow> comps k \<noteq> ''lock'' # comps key \<longrightarrow>
      read_lock (kv t) (lock_key e key) = read_lock (kv s) (lock_key e key)) \<and>
    (srv_Delete cli e k s = (r, t) \<longrightarrow> comps k \<noteq> ''lock'' # comps key \<longrightarrow>
      read_lock (kv t) (lock_key e key) = read_lock (kv s) (lock_key e key)) \<and>
    (srv_Delete cli e k s = (None, t) \<longrightarrow> comps k = ''lock'' # comps key \<longrightarrow>
      kv_value (kv t) (lock_key e key) = None) \<and>
    (srv_Store cli e k v s = (None, t) \<longrightarrow> comps k = ''lock'' # comps key \<longrightarrow>
      kv_value (kv t) (lock_key e key) = Some (EncodeToString v))"
proof (intro conjI impI)
  have etcd: "etcd_kv cli kv pause" using assms(1) by (simp add: etcd_timed_def)
  have key: "lock_key e key = lock_at e (comps key)" "list_all plain_comp (comps key)"
    using assms(2,3) by (simp_all add: lock_key_render plain_comps)
  have ne: "lock_key e key \<noteq> val_key e k \<longleftrightarrow> comps k \<noteq> ''lock'' # comps key"
    "lock_key e key \<noteq> md_key e k"
    using key_collisions(4,5) [OF assms(2,4,3)] by auto
  {
    assume "srv_lock cli e tok key s = (r, t)"
    from etcd_timed.srv_lock_effect [OF assms(1) this]
    have "kv t x = kv s x" if "x \<noteq> lock_at e (comps key)" for x
      using that lock_written_other key(1) by metis
    then show "files e (kv t) = files e (kv s)" "consistent e (kv t)"
      using lock_frame [OF assms(2) key(2)] assms(6) by blast+
  next
    assume "srv_Unlock cli e tok key s = (r, t)"
    then have "kv t = kv s" using etcd_timed.srv_Unlock_unleased [OF assms(1) _ assms(5)] by blast
    then show "files e (kv t) = files e (kv s)" "consistent e (kv t)" using assms(6) by simp_all
  next
    assume run: "srv_Store cli e k v s = (r, t)" "comps k \<noteq> ''lock'' # comps key"
    have "kv t (lock_key e key) = kv s (lock_key e key)"
      using ne run by (auto intro: etcd_kv.srv_Store_other [OF etcd])
    then show "read_lock (kv t) (lock_key e key) = read_lock (kv s) (lock_key e key)"
      by (simp add: read_lock_def kv_value_def)
  next
    assume run: "srv_Delete cli e k s = (r, t)" "comps k \<noteq> ''lock'' # comps key"
    have "kv t (lock_key e key) = kv s (lock_key e key)"
      using ne run by (auto intro: etcd_kv.srv_Delete_other [OF etcd])
    then show "read_lock (kv t) (lock_key e key) = read_lock (kv s) (lock_key e key)"
      by (simp add: read_lock_def kv_value_def)
  next
    assume run: "srv_Delete cli e k s = (None, t)" "comps k = ''lock'' # comps key"
    then show "kv_value (kv t) (lock_key e key) = None"
      using ne etcd_kv.srv_Delete_effect [OF etcd run(1)]
      by (auto simp: deleted_kv_def apply_ops_def kv_value_def)
  next
    assume run: "srv_Store cli e k v s = (None, t)" "comps k = ''lock'' # comps key"
    then show "kv_value (kv t) (lock_key e key) = Some (EncodeToString v)"
      using ne by (cases rule: etcd_kv.srv_Store_effect [OF etcd run(1)])
        (auto simp: stored_kv_def apply_ops_def kv_value_def)
  }
qed

lemma locks_and_files_independent_witness:
  "\<exists>t r u. srv_lock ref_etcd default_srv ''a'' ''k'' w_init = (None, t) \<and>
     srv_Store ref_etcd default_srv ''a/b'' ''hi'' t = (r, u) \<and>
     read_lock (w_kv u) (lock_key default_srv ''k'') = read_lock (w_kv t) (lock_key default_srv ''k'') \<and>
     read_lock (w_kv t) (lock_key default_srv ''k'') \<noteq> None"
proof -
  obtain t l n where t: "srv_lock ref_etcd default_srv ''a'' ''k'' w_init = (None, t)"
    "read_lock (w_kv t) (lock_key default_srv ''k'') = Some (l, n)" "unleased (w_kv t)"
    by (rule ref_locked [OF sanitize_a(1)])
  have k: "no_dotdot ''k''" by (simp add: no_dotdot_def)
  have ab: "no_dotdot ''a/b''" by simp
  have other: "comps ''a/b'' \<noteq> ''lock'' # comps ''k''" by simp
  have "consistent default_srv (w_kv t)"
    using locks_and_files_independent [OF ref_timed.etcd_timed_axioms wf_srv_default k ab,
        of w_init] t(1) by simp
  obtain r u where "srv_Store ref_etcd default_srv ''a/b'' ''hi'' t = (r, u)"
    by (cases "srv_Store ref_etcd default_srv ''a/b'' ''hi'' t")
  then show ?thesis
    using locks_and_files_independent [OF ref_timed.etcd_timed_axioms wf_srv_default k ab
        t(3) \<open>consistent default_srv (w_kv t)\<close>] t other by auto
qed

end
