(* ===== verification/Programs.thy ===== *)
theory Programs
  imports Locks
begin

text \<open>
  The operations of the service as programs of requests.  The definitions of \<open>Service\<close> and
  \<open>Locks\<close> run an operation against one client from its first request to its last; several
  processes share one etcd, and between two requests of one the others make theirs.  A
  \<open>prog\<close> is an operation cut at its requests: the next request, and how to go on with the
  answer.  Running such a program against a client is the operation of the service
  (\<open>run_store_prog\<close> and its companions), so interleaving the programs request by request
  (\<open>Shared\<close>) is interleaving the code.
\<close>

section \<open>Programs\<close>

datatype 'r prog =
    Done 'r
  | Get ctx string bool "go_error + KeyValue list \<Rightarrow> 'r prog"
  | Put ctx string string "go_error + unit \<Rightarrow> 'r prog"
  | Txn ctx "etcd_op list" "go_error + bool \<Rightarrow> 'r prog"
  | Grant ctx int "go_error + int \<Rightarrow> 'r prog"
  | Revoke ctx int "go_error + unit \<Rightarrow> 'r prog"
  | Wait ctx Limiter "go_error option \<Rightarrow> 'r prog"
  | Now "time \<Rightarrow> 'r prog"
  | Timeout int "ctx \<Rightarrow> 'r prog"

text \<open>A program alone with a client.\<close>

primrec run :: "'s client \<Rightarrow> 'r prog \<Rightarrow> 's \<Rightarrow> 'r \<times> 's" where
  "run cli (Done r) = (\<lambda>s. (r, s))"
| "run cli (Get ctx k p f) = (\<lambda>s. case cli_Get cli ctx k p s of (x, t) \<Rightarrow> run cli (f x) t)"
| "run cli (Put ctx k v f) = (\<lambda>s. case cli_Put cli ctx k v s of (x, t) \<Rightarrow> run cli (f x) t)"
| "run cli (Txn ctx ops f) = (\<lambda>s. case cli_Txn cli ctx ops s of (x, t) \<Rightarrow> run cli (f x) t)"
| "run cli (Grant ctx ttl f) = (\<lambda>s. case cli_Grant cli ctx ttl s of (x, t) \<Rightarrow> run cli (f x) t)"
| "run cli (Revoke ctx i f) = (\<lambda>s. case cli_Revoke cli ctx i s of (x, t) \<Rightarrow> run cli (f x) t)"
| "run cli (Wait ctx l f) = (\<lambda>s. case limiter_Wait cli ctx l s of (x, t) \<Rightarrow> run cli (f x) t)"
| "run cli (Now f) = (\<lambda>s. case clock_Now cli s of (x, t) \<Rightarrow> run cli (f x) t)"
| "run cli (Timeout d f) = (\<lambda>s. case context_WithTimeout cli d s of (x, t) \<Rightarrow> run cli (f x) t)"

lemma run_map_prog: "run cli (map_prog g p) s = (case run cli p s of (r, t) \<Rightarrow> (g r, t))"
  by (induction p arbitrary: s) (simp_all split: prod.split)

text \<open>One program after another.\<close>

primrec bind_prog :: "'a prog \<Rightarrow> ('a \<Rightarrow> 'b prog) \<Rightarrow> 'b prog" where
  "bind_prog (Done r) g = g r"
| "bind_prog (Get ctx k p f) g = Get ctx k p (\<lambda>x. bind_prog (f x) g)"
| "bind_prog (Put ctx k v f) g = Put ctx k v (\<lambda>x. bind_prog (f x) g)"
| "bind_prog (Txn ctx ops f) g = Txn ctx ops (\<lambda>x. bind_prog (f x) g)"
| "bind_prog (Grant ctx ttl f) g = Grant ctx ttl (\<lambda>x. bind_prog (f x) g)"
| "bind_prog (Revoke ctx i f) g = Revoke ctx i (\<lambda>x. bind_prog (f x) g)"
| "bind_prog (Wait ctx l f) g = Wait ctx l (\<lambda>x. bind_prog (f x) g)"
| "bind_prog (Now f) g = Now (\<lambda>x. bind_prog (f x) g)"
| "bind_prog (Timeout d f) g = Timeout d (\<lambda>x. bind_prog (f x) g)"

lemma run_bind_prog: "run cli (bind_prog p g) s = (case run cli p s of (r, t) \<Rightarrow> run cli (g r) t)"
  by (induction p arbitrary: s) (simp_all split: prod.split)

lemma map_prog_bind: "map_prog g p = bind_prog p (\<lambda>r. Done (g r))"
  by (induction p) (simp_all add: fun_eq_iff)

text \<open>\<open>execute\<close> with at most \<open>n\<close> retries: a failed run is followed by another one, under the
  policy of the backoff, which only takes time, until one succeeds or it gives up.\<close>

primrec retry_prog :: "nat \<Rightarrow> go_error option prog \<Rightarrow> go_error option prog" where
  "retry_prog 0 p = p"
| "retry_prog (Suc n) p = bind_prog p (\<lambda>r. case r of None \<Rightarrow> Done None | Some err \<Rightarrow> retry_prog n p)"

lemma run_retry_prog: "retried (\<lambda>t. t) (run cli p) s (run cli (retry_prog n p) s)"
proof (induction n arbitrary: s)
  case 0
  show ?case
    by (cases "run cli p s"; cases "fst (run cli p s)") (auto intro: retried.success retried.give_up)
next
  case (Suc n)
  obtain r t where r: "run cli p s = (r, t)" by (cases "run cli p s")
  show ?case
  proof (cases r)
    case None
    then show ?thesis using r by (auto simp: run_bind_prog intro: retried.success)
  next
    case (Some err)
    then show ?thesis using r Suc.IH [of t] by (auto simp: run_bind_prog intro: retried.again)
  qed
qed

text \<open>A retried program in the middle of a run, with \<open>n\<close> retries left.\<close>

definition resume_prog ::
  "nat \<Rightarrow> go_error option prog \<Rightarrow> go_error option prog \<Rightarrow> go_error option prog" where
  "resume_prog n p x =
     (case n of 0 \<Rightarrow> x
      | Suc m \<Rightarrow> bind_prog x (\<lambda>r. case r of None \<Rightarrow> Done None | Some err \<Rightarrow> retry_prog m p))"

lemma retry_resume: "retry_prog n p = resume_prog n p p"
  by (cases n) (simp_all add: resume_prog_def)

lemma resume_Done [simp]:
  "resume_prog n p (Done None) = Done None"
  "resume_prog 0 p x = x"
  "resume_prog (Suc n) p (Done (Some err)) = resume_prog n p p"
  by (simp_all add: resume_prog_def retry_resume split: nat.split)

section \<open>Files\<close>

definition store_prog :: "etcdsrv \<Rightarrow> string \<Rightarrow> bytes \<Rightarrow> go_error option prog" where
  "store_prog e key value =
     Now (\<lambda>now.
     Timeout (srv_timeout e) (\<lambda>ctx.
     Get ctx (md_key e key) False (\<lambda>x. case x of
       Inl err \<Rightarrow> Done (Some (Wrap err ''store: failed to check metadata''))
     | Inr kvs \<Rightarrow>
     Wait ctx (limiter (rateLimiter e)) (\<lambda>w. case w of
       Some err \<Rightarrow> Done (Some err)
     | None \<Rightarrow>
     (case store_ops (val_key e key) (md_key e key) (NewMetadata key value now) value of
       Inl err \<Rightarrow> Done (Some err)
     | Inr ops \<Rightarrow>
     Txn ctx ops (\<lambda>y. case y of
       Inl err \<Rightarrow> Done (Some (Wrap err ''store: failed to commit transaction''))
     | Inr succeeded \<Rightarrow>
         if \<not> succeeded then Done (Some (Errorf ''store: transaction failed'')) else Done None))))))"

text \<open>\<open>Load\<close> after its first request, with the decoded metadata.\<close>

definition load_rest :: "etcdsrv \<Rightarrow> ctx \<Rightarrow> string \<Rightarrow> Metadata \<Rightarrow> (go_error + bytes) prog" where
  "load_rest e ctx key md =
     Get ctx (val_key e key) False (\<lambda>x. Done (case x of
       Inl err \<Rightarrow> Inl (Wrap err ''load: failed to get value'')
     | Inr [] \<Rightarrow> Inl (Errorf ''load: value not found but metadata exists'')
     | Inr (y # _) \<Rightarrow>
         (case DecodeString (KvValue y) of
            None \<Rightarrow> Inl (Wrap err_base64 ''load: failed to decode value'')
          | Some value \<Rightarrow>
              if sha1_Sum value \<noteq> Hash md then Inl (FailedChecksum key) else Inr value)))"

definition load_prog :: "etcdsrv \<Rightarrow> string \<Rightarrow> (go_error + bytes) prog" where
  "load_prog e key =
     Timeout (srv_timeout e) (\<lambda>ctx.
     Get ctx (md_key e key) False (\<lambda>x. case x of
       Inl err \<Rightarrow> Done (Inl (Wrap err ''load: failed to get metadata''))
     | Inr [] \<Rightarrow> Done (Inl (NotExist key))
     | Inr (y # _) \<Rightarrow>
         (case DecodeString (KvValue y) of
            None \<Rightarrow> Done (Inl (Wrap err_base64 ''load: failed to decode metadata''))
          | Some b \<Rightarrow>
              (case Unmarshal_Metadata b zero_Metadata of
                 None \<Rightarrow> Done (Inl (Wrap err_json ''load: failed to unmarshal metadata''))
               | Some md \<Rightarrow> load_rest e ctx key md))))"

definition delete_prog :: "etcdsrv \<Rightarrow> string \<Rightarrow> go_error option prog" where
  "delete_prog e key =
     Timeout (srv_timeout e) (\<lambda>ctx.
     Txn ctx [OpDelete (val_key e key), OpDelete (md_key e key)] (\<lambda>x. case x of
       Inl err \<Rightarrow> Done (Some (Wrap err ''delete: failed to commit transaction''))
     | Inr succeeded \<Rightarrow>
         if \<not> succeeded then Done (Some (Errorf ''delete: transaction failed'')) else Done None))"

definition metadata_prog :: "etcdsrv \<Rightarrow> string \<Rightarrow> (go_error + Metadata) prog" where
  "metadata_prog e key =
     Timeout (srv_timeout e) (\<lambda>ctx.
     Get ctx (md_key e key) False (\<lambda>x. case x of
       Inl err \<Rightarrow> Done (Inl (Wrap err ''metadata: failed to get metadata''))
     | Inr (y # _) \<Rightarrow>
         (case DecodeString (KvValue y) of
            None \<Rightarrow> Done (Inl (Wrap err_base64 ''metadata: failed to decode metadata''))
          | Some b \<Rightarrow>
              (case Unmarshal_Metadata b zero_Metadata of
                 None \<Rightarrow> Done (Inl (Wrap err_json ''metadata: failed to unmarshal metadata''))
               | Some md \<Rightarrow> Done (Inr (md\<lparr>Path := key\<rparr>))))
     | Inr [] \<Rightarrow>
     Get ctx (md_key e key @ ''/'') True (\<lambda>d. case d of
       Inl err \<Rightarrow> Done (Inl (Wrap err ''metadata: failed to get directory contents''))
     | Inr [] \<Rightarrow> Done (Inl (NotExist key))
     | Inr kvs \<Rightarrow>
         (let md = sum_children kvs (zero_Metadata\<lparr>Path := key, IsDir := True, Timestamp := 0\<rparr>) in
          if Timestamp md = 0 then Now (\<lambda>t. Done (Inr (md\<lparr>Timestamp := t\<rparr>))) else Done (Inr md)))))"

definition list_prog :: "etcdsrv \<Rightarrow> string \<Rightarrow> kv_filter list \<Rightarrow> (go_error + string list) prog" where
  "list_prog e key filters =
     Timeout (srv_timeout e) (\<lambda>ctx.
     Get ctx (path_Join [KeyPrefix (cfg e), if HasPrefix key ''/'' then key else ''/'' @ key]) True
       (\<lambda>x. Done (case x of
          Inl err \<Rightarrow> Inl (Wrap err ''List: failed to get keys'')
        | Inr kvs \<Rightarrow> Inr (list_loop (length (KeyPrefix (cfg e))) filters [] kvs))))"

section \<open>Locks\<close>

text \<open>The request that writes the record, the clock reading before it, the decision, the read.\<close>

definition put_prog :: "etcdsrv \<Rightarrow> ctx \<Rightarrow> string \<Rightarrow> string \<Rightarrow> int \<Rightarrow> string \<Rightarrow> go_error option prog" where
  "put_prog e ctx tok key i ts =
     Put ctx (lock_key e key) (lock_value tok key i ts) (\<lambda>x. Done (case x of
       Inl err \<Rightarrow> Some (Wrap err ''failed to get lock'')
     | Inr _ \<Rightarrow> None))"

definition stamp_prog :: "etcdsrv \<Rightarrow> ctx \<Rightarrow> string \<Rightarrow> string \<Rightarrow> int \<Rightarrow> go_error option prog" where
  "stamp_prog e ctx tok key i =
     Now (\<lambda>n. case MarshalText n of
       None \<Rightarrow> Done (Some (Wrap err_time_marshal ''lock: failed to marshal current UTC time''))
     | Some ts \<Rightarrow> put_prog e ctx tok key i ts)"

definition decide_prog ::
  "etcdsrv \<Rightarrow> ctx \<Rightarrow> string \<Rightarrow> string \<Rightarrow> int \<Rightarrow> KeyValue list \<Rightarrow> go_error option prog" where
  "decide_prog e ctx tok key i kvs =
     (case kvs of
        [] \<Rightarrow> stamp_prog e ctx tok key i
      | x # _ \<Rightarrow>
          (case DecodeString (KvValue x) of
             None \<Rightarrow>
               Done (Some (Wrap err_base64 ''lock: failed to decode base64 lock representation''))
           | Some b \<Rightarrow>
               (case Unmarshal_Lock b zero_Lock of
                  None \<Rightarrow> Done (Some (Wrap err_json ''lock: failed to unmarshal existing lock''))
                | Some l \<Rightarrow>
                    (case UnmarshalText (Obtained l) of
                       None \<Rightarrow> Done (Some (Wrap err_time ''lock: failed to unmarshal time''))
                     | Some lockTime \<Rightarrow>
                         Now (\<lambda>n.
                           if Token l = tok \<or> LockTimeout (cfg e) \<le> time_Sub n lockTime
                           then stamp_prog e ctx tok key i
                           else Done (Some (LockError key (LockTimeout (cfg e))
                                        (Some (Errorf ''lock already exists'')))))))))"

definition read_prog :: "etcdsrv \<Rightarrow> ctx \<Rightarrow> string \<Rightarrow> string \<Rightarrow> int \<Rightarrow> go_error option prog" where
  "read_prog e ctx tok key i =
     Get ctx (lock_key e key) False (\<lambda>x. case x of
       Inl err \<Rightarrow> Done (Some (Wrap err ''lock: failed to get existing lock''))
     | Inr kvs \<Rightarrow> decide_prog e ctx tok key i kvs)"

definition grant_prog :: "etcdsrv \<Rightarrow> ctx \<Rightarrow> string \<Rightarrow> string \<Rightarrow> go_error option prog" where
  "grant_prog e ctx tok key =
     Grant ctx (lease_ttl (LockTimeout (cfg e))) (\<lambda>g. case g of
       Inl err \<Rightarrow> Done (Some err)
     | Inr i \<Rightarrow> read_prog e ctx tok key i)"

definition wait_prog :: "etcdsrv \<Rightarrow> ctx \<Rightarrow> string \<Rightarrow> string \<Rightarrow> go_error option prog" where
  "wait_prog e ctx tok key =
     Wait ctx (limiter (rateLimiter e)) (\<lambda>w. case w of
       Some err \<Rightarrow> Done (Some err)
     | None \<Rightarrow> grant_prog e ctx tok key)"

definition lock_prog :: "etcdsrv \<Rightarrow> string \<Rightarrow> string \<Rightarrow> go_error option prog" where
  "lock_prog e tok key = Timeout (srv_timeout e) (\<lambda>ctx. wait_prog e ctx tok key)"

definition release_prog :: "etcdsrv \<Rightarrow> ctx \<Rightarrow> string \<Rightarrow> string \<Rightarrow> go_error option prog" where
  "release_prog e ctx token key =
     Get ctx (lock_key e key) False (\<lambda>x. case x of
       Inl err \<Rightarrow> Done (Some (Wrap err ''failed to get lock info''))
     | Inr [] \<Rightarrow> Done None
     | Inr (y # _) \<Rightarrow>
         (case DecodeString (KvValue y) of
            None \<Rightarrow> Done (Some (Wrap err_base64 ''failed to decode lock''))
          | Some b \<Rightarrow>
              (case Unmarshal_Lock b zero_Lock of
                 None \<Rightarrow> Done (Some (Wrap err_json ''failed to unmarshal lock''))
               | Some l \<Rightarrow>
                   if Token l \<noteq> token
                   then Done (Some (Errorf ''cannot unlock - lock owned by different client''))
                   else Revoke ctx (LeaseID l) (\<lambda>u. Done (case u of
                     Inl err \<Rightarrow> Some (Wrap err ''failed to revoke lease'')
                   | Inr _ \<Rightarrow> None)))))"

text \<open>The whole calls: \<open>Lock\<close> makes a context per attempt, \<open>Unlock\<close> one for all of them.\<close>

definition Lock_prog :: "etcdsrv \<Rightarrow> nat \<Rightarrow> string \<Rightarrow> string \<Rightarrow> go_error option prog" where
  "Lock_prog e n tok key = retry_prog n (lock_prog e tok key)"

definition unlock_prog :: "etcdsrv \<Rightarrow> nat \<Rightarrow> string \<Rightarrow> string \<Rightarrow> go_error option prog" where
  "unlock_prog e n token key =
     Timeout (srv_timeout e) (\<lambda>ctx. retry_prog n (release_prog e ctx token key))"

lemmas lock_progs = lock_prog_def wait_prog_def grant_prog_def read_prog_def decide_prog_def stamp_prog_def
  put_prog_def

section \<open>The programs are the operations\<close>

lemma run_store_prog: "run cli (store_prog e k v) s = srv_Store cli e k v s"
  by (simp add: store_prog_def srv_Store_def rateLimiter_wait_def Let_def
      split: prod.split sum.split option.split)

lemma run_load_prog: "run cli (load_prog e k) s = srv_Load cli e k s"
  by (simp add: load_prog_def load_rest_def srv_Load_def Let_def
      split: prod.split sum.split option.split list.split)

lemma run_delete_prog: "run cli (delete_prog e k) s = srv_Delete cli e k s"
  by (simp add: delete_prog_def srv_Delete_def Let_def split: prod.split sum.split)

lemma run_metadata_prog: "run cli (metadata_prog e k) s = srv_Metadata cli e k s"
  by (simp add: metadata_prog_def srv_Metadata_def Let_def
      split: prod.split sum.split option.split list.split)

lemma run_list_prog: "run cli (list_prog e k fs) s = srv_List cli e k fs s"
  by (simp add: list_prog_def srv_List_def Let_def split: prod.split sum.split)

lemma run_stamp_prog:
  "run cli (stamp_prog e ctx tok k i) s = lock_write cli ctx tok k (lock_key e k) i s"
  by (simp add: stamp_prog_def put_prog_def lock_write_def lock_value_def
      split: prod.split sum.split option.split)

lemma run_decide_prog:
  "run cli (decide_prog e ctx tok k i kvs) s =
     (case lock_ok_to_set cli e tok kvs s of
        (Inl err, t) \<Rightarrow> (Some err, t)
      | (Inr okToSet, t) \<Rightarrow>
          if okToSet then lock_write cli ctx tok k (lock_key e k) i t
          else (Some (LockError k (LockTimeout (cfg e)) (Some (Errorf ''lock already exists''))), t))"
  by (simp add: decide_prog_def lock_ok_to_set_def run_stamp_prog
      split: prod.split option.split list.split)

lemma run_lock_prog: "run cli (lock_prog e tok k) s = lock_acquire cli e tok k s"
  by (simp add: lock_prog_def wait_prog_def grant_prog_def read_prog_def run_decide_prog
      lock_acquire_def rateLimiter_wait_def Let_def split: prod.split sum.split option.split)

lemma run_release_prog: "run cli (release_prog e ctx tok k) s = lock_release cli e ctx tok k s"
  by (simp add: release_prog_def lock_release_def split: prod.split sum.split option.split list.split)

text \<open>The whole calls without retries, and with: one of the runs \<open>execute\<close> allows.\<close>

lemma run_Lock_prog:
  "run cli (Lock_prog e 0 tok k) s = srv_lock cli (e\<lparr>noBackoff := True\<rparr>) tok k s"
  "retried (\<lambda>t. t) (lock_acquire cli e tok k) s (run cli (Lock_prog e n tok k) s)"
proof -
  have "run cli (lock_prog e tok k) = lock_acquire cli e tok k" by (rule ext) (rule run_lock_prog)
  then show "retried (\<lambda>t. t) (lock_acquire cli e tok k) s (run cli (Lock_prog e n tok k) s)"
    using run_retry_prog [of cli "lock_prog e tok k" s n] by (simp add: Lock_prog_def)
next
  have "lock_ok_to_set cli (e\<lparr>noBackoff := True\<rparr>) tok kvs s = lock_ok_to_set cli e tok kvs s" for kvs s
    by (simp add: lock_ok_to_set_def split: list.split option.split prod.split)
  then have "lock_acquire cli (e\<lparr>noBackoff := True\<rparr>) tok k s = lock_acquire cli e tok k s"
    by (simp add: lock_acquire_def Let_def split: prod.split option.split sum.split)
  then show "run cli (Lock_prog e 0 tok k) s = srv_lock cli (e\<lparr>noBackoff := True\<rparr>) tok k s"
    by (simp add: Lock_prog_def run_lock_prog srv_lock_def srv_execute_def)
qed

lemma run_unlock_prog:
  "run cli (unlock_prog e 0 tok k) s = srv_Unlock cli (e\<lparr>noBackoff := True\<rparr>) tok k s"
  "context_WithTimeout cli (srv_timeout e) s = (ctx, s0) \<Longrightarrow>
   retried (\<lambda>t. t) (lock_release cli e ctx tok k) s0 (run cli (unlock_prog e n tok k) s)"
proof -
  have "run cli (release_prog e ctx tok k) = lock_release cli e ctx tok k"
    by (rule ext) (rule run_release_prog)
  then show "context_WithTimeout cli (srv_timeout e) s = (ctx, s0) \<Longrightarrow>
      retried (\<lambda>t. t) (lock_release cli e ctx tok k) s0 (run cli (unlock_prog e n tok k) s)"
    using run_retry_prog [of cli "release_prog e ctx tok k" s0 n] by (simp add: unlock_prog_def)
qed (simp add: unlock_prog_def run_release_prog srv_Unlock_def srv_execute_def lock_release_def
      split: prod.split)

end
