(* ===== verification/Shared.thy ===== *)
theory Shared
  imports Programs
begin

text \<open>
  Several processes sharing one etcd.  Each runs the programs of \<open>Programs\<close>, one call at a
  time, and their requests interleave in any order; a request may fail before or after it has
  taken effect, a process may give up in the middle of a call, leases may expire at any time.
  Each process reads its own clock; the clocks advance independently, and nothing is assumed
  here of how they agree.
\<close>

section \<open>One request at the server\<close>

text \<open>
  \<open>prog_step m n p m' p'\<close>: at the key space \<open>m\<close> and the time \<open>n\<close> the next request of \<open>p\<close> is
  answered.  The answer is a success only before the deadline of its context; a write whose
  reply is lost may take effect later.
\<close>

inductive prog_step :: "keyspace \<Rightarrow> time \<Rightarrow> 'r prog \<Rightarrow> keyspace \<Rightarrow> 'r prog \<Rightarrow> bool" where
  get: "in_time ctx n \<Longrightarrow> prog_step m n (Get ctx k False f) m (f (Inr (point_read m k)))"
| get_range: "in_time ctx n \<Longrightarrow> range_read m k xs \<Longrightarrow>
    prog_step m n (Get ctx k True f) m (f (Inr xs))"
| get_fails: "prog_step m n (Get ctx k p f) m (f (Inl err))"
| put: "in_time ctx n \<Longrightarrow> prog_step m n (Put ctx k v f) (m(k \<mapsto> (v, 0))) (f (Inr ()))"
| put_lost: "prog_step m n (Put ctx k v f) (m(k \<mapsto> (v, 0))) (f (Inl err))"
| put_fails: "prog_step m n (Put ctx k v f) m (f (Inl err))"
| txn: "in_time ctx n \<Longrightarrow> prog_step m n (Txn ctx ops f) (apply_ops ops m) (f (Inr True))"
| txn_lost: "prog_step m n (Txn ctx ops f) (apply_ops ops m) (f (Inl err))"
| txn_fails: "prog_step m n (Txn ctx ops f) m (f (Inl err))"
| grant: "in_time ctx n \<Longrightarrow> i \<noteq> 0 \<Longrightarrow> int64 i \<Longrightarrow> prog_step m n (Grant ctx ttl f) m (f (Inr i))"
| grant_fails: "prog_step m n (Grant ctx ttl f) m (f (Inl err))"
| revoke: "in_time ctx n \<Longrightarrow> prog_step m n (Revoke ctx i f) (drop_lease i m) (f (Inr ()))"
| revoke_lost: "prog_step m n (Revoke ctx i f) (drop_lease i m) (f (Inl err))"
| revoke_fails: "prog_step m n (Revoke ctx i f) m (f (Inl err))"
| wait: "in_time ctx n \<Longrightarrow> prog_step m n (Wait ctx l f) m (f None)"
| wait_fails: "prog_step m n (Wait ctx l f) m (f (Some err))"
| now: "prog_step m n (Now f) m (f n)"
| timeout: "prog_step m n (Timeout d f) m (f (Some (n + d)))"

lemma prog_step_bind:
  assumes "prog_step m n (bind_prog x g) m' y"
  obtains r where "x = Done r" "prog_step m n (g r) m' y"
  | x' where "y = bind_prog x' g" "prog_step m n x m' x'"
  using assms by (cases x) (auto elim!: prog_step.cases intro: prog_step.intros)

lemma map_prog_Done [simp]: "map_prog g x = Done y \<longleftrightarrow> (\<exists>r. x = Done r \<and> y = g r)"
  by (cases x) auto

lemma prog_step_map:
  "prog_step m n (map_prog g x) m' y \<Longrightarrow> \<exists>x'. y = map_prog g x' \<and> prog_step m n x m' x'"
  unfolding map_prog_bind by (erule prog_step_bind) (auto elim: prog_step.cases)

lemma prog_step_mapI: "prog_step m n x m' y \<Longrightarrow> prog_step m n (map_prog g x) m' (map_prog g y)"
  by (cases rule: prog_step.cases) (auto intro: prog_step.intros simp: comp_def intro!: prog_step.intros)

inductive_simps prog_step_Done [simp]: "prog_step m n (Done r) m' p'"
inductive_simps prog_step_point [simp]: "prog_step m n (Get ctx k False f) m' p'"
inductive_simps prog_step_range [simp]: "prog_step m n (Get ctx k True f) m' p'"
inductive_simps prog_step_Put [simp]: "prog_step m n (Put ctx k v f) m' p'"
inductive_simps prog_step_Txn [simp]: "prog_step m n (Txn ctx ops f) m' p'"
inductive_simps prog_step_Grant [simp]: "prog_step m n (Grant ctx ttl f) m' p'"
inductive_simps prog_step_Revoke [simp]: "prog_step m n (Revoke ctx i f) m' p'"
inductive_simps prog_step_Wait [simp]: "prog_step m n (Wait ctx l f) m' p'"
inductive_simps prog_step_Now [simp]: "prog_step m n (Now f) m' p'"
inductive_simps prog_step_Timeout [simp]: "prog_step m n (Timeout d f) m' p'"

text \<open>A client that keeps the contract, alone with etcd, makes steps of this kind, with time
  passing between them.\<close>

inductive alone :: "keyspace \<Rightarrow> time \<Rightarrow> 'r prog \<Rightarrow> keyspace \<Rightarrow> time \<Rightarrow> 'r prog \<Rightarrow> bool" where
  stop: "alone m n p m n p"
| tick: "n \<le> n1 \<Longrightarrow> alone m n1 p m' n' p' \<Longrightarrow> alone m n p m' n' p'"
| step: "prog_step m n p m1 p1 \<Longrightarrow> alone m1 n p1 m' n' p' \<Longrightarrow> alone m n p m' n' p'"

context etcd_deadline
begin

lemma alone_step:
  assumes "prog_step (kv s) n p (kv t) q" "now s \<le> n" "n \<le> now t" "alone (kv t) (now t) q m' n' r"
  shows "alone (kv s) (now s) p m' n' r"
  using assms by (blast intro: alone.tick alone.step)

lemma run_alone: "run cli p s = (r, t) \<Longrightarrow> alone (kv s) (now s) p (kv t) (now t) (Done r)"
proof (induction p arbitrary: s)
  case (Done x)
  then show ?case by (auto intro: alone.stop)
next
  case (Get ctx k pre f)
  obtain x u where 1: "cli_Get cli ctx k pre s = (x, u)" by (cases "cli_Get cli ctx k pre s")
  have "prog_step (kv s) (now s) (Get ctx k pre f) (kv u) (f x)"
  proof (cases x)
    case (Inr xs)
    then have "in_time ctx (now s)" using get_late [OF _ 1] by auto
    moreover have "if pre then range_read (kv s) k xs else xs = point_read (kv s) k"
      using 1 Inr by (cases pre) (auto dest: get_range get_point)
    ultimately show ?thesis using Inr get_frame [OF 1] by (cases pre) auto
  qed (cases pre; use get_frame [OF 1] in auto)
  then show ?case
    using Get.prems 1 get_mono [OF 1] by (intro alone_step [OF _ _ _ Get.IH]) auto
next
  case (Put ctx k v f)
  obtain x u where 1: "cli_Put cli ctx k v s = (x, u)" by (cases "cli_Put cli ctx k v s")
  have "prog_step (kv s) (now s) (Put ctx k v f) (kv u) (f x)"
    using 1 put_late [OF _ 1] by (cases x) (auto dest: put_done put_fail)
  then show ?case
    using Put.prems 1 put_mono [OF 1] by (intro alone_step [OF _ _ _ Put.IH]) auto
next
  case (Txn ctx ops f)
  obtain x u where 1: "cli_Txn cli ctx ops s = (x, u)" by (cases "cli_Txn cli ctx ops s")
  have "prog_step (kv s) (now s) (Txn ctx ops f) (kv u) (f x)"
    using 1 txn_late [OF _ 1] by (cases x) (auto dest: txn_done txn_fail)
  then show ?case
    using Txn.prems 1 txn_mono [OF 1] by (intro alone_step [OF _ _ _ Txn.IH]) auto
next
  case (Grant ctx ttl f)
  obtain x u where 1: "cli_Grant cli ctx ttl s = (x, u)" by (cases "cli_Grant cli ctx ttl s")
  have "prog_step (kv s) (now s) (Grant ctx ttl f) (kv u) (f x)"
  proof (cases x)
    case (Inr i)
    then show ?thesis
      using 1 grant_frame [OF 1] grant_id [of ctx ttl s i u] grant_late [OF _ 1] by (auto simp: int64_def)
  qed (use grant_frame [OF 1] in auto)
  then show ?case
    using Grant.prems 1 grant_mono [OF 1] by (intro alone_step [OF _ _ _ Grant.IH]) auto
next
  case (Revoke ctx i f)
  obtain x u where 1: "cli_Revoke cli ctx i s = (x, u)" by (cases "cli_Revoke cli ctx i s")
  have "prog_step (kv s) (now s) (Revoke ctx i f) (kv u) (f x)"
    using 1 revoke_late [OF _ 1] by (cases x) (auto dest: revoke_done revoke_fail)
  then show ?case
    using Revoke.prems 1 revoke_mono [OF 1] by (intro alone_step [OF _ _ _ Revoke.IH]) auto
next
  case (Wait ctx l f)
  obtain x u where 1: "limiter_Wait cli ctx l s = (x, u)" by (cases "limiter_Wait cli ctx l s")
  have "prog_step (kv s) (now s) (Wait ctx l f) (kv u) (f x)"
    using 1 wait_frame [OF 1] wait_late [OF _ 1] by (cases x) auto
  then show ?case
    using Wait.prems 1 wait_mono [OF 1] by (intro alone_step [OF _ _ _ Wait.IH]) auto
next
  case (Now f)
  obtain n u where 1: "clock_Now cli s = (n, u)" by (cases "clock_Now cli s")
  have "prog_step (kv s) n (Now f) (kv u) (f n)"
    using 1 now_frame [OF 1] by auto
  then show ?case
    using Now.prems 1 now_reading [OF 1] by (intro alone_step [OF _ _ _ Now.IH]) auto
next
  case (Timeout d f)
  obtain n u where 1: "clock_Now cli s = (n, u)" by (cases "clock_Now cli s")
  have "prog_step (kv s) n (Timeout d f) (kv u) (f (Some (n + d)))"
    using 1 now_frame [OF 1] by auto
  then show ?case
    using Timeout.prems 1 now_reading [OF 1]
    by (intro alone_step [OF _ _ _ Timeout.IH]) (auto simp: context_WithTimeout_def)
qed

end

section \<open>The calls of a process\<close>

datatype call =
    Call_Store string bytes
  | Call_Load string
  | Call_Delete string
  | Call_Metadata string
  | Call_List string "kv_filter list"
  | Call_Lock string
  | Call_Unlock string

datatype outcome =
    Result "go_error option"
  | Content "go_error + bytes"
  | Described "go_error + Metadata"
  | Listed "go_error + string list"

text \<open>The operation behind a call; \<open>n\<close> is how often the backoff lets \<open>Lock\<close> and \<open>Unlock\<close> retry.\<close>

fun call_prog :: "etcdsrv \<Rightarrow> string \<Rightarrow> nat \<Rightarrow> call \<Rightarrow> outcome prog" where
  "call_prog e tok n (Call_Store k v) = map_prog Result (store_prog e k v)"
| "call_prog e tok n (Call_Load k) = map_prog Content (load_prog e k)"
| "call_prog e tok n (Call_Delete k) = map_prog Result (delete_prog e k)"
| "call_prog e tok n (Call_Metadata k) = map_prog Described (metadata_prog e k)"
| "call_prog e tok n (Call_List k fs) = map_prog Listed (list_prog e k fs)"
| "call_prog e tok n (Call_Lock k) = map_prog Result (Lock_prog e n tok k)"
| "call_prog e tok n (Call_Unlock k) = map_prog Result (unlock_prog e n tok k)"

section \<open>The system\<close>

text \<open>The processes share the configuration; each has its own token.  Their names are of an
  arbitrary type \<open>'c\<close>.\<close>

record 'c shared =
  sh_kv :: keyspace
  sh_clock :: "'c \<Rightarrow> time"
  sh_run :: "'c \<Rightarrow> (call \<times> outcome prog) option"

inductive shared_step ::
  "etcdsrv \<Rightarrow> ('c \<Rightarrow> string) \<Rightarrow> (call \<Rightarrow> bool) \<Rightarrow> 'c option \<Rightarrow> 'c shared \<Rightarrow> 'c shared \<Rightarrow> bool"
  for e tok ok where
  time_passes: "(\<And>c. sh_clock s c \<le> clk c) \<Longrightarrow> shared_step e tok ok None s (s\<lparr>sh_clock := clk\<rparr>)"
| lease_ends: "shared_step e tok ok None s (s\<lparr>sh_kv := drop_lease i (sh_kv s)\<rparr>)"
| call: "sh_run s c = None \<Longrightarrow> ok q \<Longrightarrow>
    shared_step e tok ok (Some c) s (s\<lparr>sh_run := (sh_run s)(c \<mapsto> (q, call_prog e (tok c) n q))\<rparr>)"
| request: "sh_run s c = Some (q, p) \<Longrightarrow> prog_step (sh_kv s) (sh_clock s c) p m p' \<Longrightarrow>
    shared_step e tok ok (Some c) s
      (s\<lparr>sh_kv := m, sh_run := (sh_run s)(c \<mapsto> (q, p'))\<rparr>)"
| leave: "shared_step e tok ok (Some c) s (s\<lparr>sh_run := (sh_run s)(c := None)\<rparr>)"

inductive shared_reachable ::
  "etcdsrv \<Rightarrow> ('c \<Rightarrow> string) \<Rightarrow> (call \<Rightarrow> bool) \<Rightarrow> 'c shared \<Rightarrow> 'c shared \<Rightarrow> bool"
  for e tok ok s where
  start: "shared_reachable e tok ok s s"
| next_step: "shared_reachable e tok ok s t \<Longrightarrow> shared_step e tok ok l t u \<Longrightarrow>
    shared_reachable e tok ok s u"

text \<open>Nobody is in the middle of a call.\<close>

definition quiet :: "'c shared \<Rightarrow> bool" where
  "quiet s \<longleftrightarrow> (\<forall>c. sh_run s c = None)"

lemma shared_reachable_trans:
  "shared_reachable e tok ok t u \<Longrightarrow> shared_reachable e tok ok s t \<Longrightarrow> shared_reachable e tok ok s u"
  by (induction rule: shared_reachable.induct) (auto intro: shared_reachable.next_step)

section \<open>What every request of a program does\<close>

text \<open>\<open>each P p\<close>: whatever the answers, every request \<open>p\<close> makes satisfies \<open>P\<close>, which relates
  the key spaces around it and says how the program goes on.\<close>

abbreviation request_sat ::
  "(keyspace \<Rightarrow> keyspace \<Rightarrow> 'r prog \<Rightarrow> bool) \<Rightarrow> 'r prog \<Rightarrow> bool" where
  "request_sat P p \<equiv> (\<forall>m n m' p'. prog_step m n p m' p' \<longrightarrow> P m m' p')"

primrec each :: "(keyspace \<Rightarrow> keyspace \<Rightarrow> 'r prog \<Rightarrow> bool) \<Rightarrow> 'r prog \<Rightarrow> bool" where
  "each P (Done r) \<longleftrightarrow> True"
| "each P (Get ctx k p f) \<longleftrightarrow> request_sat P (Get ctx k p f) \<and> (\<forall>x. each P (f x))"
| "each P (Put ctx k v f) \<longleftrightarrow> request_sat P (Put ctx k v f) \<and> (\<forall>x. each P (f x))"
| "each P (Txn ctx ops f) \<longleftrightarrow> request_sat P (Txn ctx ops f) \<and> (\<forall>x. each P (f x))"
| "each P (Grant ctx ttl f) \<longleftrightarrow> request_sat P (Grant ctx ttl f) \<and> (\<forall>x. each P (f x))"
| "each P (Revoke ctx i f) \<longleftrightarrow> request_sat P (Revoke ctx i f) \<and> (\<forall>x. each P (f x))"
| "each P (Wait ctx l f) \<longleftrightarrow> request_sat P (Wait ctx l f) \<and> (\<forall>x. each P (f x))"
| "each P (Now f) \<longleftrightarrow> request_sat P (Now f) \<and> (\<forall>x. each P (f x))"
| "each P (Timeout d f) \<longleftrightarrow> request_sat P (Timeout d f) \<and> (\<forall>x. each P (f x))"

lemma each_step: "each P p \<Longrightarrow> prog_step m n p m' p' \<Longrightarrow> P m m' p' \<and> each P p'"
proof -
  assume e: "each P p" and st: "prog_step m n p m' p'"
  have "request_sat P p"
    using e by (cases p) (simp_all only: each.simps prog_step_Done, blast+)
  moreover have "each P p'"
    using st e by cases simp_all
  ultimately show ?thesis using st by blast
qed

text \<open>A condition that does not depend on how the program goes on passes to sequences.\<close>

lemma each_bind:
  assumes "each (\<lambda>m m' _. Q m m') x" "\<And>r. each (\<lambda>m m' _. Q m m') (g r)"
  shows "each (\<lambda>m m' _. Q m m') (bind_prog x g)"
proof -
  have sat: "request_sat (\<lambda>m m' _. Q m m') (bind_prog x g)"
    if "request_sat (\<lambda>m m' _. Q m m') x" "\<And>r. x \<noteq> Done r" for x
    using that by (blast elim: prog_step_bind)
  from assms(1) show ?thesis
  proof (induction x)
    case (Done r)
    then show ?case using assms(2) by simp
  next
    case (Get ctx k p f)
    then show ?case
      using sat [of "Get ctx k p f"] by (simp only: each.simps bind_prog.simps) blast
  next
    case (Put ctx k v f)
    then show ?case
      using sat [of "Put ctx k v f"] by (simp only: each.simps bind_prog.simps) blast
  next
    case (Txn ctx ops f)
    then show ?case
      using sat [of "Txn ctx ops f"] by (simp only: each.simps bind_prog.simps) blast
  next
    case (Grant ctx ttl f)
    then show ?case
      using sat [of "Grant ctx ttl f"] by (simp only: each.simps bind_prog.simps) blast
  next
    case (Revoke ctx i f)
    then show ?case
      using sat [of "Revoke ctx i f"] by (simp only: each.simps bind_prog.simps) blast
  next
    case (Wait ctx l f)
    then show ?case
      using sat [of "Wait ctx l f"] by (simp only: each.simps bind_prog.simps) blast
  next
    case (Now f)
    then show ?case
      using sat [of "Now f"] by (simp only: each.simps bind_prog.simps) blast
  next
    case (Timeout d f)
    then show ?case
      using sat [of "Timeout d f"] by (simp only: each.simps bind_prog.simps) blast
  qed
qed

lemma each_retry: "each (\<lambda>m m' _. Q m m') x \<Longrightarrow> each (\<lambda>m m' _. Q m m') (retry_prog n x)"
  by (induction n) (auto intro!: each_bind split: option.split)

end
