(* ===== verification/Shared_Files.thy ===== *)
theory Shared_Files
  imports Shared
begin

text \<open>
  The files under concurrency: whatever the processes do, the key space stays consistent, every
  change of the files is one atomic update by a \<open>Store\<close> or a \<open>Delete\<close>, and a \<open>Load\<close> that
  succeeds returns what is stored at the moment of its last request.  A \<open>Load\<close> that is
  overtaken by a writer between its two requests can fail on intact data.
\<close>

section \<open>The effect of each request\<close>

fun call_ok :: "call \<Rightarrow> bool" where
  "call_ok (Call_Store k v) \<longleftrightarrow> good_key k \<and> length v < 2 ^ 63"
| "call_ok (Call_Load k) \<longleftrightarrow> good_key k"
| "call_ok (Call_Delete k) \<longleftrightarrow> good_key k"
| "call_ok (Call_Metadata k) \<longleftrightarrow> good_key k"
| "call_ok (Call_List k fs) \<longleftrightarrow> True"
| "call_ok (Call_Lock k) \<longleftrightarrow> no_dotdot k"
| "call_ok (Call_Unlock k) \<longleftrightarrow> no_dotdot k"

fun call_effect :: "etcdsrv \<Rightarrow> call \<Rightarrow> keyspace \<Rightarrow> keyspace \<Rightarrow> outcome prog \<Rightarrow> bool" where
  "call_effect e (Call_Store k v) m m' p \<longleftrightarrow>
     m' = m \<and> p \<noteq> Done (Result None) \<or>
     (\<exists>n js. Marshal_Metadata (NewMetadata k v n) = Some js \<and> m' = stored_kv e m k v js)"
| "call_effect e (Call_Delete k) m m' p \<longleftrightarrow>
     m' = m \<and> p \<noteq> Done (Result None) \<or> m' = deleted_kv e m k"
| "call_effect e (Call_Load k) m m' p \<longleftrightarrow>
     m' = m \<and>
     (\<forall>v. p = Done (Content (Inr v)) \<longrightarrow> read_val m (val_key e k) = Some v) \<and>
     (p = Done (Content (Inl (NotExist k))) \<longrightarrow> kv_value m (md_key e k) = None)"
| "call_effect e (Call_Metadata k) m m' p \<longleftrightarrow> m' = m"
| "call_effect e (Call_List k fs) m m' p \<longleftrightarrow> m' = m"
| "call_effect e (Call_Lock k) m m' p \<longleftrightarrow> m' = m \<or> (\<exists>x. m' = m(lock_key e k \<mapsto> (x, 0)))"
| "call_effect e (Call_Unlock k) m m' p \<longleftrightarrow> m' = m \<or> (\<exists>i. m' = drop_lease i m)"

lemma call_effect_locks:
  "call_effect e (Call_Lock k) = (\<lambda>m m' _. m' = m \<or> (\<exists>x. m' = m(lock_key e k \<mapsto> (x, 0))))"
  "call_effect e (Call_Unlock k) = (\<lambda>m m' _. m' = m \<or> (\<exists>i. m' = drop_lease i m))"
  by (simp_all add: fun_eq_iff)

lemma each_call: "each (call_effect e q) (call_prog e tok n q)"
proof (cases q)
  case (Call_Store k v)
  then show ?thesis
    by (auto simp: store_prog_def store_ops_def stored_kv_def split: sum.splits option.splits)
next
  case (Call_Load k)
  then show ?thesis
    by (auto simp: load_prog_def load_rest_def point_read_value read_val_def
        split: sum.splits option.splits list.splits)
next
  case (Call_Delete k)
  then show ?thesis
    by (auto simp: delete_prog_def deleted_kv_def split: sum.splits)
next
  case (Call_Metadata k)
  then show ?thesis
    by (auto simp: metadata_prog_def Let_def split: sum.splits option.splits list.splits)
next
  case (Call_List k fs)
  then show ?thesis
    by (auto simp: list_prog_def split: sum.splits)
next
  case (Call_Lock k)
  have "each (\<lambda>m m' _. m' = m \<or> (\<exists>x. m' = m(lock_key e k \<mapsto> (x, 0)))) (lock_prog e tok k)"
    by (auto simp: lock_progs split: sum.splits option.splits list.splits)
  then show ?thesis
    unfolding Call_Lock call_prog.simps call_effect_locks Lock_prog_def map_prog_bind
    by (intro each_bind each_retry) simp_all
next
  case (Call_Unlock k)
  have "each (\<lambda>m m' _. m' = m \<or> (\<exists>i. m' = drop_lease i m)) (release_prog e ctx tok k)" for ctx
    by (auto simp: release_prog_def split: sum.splits option.splits list.splits)
  then have "each (\<lambda>m m' _. m' = m \<or> (\<exists>i. m' = drop_lease i m)) (retry_prog n (release_prog e ctx tok k))" for ctx
    by (rule each_retry)
  then have "each (\<lambda>m m' _. m' = m \<or> (\<exists>i. m' = drop_lease i m)) (unlock_prog e n tok k)"
    by (simp add: unlock_prog_def)
  then show ?thesis
    unfolding Call_Unlock call_prog.simps call_effect_locks map_prog_bind by (intro each_bind) simp_all
qed

section \<open>The invariant\<close>

definition shared_inv :: "etcdsrv \<Rightarrow> 'c shared \<Rightarrow> bool" where
  "shared_inv e s \<longleftrightarrow>
     consistent e (sh_kv s) \<and> unleased (sh_kv s) \<and>
     (\<forall>c q p. sh_run s c = Some (q, p) \<longrightarrow> call_ok q \<and> each (call_effect e q) p)"

lemma shared_inv_quiet: "quiet s \<Longrightarrow> consistent e (sh_kv s) \<Longrightarrow> unleased (sh_kv s) \<Longrightarrow> shared_inv e s"
  by (simp add: shared_inv_def quiet_def)

lemma unleased_ops:
  "unleased m \<Longrightarrow> unleased (stored_kv e m k v js)" "unleased m \<Longrightarrow> unleased (deleted_kv e m k)"
  by (simp_all add: stored_kv_def deleted_kv_def apply_ops_def)

lemma call_effect_inv:
  assumes "wf_srv e" "call_ok q" "call_effect e q m m' p" "consistent e m" "unleased m"
  shows "consistent e m' \<and> unleased m'"
proof (cases q)
  case (Call_Store k v)
  then have "int (length v) < int (2 ^ 63)"
    using assms(2) by (simp only: of_nat_less_iff call_ok.simps)
  then have "int64 (int (length v))" by (simp add: int64_def)
  then show ?thesis
    using assms Call_Store by (auto simp: consistent_stored unleased_ops)
next
  case (Call_Lock k)
  then have "lock_key e k = lock_at e (comps k)" "list_all plain_comp (comps k)"
    using assms(1,2) by (simp_all add: lock_key_render plain_comps)
  then show ?thesis
    using assms(3-5) Call_Lock lock_frame(2) [OF assms(1), of "comps k" m' m] by auto
next
  case (Call_Unlock k)
  then show ?thesis using assms(3-5) drop_lease_unleased [OF assms(5)] by auto
qed (use assms in \<open>auto simp: consistent_deleted unleased_ops\<close>)

lemma shared_inv_step:
  assumes "wf_srv e" "shared_step e tok ok l s t" "shared_inv e s" "\<And>q. ok q \<Longrightarrow> call_ok q"
  shows "shared_inv e t"
  using assms(2)
proof (cases rule: shared_step.cases)
  case (call c q)
  then show ?thesis
    using assms(3,4) each_call by (auto simp: shared_inv_def split: if_splits)
next
  case (request c q p m p')
  then have "call_ok q" "each (call_effect e q) p"
    using assms(3) by (auto simp: shared_inv_def)
  then show ?thesis
    using request assms(3) each_step [OF _ request(4)]
      call_effect_inv [OF assms(1), of q "sh_kv s" m p']
    by (auto simp: shared_inv_def split: if_splits)
qed (use assms(3) drop_lease_unleased in \<open>auto simp: shared_inv_def split: if_splits\<close>)

lemma shared_inv_reachable:
  assumes "shared_reachable e tok ok s t" "wf_srv e" "shared_inv e s" "\<And>q. ok q \<Longrightarrow> call_ok q"
  shows "shared_inv e t"
  using assms(1,3) by induction (auto intro: shared_inv_step [OF assms(2) _ _ assms(4)])

section \<open>The abstract specification\<close>

text \<open>One request of a call against the map of files: \<open>r\<close> is the answer of the call, if this
  request completes it.\<close>

fun atomic_spec ::
  "call \<Rightarrow> (string list \<rightharpoonup> bytes) \<Rightarrow> (string list \<rightharpoonup> bytes) \<Rightarrow> outcome option \<Rightarrow> bool" where
  "atomic_spec (Call_Store k v) F F' r \<longleftrightarrow>
     F' = F(comps k \<mapsto> v) \<or> F' = F \<and> r \<noteq> Some (Result None)"
| "atomic_spec (Call_Delete k) F F' r \<longleftrightarrow>
     F' = F(comps k := None) \<or> F' = F \<and> r \<noteq> Some (Result None)"
| "atomic_spec (Call_Load k) F F' r \<longleftrightarrow>
     F' = F \<and> (\<forall>v. r = Some (Content (Inr v)) \<longrightarrow> F (comps k) = Some v) \<and>
     (r = Some (Content (Inl (NotExist k))) \<longrightarrow> F (comps k) = None)"
| "atomic_spec (Call_Metadata k) F F' r \<longleftrightarrow> F' = F"
| "atomic_spec (Call_List k fs) F F' r \<longleftrightarrow> F' = F"
| "atomic_spec (Call_Lock k) F F' r \<longleftrightarrow> F' = F"
| "atomic_spec (Call_Unlock k) F F' r \<longleftrightarrow> F' = F"

fun answer :: "'r prog \<Rightarrow> 'r option" where
  "answer (Done r) = Some r"
| "answer _ = None"

lemma answer_Some [simp]: "answer p = Some r \<longleftrightarrow> p = Done r"
  by (cases p) auto

lemma call_effect_atomic:
  assumes "wf_srv e" "call_ok q" "call_effect e q m m' p" "consistent e m" "unleased m"
  shows "atomic_spec q (files e m) (files e m') (answer p)"
proof (cases q)
  case (Call_Load k)
  then show ?thesis
    using assms(1-4) consistent_files [OF assms(4), of "comps k"]
    by (auto simp: files_def go_path read_val_def)
next
  case (Call_Lock k)
  then have "lock_key e k = lock_at e (comps k)" "list_all plain_comp (comps k)"
    using assms(1,2) by (simp_all add: lock_key_render plain_comps)
  then show ?thesis
    using assms(3) Call_Lock lock_frame(1) [OF assms(1), of "comps k" m' m] by auto
next
  case (Call_Unlock k)
  then show ?thesis using assms(3) drop_lease_unleased [OF assms(5)] by auto
qed (use assms in \<open>auto simp: files_stored files_deleted\<close>)

text \<open>A step of the system is a step of the specification, if it is a request of a process
  in the middle of a call, and changes no file otherwise.\<close>

lemma shared_atomic:
  assumes "wf_srv e" "shared_inv e s" "shared_step e tok ok l s t"
  shows "case l of
      None \<Rightarrow> files e (sh_kv t) = files e (sh_kv s)
    | Some c \<Rightarrow>
        (case (sh_run s c, sh_run t c) of
           (Some (q, p), Some (_, p')) \<Rightarrow>
             atomic_spec q (files e (sh_kv s)) (files e (sh_kv t)) (answer p')
         | _ \<Rightarrow> files e (sh_kv t) = files e (sh_kv s))"
  using assms(3)
proof (cases rule: shared_step.cases)
  case (request c q p m p')
  then have ok: "call_ok q" "each (call_effect e q) p" "consistent e (sh_kv s)" "unleased (sh_kv s)"
    using assms(2) by (auto simp: shared_inv_def)
  have "atomic_spec q (files e (sh_kv s)) (files e m) (answer p')"
    by (rule call_effect_atomic [OF assms(1) ok(1) _ ok(3,4)])
       (use each_step [OF ok(2) request(4)] in simp)
  then show ?thesis using request by simp
next
  case (lease_ends i)
  then show ?thesis
    using assms(2) drop_lease_unleased by (auto simp: shared_inv_def)
qed (auto split: option.split)

section \<open>Runs\<close>

text \<open>An empty key space, all clocks at \<open>n\<close>.\<close>

definition sh_init :: "time \<Rightarrow> 'c shared" where
  "sh_init n = \<lparr> sh_kv = Map.empty, sh_clock = (\<lambda>_. n), sh_run = (\<lambda>_. None) \<rparr>"

lemma shared_inv_init [simp]: "shared_inv e (sh_init n)"
  by (simp add: shared_inv_def sh_init_def)

text \<open>Requests of one process with nobody in between, at one instant.\<close>

inductive requests_at :: "time \<Rightarrow> keyspace \<Rightarrow> 'r prog \<Rightarrow> keyspace \<Rightarrow> 'r prog \<Rightarrow> bool" for n where
  none: "requests_at n m p m p"
| one_more: "prog_step m n p m1 p1 \<Longrightarrow> requests_at n m1 p1 m2 p2 \<Longrightarrow> requests_at n m p m2 p2"

lemma shared_requests:
  assumes "requests_at n m p m' p'" "sh_run s c = Some (q, p)" "sh_kv s = m" "sh_clock s c = n"
  shows "shared_reachable e tok ok s (s\<lparr>sh_kv := m', sh_run := (sh_run s)(c \<mapsto> (q, p'))\<rparr>)"
  using assms
proof (induction arbitrary: s rule: requests_at.induct)
  case (none m p)
  then have "s\<lparr>sh_kv := m, sh_run := (sh_run s)(c \<mapsto> (q, p))\<rparr> = s"
    by (simp add: fun_upd_idem)
  then show ?case using shared_reachable.start by metis
next
  case (one_more m p m1 p1 m2 p2)
  let ?t = "s\<lparr>sh_kv := m1, sh_run := (sh_run s)(c \<mapsto> (q, p1))\<rparr>"
  have "shared_step e tok ok (Some c) s ?t"
    using one_more.hyps(1) one_more.prems by (intro shared_step.request) simp_all
  then have "shared_reachable e tok ok s ?t"
    by (rule shared_reachable.next_step [OF shared_reachable.start])
  moreover have "shared_reachable e tok ok ?t
      (?t\<lparr>sh_kv := m2, sh_run := (sh_run ?t)(c \<mapsto> (q, p2))\<rparr>)"
    using one_more.prems by (intro one_more.IH) simp_all
  ultimately show ?case using shared_reachable_trans by fastforce
qed

lemma shared_call:
  assumes "requests_at (sh_clock s c) (sh_kv s) (call_prog e (tok c) j q) m p" "sh_run s c = None" "ok q"
  shows "shared_reachable e tok ok s (s\<lparr>sh_kv := m, sh_run := (sh_run s)(c \<mapsto> (q, p))\<rparr>)"
proof -
  let ?t = "s\<lparr>sh_run := (sh_run s)(c \<mapsto> (q, call_prog e (tok c) j q))\<rparr>"
  have "shared_step e tok ok (Some c) s ?t"
    using assms(2,3) by (rule shared_step.call)
  then have "shared_reachable e tok ok s ?t"
    by (rule shared_reachable.next_step [OF shared_reachable.start])
  moreover have "shared_reachable e tok ok ?t (?t\<lparr>sh_kv := m, sh_run := (sh_run ?t)(c \<mapsto> (q, p))\<rparr>)"
    using assms(1) by (intro shared_requests) simp_all
  ultimately show ?thesis using shared_reachable_trans by fastforce
qed

text \<open>A whole call, after which the process is idle again.\<close>

lemma shared_whole_call:
  assumes "requests_at (sh_clock s c) (sh_kv s) (call_prog e (tok c) j q) m p" "sh_run s c = None" "ok q"
  shows "shared_reachable e tok ok s (s\<lparr>sh_kv := m\<rparr>)"
proof -
  let ?t = "s\<lparr>sh_kv := m, sh_run := (sh_run s)(c \<mapsto> (q, p))\<rparr>"
  have "?t\<lparr>sh_run := (sh_run ?t)(c := None)\<rparr> = s\<lparr>sh_kv := m\<rparr>"
    using assms(2) by (simp add: fun_upd_idem)
  then show ?thesis
    using shared_reachable.next_step [OF shared_call [where e = e and tok = tok and ok = ok, OF assms]
      shared_step.leave [of e tok ok c ?t]]
    by simp
qed

text \<open>Requests that are answered in time.\<close>

lemma requests_answered:
  "requests_at n m (f1 n) m' p' \<Longrightarrow> requests_at n m (Now f1) m' p'"
  "in_time ctx n \<Longrightarrow> requests_at n m (f2 (Inr (point_read m k))) m' p' \<Longrightarrow>
   requests_at n m (Get ctx k False f2) m' p'"
  "in_time ctx n \<Longrightarrow> requests_at n m (f3 None) m' p' \<Longrightarrow> requests_at n m (Wait ctx l f3) m' p'"
  "in_time ctx n \<Longrightarrow> requests_at n (apply_ops ops m) (f4 (Inr True)) m' p' \<Longrightarrow>
   requests_at n m (Txn ctx ops f4) m' p'"
  "in_time ctx n \<Longrightarrow> requests_at n (m(k \<mapsto> (v, 0))) (f5 (Inr ())) m' p' \<Longrightarrow>
   requests_at n m (Put ctx k v f5) m' p'"
  "requests_at n m (f6 (Some (n + d))) m' p' \<Longrightarrow> requests_at n m (Timeout d f6) m' p'"
  by (blast intro: prog_step.intros requests_at.one_more)+

lemma requests_grant:
  "in_time ctx n \<Longrightarrow> requests_at n m (f (Inr i)) m' p' \<Longrightarrow> i \<noteq> 0 \<Longrightarrow> int64 i \<Longrightarrow>
   requests_at n m (Grant ctx ttl f) m' p'"
  by (blast intro: prog_step.intros requests_at.one_more)

lemma requests_none [simp]: "requests_at n m p m p"
  by (rule requests_at.none)

lemma requests_store:
  assumes "valid_time n" "0 \<le> srv_timeout e"
  obtains js where "Marshal_Metadata (NewMetadata k v n) = Some js"
    "requests_at n m (call_prog e tok j (Call_Store k v)) (stored_kv e m k v js) (Done (Result None))"
proof -
  obtain js where js: "Marshal_Metadata (NewMetadata k v n) = Some js"
    using assms(1) by (auto simp: Marshal_Metadata_def NewMetadata_def valid_time_def)
  have "requests_at n m (call_prog e tok j (Call_Store k v)) (stored_kv e m k v js) (Done (Result None))"
    unfolding call_prog.simps store_prog_def stored_kv_def prog.map
    by (rule requests_answered; simp add: js store_ops_def assms(2))+
  with js show thesis by (rule that)
qed

lemma requests_delete:
  "0 \<le> srv_timeout e \<Longrightarrow> requests_at n m (call_prog e tok j (Call_Delete k)) (deleted_kv e m k) (Done (Result None))"
  unfolding call_prog.simps delete_prog_def deleted_kv_def prog.map
  by (rule requests_answered; simp)+

text \<open>The first and the second request of \<open>Load\<close>.\<close>

lemma requests_load_first:
  assumes "file_md e m (comps k) = Some md" "wf_srv e" "good_key k" "0 \<le> srv_timeout e"
  shows "\<exists>md'. Hash md' = Hash md \<and>
    requests_at n m (call_prog e tok j (Call_Load k)) m (map_prog Content (load_rest e (Some (n + srv_timeout e)) k md'))"
proof -
  obtain x b where "kv_value m (md_key e k) = Some x" "DecodeString x = Some b"
    "Unmarshal_Metadata b zero_Metadata = Some md"
    using assms
    by (auto simp: file_md_def read_md_def unmarshalMDv3_def go_path split: option.splits sum.splits
        bind_splits if_splits)
  then have "requests_at n m (call_prog e tok j (Call_Load k)) m (map_prog Content (load_rest e (Some (n + srv_timeout e)) k md))"
    unfolding call_prog.simps load_prog_def prog.map
    by - (rule requests_answered; simp add: point_read_value assms(4))+
  then show ?thesis by blast
qed

lemma load_second:
  assumes "consistent e m" "wf_srv e" "good_key k" "in_time ctx n"
  shows "prog_step m n (map_prog Content (load_rest e ctx k md)) m (Done (Content
    (case files e m (comps k) of
       None \<Rightarrow> Inl (Errorf ''load: value not found but metadata exists'')
     | Some w \<Rightarrow> if sha1_Sum w \<noteq> Hash md then Inl (FailedChecksum k) else Inr w)))"
proof -
  have "kv_value m (val_key e k) = map_option EncodeToString (files e m (comps k))"
    using consistent_files [OF assms(1), of "comps k"] consistent_value [OF assms(1), of "comps k"]
      assms(2,3)
    by (cases "files e m (comps k)") (simp_all add: go_path)
  then show ?thesis
    unfolding load_rest_def prog.map prog_step_point
    using assms(4) by (intro disjI1) (simp add: point_read_value split: option.splits)
qed

section \<open>A load overtaken by a writer\<close>

text \<open>After a \<open>Store\<close> by \<open>d\<close>, a \<open>Load\<close> by \<open>c\<close> has made its first request.\<close>

lemma load_started:
  assumes "wf_srv e" "good_key k" "valid_time n" "length v < 2 ^ 63" "c \<noteq> d" "0 \<le> srv_timeout e"
  obtains s md where "shared_reachable e tok call_ok (sh_init n) s" "sh_clock s = (\<lambda>_. n)"
    "consistent e (sh_kv s)" "files e (sh_kv s) (comps k) = Some v" "Hash md = sha1_Sum v"
    "sh_run s = (\<lambda>_. None)(c \<mapsto> (Call_Load k, map_prog Content (load_rest e (Some (n + srv_timeout e)) k md)))"
proof -
  let ?s0 = "sh_init n :: 'c shared"
  have ok: "call_ok (Call_Store k v)" "call_ok (Call_Load k)" using assms(2,4) by simp_all
  obtain js where js: "Marshal_Metadata (NewMetadata k v n) = Some js"
    "requests_at n Map.empty (call_prog e (tok d) j (Call_Store k v)) (stored_kv e Map.empty k v js)
      (Done (Result None))"
    by (rule requests_store [OF assms(3,6)])
  let ?m = "stored_kv e Map.empty k v js"
  let ?s1 = "?s0\<lparr>sh_kv := ?m\<rparr>"
  have s1: "shared_reachable e tok call_ok ?s0 ?s1"
    using shared_whole_call [of ?s0 d e tok j "Call_Store k v" ?m "Done (Result None)" call_ok] js(2) ok(1)
    by (simp add: sh_init_def)
  have cons: "consistent e ?m"
    using shared_inv_reachable [OF s1 assms(1) shared_inv_init] by (auto simp: shared_inv_def)
  have f: "files e ?m (comps k) = Some v" by (simp add: files_stored assms(1,2))
  then obtain md where md: "file_md e ?m (comps k) = Some md" "Hash md = sha1_Sum v"
    using consistent_file_md [OF cons files_good [OF f]]
    by (metis (no_types, lifting) files_def option.distinct(1) option.inject)
  obtain md' where md': "Hash md' = Hash md"
    "requests_at n ?m (call_prog e (tok c) j (Call_Load k)) ?m (map_prog Content (load_rest e (Some (n + srv_timeout e)) k md'))"
    using requests_load_first [OF md(1) assms(1,2,6)] by blast
  have "shared_reachable e tok call_ok ?s1
      (?s1\<lparr>sh_kv := ?m, sh_run := (sh_run ?s1)(c \<mapsto> (Call_Load k, map_prog Content (load_rest e (Some (n + srv_timeout e)) k md')))\<rparr>)"
    using shared_call [of ?s1 c e tok j "Call_Load k" ?m "map_prog Content (load_rest e (Some (n + srv_timeout e)) k md')" call_ok]
      md'(2) ok(2) by (simp add: sh_init_def)
  from shared_reachable_trans [OF this s1] show thesis
    by (rule that) (use cons f md md' in \<open>simp_all add: sh_init_def\<close>)
qed

text \<open>Whatever another process does in between, the second request decides.\<close>

lemma load_finished:
  assumes "shared_reachable e tok call_ok (sh_init n) s" "wf_srv e" "good_key k"
    and "sh_run s c = Some (Call_Load k, map_prog Content (load_rest e ctx k md))" "in_time ctx (sh_clock s c)"
  shows "shared_step e tok call_ok (Some c) s (s\<lparr>sh_run := (sh_run s)(c \<mapsto> (Call_Load k, Done (Content
    (case files e (sh_kv s) (comps k) of
       None \<Rightarrow> Inl (Errorf ''load: value not found but metadata exists'')
     | Some w \<Rightarrow> if sha1_Sum w \<noteq> Hash md then Inl (FailedChecksum k) else Inr w))))\<rparr>)"
    (is "shared_step e tok call_ok (Some c) s ?t")
proof -
  have "consistent e (sh_kv s)"
    using shared_inv_reachable [OF assms(1,2) shared_inv_init] by (auto simp: shared_inv_def)
  from shared_step.request [OF assms(4) load_second [OF this assms(2,3,5)], of e tok call_ok]
  show ?thesis by simp
qed

text \<open>A whole call of the other process while \<open>c\<close> waits.\<close>

lemma load_overtaken:
  assumes "wf_srv e" "good_key k" "valid_time n" "length v < 2 ^ 63" "c \<noteq> d" "0 \<le> srv_timeout e"
    and "call_ok q" "\<And>m. \<exists>m' r. requests_at n m (call_prog e (tok d) j q) m' (Done r) \<and>
      files e m' (comps k) = new"
  shows "\<exists>s. shared_reachable e tok call_ok (sh_init n) s \<and> consistent e (sh_kv s) \<and>
    files e (sh_kv s) (comps k) = new \<and>
    sh_run s c = Some (Call_Load k, Done (Content (case new of
      None \<Rightarrow> Inl (Errorf ''load: value not found but metadata exists'')
    | Some w \<Rightarrow> if sha1_Sum w \<noteq> sha1_Sum v then Inl (FailedChecksum k) else Inr w)))"
proof -
  obtain s md where s: "shared_reachable e tok call_ok (sh_init n) s" "sh_clock s = (\<lambda>_. n)"
    "Hash md = sha1_Sum v"
    "sh_run s = (\<lambda>_. None)(c \<mapsto> (Call_Load k, map_prog Content (load_rest e (Some (n + srv_timeout e)) k md)))"
    by (rule load_started [OF assms(1-6), of tok]) blast
  obtain m' r where m': "requests_at n (sh_kv s) (call_prog e (tok d) j q) m' (Done r)"
    "files e m' (comps k) = new"
    using assms(8) by blast
  let ?t = "s\<lparr>sh_kv := m'\<rparr>"
  have "shared_reachable e tok call_ok s ?t"
    using shared_whole_call [of s d e tok j q m' "Done r" call_ok] m'(1) s(2,4) assms(5,7) by simp
  then have t: "shared_reachable e tok call_ok (sh_init n) ?t"
    using s(1) by (rule shared_reachable_trans)
  let ?r = "case new of None \<Rightarrow> Inl (Errorf ''load: value not found but metadata exists'')
    | Some w \<Rightarrow> if sha1_Sum w \<noteq> sha1_Sum v then Inl (FailedChecksum k) else Inr w"
  let ?u = "?t\<lparr>sh_run := (sh_run ?t)(c \<mapsto> (Call_Load k, Done (Content ?r)))\<rparr>"
  have "shared_step e tok call_ok (Some c) ?t ?u"
    using load_finished [OF t assms(1,2), of c "Some (n + srv_timeout e)" md] s(2-4) m'(2) assms(6)
    by (simp cong: option.case_cong)
  with t have u: "shared_reachable e tok call_ok (sh_init n) ?u"
    by (rule shared_reachable.next_step)
  then have "consistent e (sh_kv ?u)"
    using shared_inv_reachable [OF u assms(1) shared_inv_init] by (auto simp: shared_inv_def)
  then show ?thesis using u m'(2) by (intro exI [of _ ?u]) simp
qed

end
