(* ===== verification/Lock_Protocol.thy ===== *)
theory Lock_Protocol
  imports Locks
begin

text \<open>
  The protocol by which processes compete for one lock, as a transition system over the lock's
  record and the clocks of the processes, of which each reads its own: what \<open>lock\<close> does to them, cut where the code lets other processes
  in.  An attempt gets a lease, reads the record, decides by a reading of the clock, stamps its
  own record with another reading and writes it.  With \<open>serial\<close> a process may read the record
  only while no other one stands between its read and its write; without it the steps
  interleave freely, as the separate \<^verbatim>\<open>Get\<close> and \<^verbatim>\<open>Put\<close> of the code allow.  \<open>synced\<close> says how
  far the clocks may be apart.  \<open>Shared_Locks\<close>
  shows that the processes of \<open>Shared\<close> follow this protocol.
\<close>

section \<open>The decision of an attempt\<close>

definition decode_lock :: "string \<Rightarrow> (Lock \<times> time) option" where
  "decode_lock v =
     (case DecodeString v of
        None \<Rightarrow> None
      | Some b \<Rightarrow>
          (case Unmarshal_Lock b zero_Lock of
             None \<Rightarrow> None
           | Some l \<Rightarrow>
               (case UnmarshalText (Obtained l) of None \<Rightarrow> None | Some t \<Rightarrow> Some (l, t))))"

lemma read_lock_decode:
  "read_lock m lk = (case kv_value m lk of None \<Rightarrow> None | Some v \<Rightarrow> decode_lock v)"
  by (simp add: read_lock_def decode_lock_def split: option.split)

text \<open>\<open>okToSet\<close> as a function of the record read and the time.\<close>

definition settable :: "int \<Rightarrow> string \<Rightarrow> string option \<Rightarrow> time \<Rightarrow> bool" where
  "settable timeout tok y n \<longleftrightarrow>
     (case y of
        None \<Rightarrow> True
      | Some v \<Rightarrow>
          (case decode_lock v of
             None \<Rightarrow> False
           | Some (l, lockTime) \<Rightarrow> Token l = tok \<or> timeout \<le> time_Sub n lockTime))"

lemma decode_written:
  assumes "MarshalText n = Some ts" "int64 i" "sanitize tok = tok"
  shows "decode_lock (lock_value tok key i ts) =
    Some (\<lparr> Token = tok, Obtained = ts, Key = sanitize key, LeaseID = i \<rparr>, n)"
  using read_lock_written [OF assms(1,2), of "\<lambda>_. None" "[]" tok key 0] assms(3)
  by (simp add: read_lock_decode)

section \<open>The transition system\<close>

text \<open>Where a process stands in an attempt: it has a lease, has read the record, has decided
  that it may write, has stamped its record.\<close>

datatype phase = Idle | Granted int | Seen int "string option" | Checked int | Stamped int time

fun in_window :: "phase \<Rightarrow> bool" where
  "in_window Idle \<longleftrightarrow> False"
| "in_window (Granted i) \<longleftrightarrow> False"
| "in_window (Seen i y) \<longleftrightarrow> True"
| "in_window (Checked i) \<longleftrightarrow> True"
| "in_window (Stamped i n) \<longleftrightarrow> True"

text \<open>The record comes with the lease it is attached to; a process that has acquired the lock
  remembers the stamp of its record.\<close>

record 'c proto =
  p_rec :: "(string \<times> int) option"
  p_clock :: "'c \<Rightarrow> time"
  p_phase :: "'c \<Rightarrow> phase"
  p_held :: "'c \<Rightarrow> time option"

definition p_init :: "(string \<times> int) option \<Rightarrow> ('c \<Rightarrow> time) \<Rightarrow> 'c proto" where
  "p_init r clk = \<lparr> p_rec = r, p_clock = clk, p_phase = (\<lambda>_. Idle), p_held = (\<lambda>_. None) \<rparr>"

definition drop_rec :: "int \<Rightarrow> (string \<times> int) option \<Rightarrow> (string \<times> int) option" where
  "drop_rec i r =
     (case r of Some (v, l) \<Rightarrow> if l = i \<and> l \<noteq> 0 then None else Some (v, l) | None \<Rightarrow> None)"

lemma drop_rec_lease: "drop_lease i m k = drop_rec i (m k)"
  by (simp add: drop_lease_def drop_rec_def)

inductive lock_step ::
  "bool \<Rightarrow> (('c \<Rightarrow> time) \<Rightarrow> bool) \<Rightarrow> int \<Rightarrow> ('c \<Rightarrow> string) \<Rightarrow> 'c proto \<Rightarrow> 'c proto \<Rightarrow> bool"
  for serial synced timeout tok where
  tick: "(\<And>c. p_clock s c \<le> clk c) \<Longrightarrow> synced clk \<Longrightarrow>
    lock_step serial synced timeout tok s (s\<lparr>p_clock := clk\<rparr>)"
| grant: "p_phase s c = Idle \<Longrightarrow> int64 i \<Longrightarrow>
    lock_step serial synced timeout tok s (s\<lparr>p_phase := (p_phase s)(c := Granted i)\<rparr>)"
| read: "p_phase s c = Granted i \<Longrightarrow> (serial \<longrightarrow> (\<forall>d. \<not> in_window (p_phase s d))) \<Longrightarrow>
    lock_step serial synced timeout tok s
      (s\<lparr>p_phase := (p_phase s)(c := Seen i (map_option fst (p_rec s)))\<rparr>)"
| decide: "p_phase s c = Seen i y \<Longrightarrow> settable timeout (tok c) y (p_clock s c) \<Longrightarrow>
    lock_step serial synced timeout tok s (s\<lparr>p_phase := (p_phase s)(c := Checked i)\<rparr>)"
| stamp: "p_phase s c = Checked i \<Longrightarrow>
    lock_step serial synced timeout tok s (s\<lparr>p_phase := (p_phase s)(c := Stamped i (p_clock s c))\<rparr>)"
| put: "p_phase s c = Stamped i n \<Longrightarrow> MarshalText n = Some ts \<Longrightarrow>
    lock_step serial synced timeout tok s
      (s\<lparr>p_rec := Some (lock_value (tok c) key i ts, 0),
         p_phase := (p_phase s)(c := Idle), p_held := (p_held s)(c \<mapsto> n)\<rparr>)"
| put_lost: "p_phase s c = Stamped i n \<Longrightarrow> MarshalText n = Some ts \<Longrightarrow>
    lock_step serial synced timeout tok s
      (s\<lparr>p_rec := Some (lock_value (tok c) key i ts, 0), p_phase := (p_phase s)(c := Idle)\<rparr>)"
| abandon: "lock_step serial synced timeout tok s (s\<lparr>p_phase := (p_phase s)(c := Idle)\<rparr>)"
| release: "lock_step serial synced timeout tok s (s\<lparr>p_held := (p_held s)(c := None)\<rparr>)"
| lease_ends: "lock_step serial synced timeout tok s (s\<lparr>p_rec := drop_rec i (p_rec s)\<rparr>)"

inductive_cases lock_stepE: "lock_step serial synced timeout tok s t"

definition lock_reachable ::
  "bool \<Rightarrow> (('c \<Rightarrow> time) \<Rightarrow> bool) \<Rightarrow> int \<Rightarrow> ('c \<Rightarrow> string) \<Rightarrow> 'c proto \<Rightarrow> 'c proto \<Rightarrow> bool" where
  "lock_reachable serial synced timeout tok = (lock_step serial synced timeout tok)\<^sup>*\<^sup>*"

text \<open>No clock is more than \<open>drift\<close> ahead of another.\<close>

definition clocks_within :: "int \<Rightarrow> ('c \<Rightarrow> time) \<Rightarrow> bool" where
  "clocks_within drift clk \<longleftrightarrow> (\<forall>c d. clk c \<le> clk d + drift)"

text \<open>A process holds the lock until its record is as old as the timeout, by its own clock.\<close>

definition holds :: "int \<Rightarrow> time \<Rightarrow> time option \<Rightarrow> bool" where
  "holds timeout now h \<longleftrightarrow> (\<exists>n. h = Some n \<and> now < n + timeout)"

lemma holds_None [simp]: "\<not> holds timeout n None"
  by (simp add: holds_def)

lemma holds_earlier: "n \<le> n' \<Longrightarrow> holds timeout n' h \<Longrightarrow> holds timeout n h"
  by (auto simp: holds_def)

section \<open>Serial attempts exclude each other\<close>

abbreviation p_holds :: "int \<Rightarrow> 'c proto \<Rightarrow> 'c \<Rightarrow> bool" where
  "p_holds hold s c \<equiv> holds hold (p_clock s c) (p_held s c)"

text \<open>What is known of a process in its window: what it has seen is still there; once it has
  decided, nobody else holds the lock.\<close>

fun phase_inv :: "int \<Rightarrow> 'c proto \<Rightarrow> 'c \<Rightarrow> phase \<Rightarrow> bool" where
  "phase_inv hold s c Idle \<longleftrightarrow> True"
| "phase_inv hold s c (Granted i) \<longleftrightarrow> int64 i"
| "phase_inv hold s c (Seen i y) \<longleftrightarrow> int64 i \<and> y = map_option fst (p_rec s)"
| "phase_inv hold s c (Checked i) \<longleftrightarrow> int64 i \<and> (\<forall>d. p_holds hold s d \<longrightarrow> d = c)"
| "phase_inv hold s c (Stamped i n) \<longleftrightarrow>
     int64 i \<and> n \<le> p_clock s c \<and> (\<forall>m. p_held s c = Some m \<longrightarrow> m \<le> n) \<and>
     (\<forall>d. p_holds hold s d \<longrightarrow> d = c)"

definition holder_inv :: "int \<Rightarrow> ('c \<Rightarrow> string) \<Rightarrow> 'c proto \<Rightarrow> 'c \<Rightarrow> bool" where
  "holder_inv hold tok s c \<longleftrightarrow>
     (p_holds hold s c \<longrightarrow>
        (\<exists>v l n. p_rec s = Some (v, 0) \<and> decode_lock v = Some (l, n) \<and> Token l = tok c \<and>
               the (p_held s c) \<le> n))"

definition lock_inv :: "int \<Rightarrow> int \<Rightarrow> ('c \<Rightarrow> string) \<Rightarrow> 'c proto \<Rightarrow> bool" where
  "lock_inv hold drift tok s \<longleftrightarrow>
     (\<forall>v l. p_rec s = Some (v, l) \<longrightarrow> l = 0) \<and>
     (\<forall>c d. in_window (p_phase s c) \<and> in_window (p_phase s d) \<longrightarrow> c = d) \<and>
     (\<forall>c. phase_inv hold s c (p_phase s c)) \<and>
     (\<forall>c n. p_held s c = Some n \<longrightarrow> n \<le> p_clock s c) \<and>
     (\<forall>c. holder_inv hold tok s c) \<and> clocks_within drift (p_clock s)"

lemma lock_invD:
  assumes "lock_inv hold drift tok s"
  shows "p_rec s = Some (v, l) \<Longrightarrow> l = 0"
    and "in_window (p_phase s c) \<Longrightarrow> in_window (p_phase s d) \<Longrightarrow> c = d"
    and "phase_inv hold s c (p_phase s c)"
    and "p_held s c = Some n \<Longrightarrow> n \<le> p_clock s c"
    and "holder_inv hold tok s c"
    and "clocks_within drift (p_clock s)"
  using assms unfolding lock_inv_def by blast+

lemma lock_invI:
  assumes "\<And>v l. p_rec s = Some (v, l) \<Longrightarrow> l = 0"
    and "\<And>c d. in_window (p_phase s c) \<Longrightarrow> in_window (p_phase s d) \<Longrightarrow> c = d"
    and "\<And>c. phase_inv hold s c (p_phase s c)"
    and "\<And>c n. p_held s c = Some n \<Longrightarrow> n \<le> p_clock s c"
    and "\<And>c. holder_inv hold tok s c"
    and "clocks_within drift (p_clock s)"
  shows "lock_inv hold drift tok s"
  unfolding lock_inv_def using assms by blast

lemma lock_inv_init:
  "(\<And>v l. r = Some (v, l) \<Longrightarrow> l = 0) \<Longrightarrow> clocks_within drift clk \<Longrightarrow> lock_inv hold drift tok (p_init r clk)"
  by (simp add: lock_inv_def p_init_def holder_inv_def)

lemma drop_rec_unleased: "(\<And>v l. r = Some (v, l) \<Longrightarrow> l = 0) \<Longrightarrow> drop_rec i r = r"
  by (cases r) (auto simp: drop_rec_def)

text \<open>Changes that keep what is known of a process.\<close>

lemma phase_inv_mono:
  assumes "phase_inv hold s c ph"
    and "p_rec t = p_rec s" "p_clock s c \<le> p_clock t c"
    and "\<And>d. p_holds hold t d \<Longrightarrow> p_holds hold s d"
    and "p_held t c = p_held s c \<or> p_held t c = None"
  shows "phase_inv hold t c ph"
  using assms by (cases ph) auto

lemma holder_inv_mono:
  assumes "holder_inv hold tok s c"
    and "p_rec t = p_rec s" "p_holds hold t c \<Longrightarrow> p_holds hold s c \<and> p_held t c = p_held s c"
  shows "holder_inv hold tok t c"
  using assms by (auto simp: holder_inv_def)

text \<open>A step of one process that changes neither the record, the clock nor the holders.\<close>

lemma lock_inv_phase:
  assumes inv: "lock_inv hold drift tok s" and t: "t = s\<lparr>p_phase := (p_phase s)(c := ph)\<rparr>"
    and ph: "phase_inv hold s c ph"
    and win: "in_window ph \<Longrightarrow> in_window (p_phase s c) \<or> (\<forall>d. \<not> in_window (p_phase s d))"
  shows "lock_inv hold drift tok t"
proof (rule lock_invI)
  note D = lock_invD [OF inv]
  show "a = b" if "in_window (p_phase t a)" "in_window (p_phase t b)" for a b
  proof (cases "in_window ph \<and> (\<forall>d. \<not> in_window (p_phase s d))")
    case True
    with that t show ?thesis by (auto split: if_splits)
  next
    case False
    with that win t have "in_window (p_phase s a)" "in_window (p_phase s b)"
      by (auto split: if_splits)
    then show ?thesis by (rule D(2))
  qed
  show "phase_inv hold t a (p_phase t a)" for a
    using phase_inv_mono [OF D(3), where t = t] phase_inv_mono [OF ph, where t = t] t by auto
  show "holder_inv hold tok t a" for a
    by (rule holder_inv_mono [OF D(5)]) (simp_all add: t)
qed (use lock_invD(1,4,6) [OF inv] t in auto)

text \<open>Writing the record of the only process that may write.\<close>

lemma lock_inv_put:
  assumes inv: "lock_inv hold drift tok s" and c: "p_phase s c = Stamped i n"
    and ts: "MarshalText n = Some ts" and tok: "sanitize (tok c) = tok c"
    and held: "held' = p_held s \<or> held' = (p_held s)(c \<mapsto> n)"
    and t: "t = s\<lparr>p_rec := Some (lock_value (tok c) key i ts, 0),
                 p_phase := (p_phase s)(c := Idle), p_held := held'\<rparr>"
  shows "lock_inv hold drift tok t"
proof (rule lock_invI)
  note D = lock_invD [OF inv]
  have win: "\<not> in_window (p_phase t d)" for d
    using D(2) [of d c] c t by auto
  then show "a = b" if "in_window (p_phase t a)" "in_window (p_phase t b)" for a b
    using that by blast
  show "phase_inv hold t a (p_phase t a)" for a
    using win [of a] D(3) [of a] t by (cases "p_phase s a") auto
  have only: "d = c" if "p_holds hold t d" for d
    using that D(3) [of c] c held t by (auto split: if_splits)
  have own: "m \<le> n" if "p_held s c = Some m" for m
    using D(3) [of c] c that by auto
  have "int64 i" using D(3) [of c] c by simp
  then have written: "decode_lock (lock_value (tok c) key i ts) =
      Some (\<lparr> Token = tok c, Obtained = ts, Key = sanitize key, LeaseID = i \<rparr>, n)"
    by (rule decode_written [OF ts _ tok])
  have stamp: "the (held' c) \<le> n" if "held' c \<noteq> None"
    using that held own by auto
  show "holder_inv hold tok t a" for a
    unfolding holder_inv_def
  proof
    assume a: "p_holds hold t a"
    then have "a = c" by (rule only)
    moreover have "p_held t a = held' a" by (simp add: t)
    then have "held' a \<noteq> None" using a by (auto simp: holds_def)
    ultimately show "\<exists>v l m. p_rec t = Some (v, 0) \<and> decode_lock v = Some (l, m) \<and>
        Token l = tok a \<and> the (p_held t a) \<le> m"
      using written stamp t by simp
  qed
  show "m \<le> p_clock t a" if "p_held t a = Some m" for a m
    using that held t D(3) [of c] c D(4) [of a m] by (auto split: if_splits)
qed (use t lock_invD(6) [OF inv] in auto)

lemma lock_inv_step:
  assumes "lock_step True (clocks_within drift) timeout tok s t" "lock_inv hold drift tok s"
    and "inj tok" "\<And>c. sanitize (tok c) = tok c"
    and "0 < timeout" "timeout \<le> max_duration" "hold + drift \<le> timeout"
  shows "lock_inv hold drift tok t"
  using assms(1)
proof (cases rule: lock_step.cases)
  note D = lock_invD [OF assms(2)]
  case (tick clk)
  have later: "p_holds hold t d \<Longrightarrow> p_holds hold s d" for d
    using tick holds_earlier [of "p_clock s d" "clk d"] by simp
  show ?thesis
  proof (rule lock_invI)
    show "phase_inv hold t c (p_phase t c)" for c
      using phase_inv_mono [OF D(3) _ _ later, of t c] tick by simp
    show "holder_inv hold tok t c" for c
      by (rule holder_inv_mono [OF D(5)]) (use tick later in simp_all)
    show "m \<le> p_clock t c" if "p_held t c = Some m" for c m
      using that D(4) [of c m] tick(2) [of c] tick(1) by simp
  qed (use D(1,2) tick in auto)
next
  case (grant c i)
  then show ?thesis
    by (intro lock_inv_phase [OF assms(2)]) auto
next
  case (read c i)
  then show ?thesis
    using lock_invD(3) [OF assms(2), of c] by (intro lock_inv_phase [OF assms(2) read(1)]) auto
next
  case (decide c i y)
  note D = lock_invD [OF assms(2)]
  have "d = c" if d: "p_holds hold s d" for d
  proof (rule ccontr)
    assume "d \<noteq> c"
    obtain v l n' where l: "p_rec s = Some (v, 0)" "decode_lock v = Some (l, n')" "Token l = tok d"
      "the (p_held s d) \<le> n'"
      using D(5) [of d] d by (auto simp: holder_inv_def)
    have "y = Some v" using D(3) [of c] decide(2) l(1) by simp
    then have "timeout \<le> time_Sub (p_clock s c) n'"
      using decide(3) l(2,3) \<open>d \<noteq> c\<close> assms(3) by (simp add: settable_def inj_eq)
    then have "n' + timeout \<le> p_clock s c" using time_Sub_ge_iff [OF assms(5,6)] by simp
    moreover have "p_clock s c \<le> p_clock s d + drift" using D(6) by (simp add: clocks_within_def)
    ultimately show False using d l(4) assms(7) by (auto simp: holds_def)
  qed
  then show ?thesis
    using D(3) [of c] decide by (intro lock_inv_phase [OF assms(2) decide(1)]) auto
next
  case (stamp c i)
  then show ?thesis
    using lock_invD(3) [OF assms(2), of c] lock_invD(4) [OF assms(2), of c]
    by (intro lock_inv_phase [OF assms(2) stamp(1)]) auto
next
  case (put c i n ts key)
  show ?thesis
    by (rule lock_inv_put [OF assms(2) put(2,3) assms(4) disjI2 [OF refl] put(1)])
next
  case (put_lost c i n ts key)
  show ?thesis
    by (rule lock_inv_put [OF assms(2) put_lost(2,3) assms(4) disjI1 [OF refl]])
       (simp add: put_lost(1))
next
  case (abandon c)
  then show ?thesis
    by (intro lock_inv_phase [OF assms(2)]) auto
next
  note D = lock_invD [OF assms(2)]
  case (release c)
  have fewer: "p_holds hold s d \<and> p_held t d = p_held s d" if "p_holds hold t d" for d
    using that release by (auto split: if_splits)
  have kept: "p_held t d = p_held s d \<or> p_held t d = None" for d
    using release by simp
  show ?thesis
  proof (rule lock_invI)
    show "phase_inv hold t d (p_phase t d)" for d
    proof -
      have "phase_inv hold t d (p_phase s d)"
      proof (rule phase_inv_mono [OF D(3)])
        show "p_rec t = p_rec s" "p_clock s d \<le> p_clock t d" using release by simp_all
        show "p_holds hold s x" if "p_holds hold t x" for x using fewer [OF that] by blast
      qed (rule kept)
      then show ?thesis using release by simp
    qed
    show "holder_inv hold tok t d" for d
    proof (rule holder_inv_mono [OF D(5)])
      show "p_rec t = p_rec s" using release by simp
    qed (rule fewer)
    show "m \<le> p_clock t d" if "p_held t d = Some m" for d m
      using that D(4) [of d m] release by (auto split: if_splits)
  qed (use D(1,2,6) release in auto)
next
  case (lease_ends i)
  then have "t = s" using drop_rec_unleased [OF lock_invD(1) [OF assms(2)]] by simp
  then show ?thesis using assms(2) by simp
qed

lemma lock_inv_reachable:
  assumes "lock_reachable True (clocks_within drift) timeout tok p q" "lock_inv hold drift tok p"
    and "inj tok" "\<And>c. sanitize (tok c) = tok c"
    and "0 < timeout" "timeout \<le> max_duration" "hold + drift \<le> timeout"
  shows "lock_inv hold drift tok q"
  using assms(1,2) unfolding lock_reachable_def
  by (induction rule: rtranclp_induct) (auto intro: lock_inv_step [OF _ _ assms(3-7)])

text \<open>At most one process holds the lock when attempts do not overlap, and the record is its.
  A process may rely on the lock only for the timeout less the drift of the clocks.\<close>

lemma lock_inv_holder:
  assumes "lock_inv hold drift tok s" "p_holds hold s c"
  shows "\<exists>v l n. p_rec s = Some (v, 0) \<and> decode_lock v = Some (l, n) \<and> Token l = tok c"
  using lock_invD(5) [OF assms(1), of c] assms(2) by (auto simp: holder_inv_def)

lemma serial_exclusion:
  assumes "lock_inv hold drift tok s" "inj tok" "p_holds hold s c" "p_holds hold s d"
  shows "c = d"
  using lock_inv_holder [OF assms(1,3)] lock_inv_holder [OF assms(1,4)] assms(2)
  by (auto simp: inj_eq)

end
