(* ===== verification/Shared_Locks.thy ===== *)
theory Shared_Locks
  imports Shared_Files Lock_Protocol
begin

text \<open>
  The processes of \<open>Shared\<close> follow the protocol of \<open>Lock_Protocol\<close>: a forward simulation from
  the system of programs to the transition system over one lock's record, for every lock and
  whatever other calls the processes make.
\<close>

section \<open>Who holds the lock\<close>

text \<open>A process in the middle of an attempt: it has read the record and may write it, so its
  next request is a clock reading or the write.\<close>

fun asks_window :: "'r prog \<Rightarrow> bool" where
  "asks_window (Now f) \<longleftrightarrow> True"
| "asks_window (Put ctx k v f) \<longleftrightarrow> True"
| "asks_window _ \<longleftrightarrow> False"

abbreviation same_lock :: "etcdsrv \<Rightarrow> string \<Rightarrow> string \<Rightarrow> bool" where
  "same_lock e k key \<equiv> lock_key e k = lock_key e key"

definition at_window :: "etcdsrv \<Rightarrow> string \<Rightarrow> 'c shared \<Rightarrow> 'c \<Rightarrow> bool" where
  "at_window e key s c \<longleftrightarrow>
     (case sh_run s c of
        Some (Call_Lock k, p) \<Rightarrow> same_lock e k key \<and> asks_window p
      | _ \<Rightarrow> False)"

definition one_window :: "etcdsrv \<Rightarrow> string \<Rightarrow> 'c shared \<Rightarrow> bool" where
  "one_window e key s \<longleftrightarrow> (\<forall>c d. at_window e key s c \<and> at_window e key s d \<longrightarrow> c = d)"

text \<open>A process whose call of \<open>Lock\<close> has just returned without an error holds the lock, and
  remembers the date of its record; from its call of \<open>Unlock\<close> on it no longer does.\<close>

definition held_after ::
  "etcdsrv \<Rightarrow> string \<Rightarrow> 'c option \<Rightarrow> 'c shared \<Rightarrow> ('c \<Rightarrow> time option) \<Rightarrow> ('c \<Rightarrow> time option)" where
  "held_after e key l t h =
     (case l of
        None \<Rightarrow> h
      | Some c \<Rightarrow>
          (case sh_run t c of
             Some (Call_Lock k, p) \<Rightarrow>
               if same_lock e k key \<and> answer p = Some (Result None)
               then h(c := map_option snd (read_lock (sh_kv t) (lock_key e key))) else h
           | Some (Call_Unlock k, p) \<Rightarrow> if same_lock e k key then h(c := None) else h
           | _ \<Rightarrow> h))"

text \<open>Runs with that history; with \<open>serial\<close> no two attempts overlap, and \<open>synced\<close> holds of the
  clocks all the time.\<close>

inductive contest ::
  "bool \<Rightarrow> (('c \<Rightarrow> time) \<Rightarrow> bool) \<Rightarrow> etcdsrv \<Rightarrow> ('c \<Rightarrow> string) \<Rightarrow> string \<Rightarrow> 'c shared \<Rightarrow> 'c shared \<Rightarrow> ('c \<Rightarrow> time option) \<Rightarrow> bool"
  for serial synced e tok key s where
  start: "synced (sh_clock s) \<Longrightarrow> contest serial synced e tok key s s (\<lambda>_. None)"
| next_step: "contest serial synced e tok key s t h \<Longrightarrow> shared_step e tok call_ok l t u \<Longrightarrow>
    (serial \<longrightarrow> one_window e key u) \<Longrightarrow> synced (sh_clock u) \<Longrightarrow> contest serial synced e tok key s u (held_after e key l u h)"

lemma contest_reachable: "contest serial synced e tok key s t h \<Longrightarrow> shared_reachable e tok call_ok s t"
  by (induction rule: contest.induct) (auto intro: shared_reachable.intros)

lemma contest_synced: "contest serial synced e tok key s t h \<Longrightarrow> synced (sh_clock t)"
  by (induction rule: contest.induct) auto

section \<open>The phase of a program\<close>

inductive lock_phase :: "etcdsrv \<Rightarrow> string \<Rightarrow> string \<Rightarrow> go_error option prog \<Rightarrow> phase \<Rightarrow> bool"
  for e tok k where
  at_start: "lock_phase e tok k (lock_prog e tok k) Idle"
| at_wait: "lock_phase e tok k (wait_prog e ctx tok k) Idle"
| at_grant: "lock_phase e tok k (grant_prog e ctx tok k) Idle"
| at_read: "int64 i \<Longrightarrow> lock_phase e tok k (read_prog e ctx tok k i) (Granted i)"
| at_decide: "int64 i \<Longrightarrow> asks_window (decide_prog e ctx tok k i [x]) \<Longrightarrow>
    lock_phase e tok k (decide_prog e ctx tok k i [x]) (Seen i (Some (KvValue x)))"
| at_stamp: "int64 i \<Longrightarrow> lock_phase e tok k (stamp_prog e ctx tok k i) (Checked i)"
| at_put: "int64 i \<Longrightarrow> MarshalText n = Some ts \<Longrightarrow>
    lock_phase e tok k (put_prog e ctx tok k i ts) (Stamped i n)"
| at_end: "lock_phase e tok k (Done r) Idle"

lemma lock_phase_window: "lock_phase e tok k x ph \<Longrightarrow> in_window ph \<Longrightarrow> asks_window x"
  by (cases rule: lock_phase.cases) (auto simp: stamp_prog_def put_prog_def)

lemma asks_window_map [simp]: "asks_window (map_prog g p) \<longleftrightarrow> asks_window p"
  by (cases p) simp_all

lemma decide_cases:
  obtains (decodes) l lt where "decode_lock (KvValue x) = Some (l, lt)"
      "decide_prog e ctx tok k i [x] = Now (\<lambda>n.
         if Token l = tok \<or> LockTimeout (cfg e) \<le> time_Sub n lt then stamp_prog e ctx tok k i
         else Done (Some (LockError k (LockTimeout (cfg e)) (Some (Errorf ''lock already exists'')))))"
  | (corrupt) r where "decide_prog e ctx tok k i [x] = Done r" "r \<noteq> None"
  by (cases "DecodeString (KvValue x)"; cases "Unmarshal_Lock (the (DecodeString (KvValue x))) zero_Lock";
      cases "UnmarshalText (Obtained (the (Unmarshal_Lock (the (DecodeString (KvValue x))) zero_Lock)))")
     (auto simp: decide_prog_def decode_lock_def)

text \<open>One request of an attempt is a run of the protocol.\<close>

lemma attempt_step:
  assumes ph: "lock_phase e (tok c) k x ph" and st: "prog_step m n x m' x'"
    and p: "p_rec p = m (lock_key e k)" "p_clock p c = n" "p_phase p c = ph"
    and ser: "serial \<Longrightarrow> asks_window x' \<Longrightarrow> \<forall>d. d \<noteq> c \<longrightarrow> \<not> in_window (p_phase p d)"
  shows "\<exists>p' ph'. (lock_step serial synced (LockTimeout (cfg e)) tok)\<^sup>*\<^sup>* p p' \<and> lock_phase e (tok c) k x' ph' \<and>
    p_rec p' = m' (lock_key e k) \<and> p_clock p' = p_clock p \<and> p_phase p' = (p_phase p)(c := ph') \<and>
    p_held p' = (if answer x' = Some None
                 then (p_held p)(c := map_option snd (read_lock m' (lock_key e k)))
                 else p_held p)"
    (is "\<exists>p' ph'. ?S\<^sup>*\<^sup>* p p' \<and> ?Q p' ph'")
proof -
  have same: ?thesis if "lock_phase e (tok c) k x' ph" "m' = m" "answer x' \<noteq> Some None"
    using that p by (intro exI [of _ p] exI [of _ ph]) (auto simp: fun_upd_idem)
  have quit: ?thesis if "x' = Done r" "m' = m" "r \<noteq> None" for r
  proof -
    have "?S p (p\<lparr>p_phase := (p_phase p)(c := Idle)\<rparr>)" by (rule lock_step.abandon)
    then show ?thesis
      using that p lock_phase.at_end by (intro exI [of _ "p\<lparr>p_phase := (p_phase p)(c := Idle)\<rparr>"]
          exI [of _ Idle]) auto
  qed
  from ph show ?thesis
  proof cases
    case at_start
    then have "m' = m" "x' = wait_prog e (Some (n + srv_timeout e)) (tok c) k"
      using st by (simp_all add: lock_prog_def)
    then show ?thesis
      using same at_start lock_phase.at_wait by (auto simp: wait_prog_def)
  next
    case (at_wait ctx)
    then consider err where "m' = m" "x' = Done (Some err)" | "m' = m" "x' = grant_prog e ctx (tok c) k"
      using st by (auto simp: wait_prog_def)
    then show ?thesis
    proof cases
      case 2
      then show ?thesis
        using same at_wait lock_phase.at_grant by (auto simp: grant_prog_def)
    qed (use quit in auto)
  next
    case (at_grant ctx)
    then consider err where "m' = m" "x' = Done (Some err)"
      | i where "m' = m" "x' = read_prog e ctx (tok c) k i" "int64 i"
      using st by (auto simp: grant_prog_def)
    then show ?thesis
    proof cases
      case 2
      have "?S p (p\<lparr>p_phase := (p_phase p)(c := Granted i)\<rparr>)"
        using at_grant(2) p(3) 2(3) by (intro lock_step.grant) simp_all
      then show ?thesis
        using p 2 lock_phase.at_read [OF 2(3)]
        by (intro exI [of _ "p\<lparr>p_phase := (p_phase p)(c := Granted i)\<rparr>"] exI [of _ "Granted i"])
           (auto simp: read_prog_def)
    qed (use quit in auto)
  next
    case (at_read i ctx)
    have ph': "p_phase p c = Granted i" using at_read(2) p(3) by simp
    consider err where "m' = m" "x' = Done (Some err)"
      | "m' = m" "x' = decide_prog e ctx (tok c) k i (point_read m (lock_key e k))"
      using st at_read(1) by (auto simp: read_prog_def)
    then show ?thesis
    proof cases
      case 2
      note x' = this
      let ?seen = "\<lambda>y. p\<lparr>p_phase := (p_phase p)(c := Seen i y)\<rparr>"
      have reads: "?S p (?seen (map_option fst (p_rec p)))" if "asks_window x'"
      proof (rule lock_step.read [OF ph'])
        show "serial \<longrightarrow> (\<forall>d. \<not> in_window (p_phase p d))"
          using ser that ph' by (metis in_window.simps(2))
      qed
      show ?thesis
      proof (cases "m (lock_key e k)")
        case None
        then have x: "x' = stamp_prog e ctx (tok c) k i" using x' by (simp add: point_read_def decide_prog_def)
        then have "?S p (?seen None)" using reads None p by (simp add: stamp_prog_def)
        moreover have "?S (?seen None) (p\<lparr>p_phase := (p_phase p)(c := Checked i)\<rparr>)"
          using lock_step.decide [of "?seen None" c i None "LockTimeout (cfg e)" tok serial synced]
          by (simp add: settable_def)
        ultimately have "?S\<^sup>*\<^sup>* p (p\<lparr>p_phase := (p_phase p)(c := Checked i)\<rparr>)"
          by (meson converse_rtranclp_into_rtranclp r_into_rtranclp)
        then show ?thesis
          using p x x'(1) lock_phase.at_stamp [OF at_read(3)]
          by (intro exI [of _ "p\<lparr>p_phase := (p_phase p)(c := Checked i)\<rparr>"] exI [of _ "Checked i"])
             (auto simp: stamp_prog_def)
      next
        case (Some vl)
        obtain v l where vl: "vl = (v, l)" by (cases vl)
        let ?x = "\<lparr> KvKey = lock_key e k, KvValue = v \<rparr>"
        have x: "x' = decide_prog e ctx (tok c) k i [?x]" using x' Some vl by (simp add: point_read_def)
        show ?thesis
        proof (cases rule: decide_cases [of ?x e ctx "tok c" k i])
          case (decodes l' lt)
          then have w: "asks_window x'" using x by simp
          have "?S p (?seen (Some v))" using reads [OF w] Some vl p by simp
          moreover have "lock_phase e (tok c) k x' (Seen i (Some v))"
            using lock_phase.at_decide [OF at_read(3), of e ctx "tok c" k ?x] w x by simp
          ultimately show ?thesis
            using p x decodes x'(1) by (intro exI [of _ "?seen (Some v)"] exI [of _ "Seen i (Some v)"]) auto
        qed (use quit x x'(1) in auto)
      qed
    qed (use quit in auto)
  next
    case (at_decide i ctx y)
    show ?thesis
    proof (cases rule: decide_cases [of y e ctx "tok c" k i])
      case (decodes l lt)
      then have x': "m' = m" "x' = (if Token l = tok c \<or> LockTimeout (cfg e) \<le> time_Sub n lt
          then stamp_prog e ctx (tok c) k i
          else Done (Some (LockError k (LockTimeout (cfg e)) (Some (Errorf ''lock already exists'')))))"
        using st at_decide(1) by simp_all
      show ?thesis
      proof (cases "Token l = tok c \<or> LockTimeout (cfg e) \<le> time_Sub n lt")
        case True
        have "?S p (p\<lparr>p_phase := (p_phase p)(c := Checked i)\<rparr>)"
          using at_decide(2) p(2,3) True decodes(1)
          by (intro lock_step.decide [where y = "Some (KvValue y)"]) (auto simp: settable_def)
        then show ?thesis
          using p x' True lock_phase.at_stamp [OF at_decide(3)]
          by (intro exI [of _ "p\<lparr>p_phase := (p_phase p)(c := Checked i)\<rparr>"] exI [of _ "Checked i"])
             (auto simp: stamp_prog_def)
      qed (use quit x' in auto)
    qed (use at_decide(4) in auto)
  next
    case (at_stamp i ctx)
    then have x': "m' = m" "x' = (case MarshalText n of
        None \<Rightarrow> Done (Some (Wrap err_time_marshal ''lock: failed to marshal current UTC time''))
      | Some ts \<Rightarrow> put_prog e ctx (tok c) k i ts)"
      using st by (simp_all add: stamp_prog_def)
    show ?thesis
    proof (cases "MarshalText n")
      case (Some ts)
      have "?S p (p\<lparr>p_phase := (p_phase p)(c := Stamped i (p_clock p c))\<rparr>)"
        using at_stamp(2) p(3) by (intro lock_step.stamp) simp
      then show ?thesis
        using p x' Some lock_phase.at_put [OF at_stamp(3) Some]
        by (intro exI [of _ "p\<lparr>p_phase := (p_phase p)(c := Stamped i n)\<rparr>"] exI [of _ "Stamped i n"])
           (auto simp: put_prog_def)
    qed (use quit x' in auto)
  next
    case (at_put i stmp ts ctx)
    let ?v = "lock_value (tok c) k i ts"
    have ph': "p_phase p c = Stamped i stmp" using at_put(2) p(3) by simp
    consider err where "m' = m" "x' = Done (Some err)"
      | err where "m' = m(lock_key e k \<mapsto> (?v, 0))" "x' = Done (Some err)"
      | "m' = m(lock_key e k \<mapsto> (?v, 0))" "x' = Done None"
      using st at_put(1) by (auto simp: put_prog_def)
    then show ?thesis
    proof cases
      case 2
      show ?thesis
        using lock_step.put_lost [OF ph' at_put(4), of serial synced "LockTimeout (cfg e)" tok k] 2 p
          lock_phase.at_end by (intro exI conjI r_into_rtranclp) (assumption | simp)+
    next
      case 3
      show ?thesis
        using lock_step.put [OF ph' at_put(4), of serial synced "LockTimeout (cfg e)" tok k] 3 p
          lock_phase.at_end [of e "tok c" k None] read_lock_written [OF at_put(4,3), of m]
        by (intro exI conjI r_into_rtranclp) (assumption | simp)+
    qed (use quit in auto)
  next
    case (at_end r)
    then show ?thesis using st by simp
  qed
qed

section \<open>The simulation\<close>

text \<open>Where a process stands in an attempt at the lock of \<open>key\<close>.\<close>

fun client_phase ::
  "etcdsrv \<Rightarrow> string \<Rightarrow> string \<Rightarrow> (call \<times> outcome prog) option \<Rightarrow> phase \<Rightarrow> bool" where
  "client_phase e tok key (Some (Call_Lock k, y)) ph \<longleftrightarrow>
     (if same_lock e k key
      then \<exists>j x. y = map_prog Result (resume_prog j (lock_prog e tok k) x) \<and> lock_phase e tok k x ph
      else ph = Idle)"
| "client_phase e tok key _ ph \<longleftrightarrow> ph = Idle"

definition follows ::
  "etcdsrv \<Rightarrow> ('c \<Rightarrow> string) \<Rightarrow> string \<Rightarrow> 'c shared \<Rightarrow> ('c \<Rightarrow> time option) \<Rightarrow> 'c proto \<Rightarrow> bool" where
  "follows e tok key s h p \<longleftrightarrow>
     p_rec p = sh_kv s (lock_key e key) \<and> p_clock p = sh_clock s \<and> p_held p = h \<and>
     (\<forall>c. client_phase e (tok c) key (sh_run s c) (p_phase p c))"

text \<open>An attempt that is retried: what is asked and answered is that of the attempt.\<close>

lemma lock_prog_open [simp]:
  "\<not> asks_window (retry_prog j (lock_prog e tok k))" "retry_prog j (lock_prog e tok k) \<noteq> Done r"
  by (cases j; simp add: lock_prog_def)+

lemma resume_window [simp]: "asks_window (resume_prog j (lock_prog e tok k) x) \<longleftrightarrow> asks_window x"
  by (cases x) (auto simp: resume_prog_def split: nat.split option.split)

lemma resume_answer [simp]: "resume_prog j (lock_prog e tok k) x = Done None \<longleftrightarrow> x = Done None"
  by (cases x) (auto simp: resume_prog_def split: nat.split option.split)

lemma resume_step:
  assumes "prog_step m n (resume_prog j (lock_prog e tok k) x) m' y"
  obtains (attempt) i x' where "y = resume_prog i (lock_prog e tok k) x'" "prog_step m n x m' x'"
  | (retry) err i x' where "x = Done (Some err)" "y = resume_prog i (lock_prog e tok k) x'"
      "prog_step m n (lock_prog e tok k) m' x'"
proof (cases j)
  case 0
  then show ?thesis using assms attempt [of 0] by simp
next
  case (Suc i)
  let ?go = "\<lambda>i r. case r of None \<Rightarrow> Done None | Some err \<Rightarrow> retry_prog i (lock_prog e tok k)"
  have "prog_step m n (bind_prog x (?go i)) m' y"
    using assms Suc by (simp add: resume_prog_def)
  then show ?thesis
  proof (cases rule: prog_step_bind)
    case (1 r)
    then obtain err where x: "x = Done (Some err)"
      and st: "prog_step m n (retry_prog i (lock_prog e tok k)) m' y"
      by (cases r) simp_all
    show ?thesis
    proof (cases i)
      case 0
      then show ?thesis using st retry [OF x, of 0] by simp
    next
      case (Suc i')
      then have "prog_step m n (bind_prog (lock_prog e tok k) (?go i')) m' y" using st by simp
      then show ?thesis
      proof (cases rule: prog_step_bind)
        case (2 x')
        then show ?thesis using retry [OF x, of "Suc i'" x'] by (simp add: resume_prog_def)
      qed (simp add: lock_prog_def)
    qed
  next
    case (2 x')
    then show ?thesis using attempt [of "Suc i" x'] by (simp add: resume_prog_def)
  qed
qed

lemma lock_phase_Done: "lock_phase e tok k (Done r) ph \<Longrightarrow> ph = Idle"
  using lock_phase_window [of e tok k "Done r" ph]
  by (cases ph) (auto simp: read_prog_def elim: lock_phase.cases)

lemma resume_phase:
  assumes "prog_step m n (resume_prog j (lock_prog e tok k) x) m' y" "lock_phase e tok k x ph"
  obtains i x1 x2 where "y = resume_prog i (lock_prog e tok k) x2" "prog_step m n x1 m' x2"
    "lock_phase e tok k x1 ph"
  using assms(1)
proof (cases rule: resume_step)
  case (retry err i x')
  then show ?thesis using that [of i x'] lock_phase_Done assms(2) lock_phase.at_start by metis
qed (use that assms(2) in blast)

text \<open>A phase is idle outside an attempt, and in its window only if the program is.\<close>

lemma client_phase_Idle: "(\<And>k y. r = Some (Call_Lock k, y) \<Longrightarrow> \<not> same_lock e k key) \<Longrightarrow>
    client_phase e tok key r ph \<longleftrightarrow> ph = Idle"
  by (cases "(e, tok, key, r, ph)" rule: client_phase.cases) auto

lemma client_phase_window:
  assumes "client_phase e tok key r ph" "in_window ph"
  shows "\<exists>k y. r = Some (Call_Lock k, y) \<and> same_lock e k key \<and> asks_window y"
  using assms
  by (cases "(e, tok, key, r, ph)" rule: client_phase.cases)
     (auto dest: lock_phase_window split: if_splits)

text \<open>Other calls leave the record of the lock alone, but for ending its lease.\<close>

lemma other_calls:
  assumes "wf_srv e" "no_dotdot key" "call_ok q" "call_effect e q m m' p"
    and "\<And>k. q = Call_Lock k \<Longrightarrow> \<not> same_lock e k key"
  shows "m' (lock_key e key) = m (lock_key e key) \<or>
    (\<exists>i. m' (lock_key e key) = drop_rec i (m (lock_key e key)))"
proof -
  have lk: "lock_key e key = lock_at e (comps key)" "list_all plain_comp (comps key)"
    using assms(1,2) by (simp_all add: lock_key_render plain_comps)
  have ne: "lock_key e key \<noteq> val_key e k" "lock_key e key \<noteq> md_key e k" if "good_key k" for k
    using that lk assms(1) lock_val_disjoint lock_md_disjoint by (auto simp: go_path good_pathD)
  show ?thesis
  proof (cases q)
    case (Call_Store k v)
    then show ?thesis
      using assms(3,4) ne [of k] by (auto simp: stored_kv_def apply_ops_other)
  next
    case (Call_Delete k)
    then show ?thesis
      using assms(3,4) ne [of k] by (auto simp: deleted_kv_def apply_ops_other)
  next
    case (Call_Lock k)
    then show ?thesis using assms(4,5) by auto
  next
    case (Call_Unlock k)
    then show ?thesis using assms(4) by (auto simp: drop_rec_lease)
  qed (use assms(4) in auto)
qed

text \<open>Every step of the system is a run of the protocol.\<close>

lemma follows_step:
  assumes wf: "wf_srv e" "no_dotdot key" and inv: "shared_inv e s"
    and step: "shared_step e tok call_ok l s t" and fol: "follows e tok key s h p"
    and ser: "serial \<Longrightarrow> one_window e key t" and sync: "synced (sh_clock t)"
  shows "\<exists>q. (lock_step serial synced (LockTimeout (cfg e)) tok)\<^sup>*\<^sup>* p q \<and>
    follows e tok key t (held_after e key l t h) q"
    (is "\<exists>q. ?S\<^sup>*\<^sup>* p q \<and> ?F q")
proof -
  have F: "p_rec p = sh_kv s (lock_key e key)" "p_clock p = sh_clock s" "p_held p = h"
    "\<And>c. client_phase e (tok c) key (sh_run s c) (p_phase p c)"
    using fol by (auto simp: follows_def)
  have upd: "\<And>d. client_phase e (tok d) key (((sh_run s)(c := x)) d) (((p_phase p)(c := ph)) d)"
    if "client_phase e (tok c) key x ph" for c x ph
    using F(4) that by simp
  from step show ?thesis
  proof cases
    case (time_passes clk)
    have "?S p (p\<lparr>p_clock := clk\<rparr>)" using time_passes F(2) sync by (intro lock_step.tick) simp_all
    then show ?thesis
      using F time_passes by (intro exI [of _ "p\<lparr>p_clock := clk\<rparr>"]) (auto simp: follows_def held_after_def)
  next
    case (lease_ends i)
    have "?S p (p\<lparr>p_rec := drop_rec i (p_rec p)\<rparr>)" by (rule lock_step.lease_ends)
    then show ?thesis
      using F lease_ends
      by (intro exI [of _ "p\<lparr>p_rec := drop_rec i (p_rec p)\<rparr>"])
         (auto simp: follows_def held_after_def drop_rec_lease)
  next
    case (leave c)
    have "?S p (p\<lparr>p_phase := (p_phase p)(c := Idle)\<rparr>)" by (rule lock_step.abandon)
    then show ?thesis
      using F(1-3) leave upd [of c None Idle]
      by (intro exI [of _ "p\<lparr>p_phase := (p_phase p)(c := Idle)\<rparr>"])
         (auto simp: follows_def held_after_def)
  next
    case (call c q n)
    have idle: "p_phase p c = Idle" using F(4) [of c] call(3) by simp
    have cl: "client_phase e (tok c) key (Some (q, call_prog e (tok c) n q)) Idle"
      by (cases q) (auto simp: Lock_prog_def retry_resume intro!: lock_phase.at_start)
    have "call_prog e (tok c) n q \<noteq> Done r" for r
      by (cases q) (simp_all add: store_prog_def load_prog_def delete_prog_def metadata_prog_def
          list_prog_def Lock_prog_def unlock_prog_def)
    then have ans: "answer (call_prog e (tok c) n q) = None"
      by (metis answer_Some not_None_eq)
    show ?thesis
    proof (cases "\<exists>k. q = Call_Unlock k \<and> same_lock e k key")
      case True
      have "?S p (p\<lparr>p_held := (p_held p)(c := None)\<rparr>)" by (rule lock_step.release)
      then show ?thesis
        using F(1-3) call True upd [OF cl] idle
        by (intro exI [of _ "p\<lparr>p_held := (p_held p)(c := None)\<rparr>"])
           (auto simp: follows_def held_after_def fun_upd_idem)
    next
      case False
      then have "held_after e key l t h = h"
        using call ans by (auto simp: held_after_def split: call.split)
      then show ?thesis
        using F(1-3) call upd [OF cl] idle
        by (intro exI [of _ p]) (auto simp: follows_def fun_upd_idem)
    qed
  next
    case (request c q y m y')
    have eff: "call_ok q" "call_effect e q (sh_kv s) m y'"
      using inv request(3) each_step [OF _ request(4)] by (auto simp: shared_inv_def)
    show ?thesis
    proof (cases "\<exists>k. q = Call_Lock k \<and> same_lock e k key")
      case True
      then obtain k where k: "q = Call_Lock k" "same_lock e k key" by blast
      obtain j x0 where x0: "y = map_prog Result (resume_prog j (lock_prog e (tok c) k) x0)"
        "lock_phase e (tok c) k x0 (p_phase p c)"
        using F(4) [of c] request(3) k by auto
      obtain y1 where y1: "y' = map_prog Result y1"
        "prog_step (sh_kv s) (sh_clock s c) (resume_prog j (lock_prog e (tok c) k) x0) m y1"
        using prog_step_map request(4) x0(1) by blast
      obtain i x x' where x: "lock_phase e (tok c) k x (p_phase p c)"
        and x': "y1 = resume_prog i (lock_prog e (tok c) k) x'" "prog_step (sh_kv s) (sh_clock s c) x m x'"
        using resume_phase [OF y1(2) x0(2)] by metis
      have others: "\<forall>d. d \<noteq> c \<longrightarrow> \<not> in_window (p_phase p d)" if "serial" "asks_window x'"
      proof (intro allI impI)
        fix d assume "d \<noteq> c"
        have "at_window e key t c" using request k x'(1) y1(1) that(2) by (simp add: at_window_def)
        then have "\<not> at_window e key t d"
          using ser [OF that(1)] \<open>d \<noteq> c\<close> by (auto simp: one_window_def)
        then show "\<not> in_window (p_phase p d)"
          using client_phase_window [OF F(4) [of d]] \<open>d \<noteq> c\<close> request
          by (auto simp: at_window_def)
      qed
      obtain p' ph' where p': "?S\<^sup>*\<^sup>* p p'" "lock_phase e (tok c) k x' ph'"
        "p_rec p' = m (lock_key e key)" "p_clock p' = sh_clock s" "p_phase p' = (p_phase p)(c := ph')"
        "p_held p' = (if answer x' = Some None
           then (p_held p)(c := map_option snd (read_lock m (lock_key e key))) else p_held p)"
        using attempt_step [of e tok c k x "p_phase p c" "sh_kv s" "sh_clock s c" m x' p serial synced]
          x x'(2) F(1,2) k(2) others by auto
      have cl: "client_phase e (tok c) key (Some (q, y')) ph'" using k x'(1) y1(1) p'(2) by auto
      have "y' = Done (Result None) \<longleftrightarrow> y1 = Done None" using y1(1) by (cases y1) auto
      then have "answer y' = Some (Result None) \<longleftrightarrow> answer x' = Some None" using x'(1) by simp
      then have "held_after e key l t h = p_held p'"
        using request k p'(6) F(3) by (simp add: held_after_def)
      then show ?thesis
        using p'(1,3-5) request F(1-3) upd [OF cl]
        by (intro exI [of _ p']) (auto simp: follows_def)
    next
      case False
      have cl: "client_phase e (tok c) key (Some (q, y')) (p_phase p c)"
      proof -
        have "p_phase p c = Idle"
          using client_phase_Idle [of "sh_run s c" e key "tok c"] F(4) [of c] request(3) False by auto
        moreover have "client_phase e (tok c) key (Some (q, y')) Idle"
          using client_phase_Idle [of "Some (q, y')" e key "tok c" Idle] False by auto
        ultimately show ?thesis by simp
      qed
      have phases: "\<And>d. client_phase e (tok d) key (sh_run t d) (p_phase p d)"
        using upd [OF cl] request by simp
      have rec: "m (lock_key e key) = p_rec p \<or> (\<exists>i. m (lock_key e key) = drop_rec i (p_rec p))"
        using other_calls [OF wf eff] False F(1) by auto
      obtain p1 where p1: "?S\<^sup>*\<^sup>* p p1" "p1 = p\<lparr>p_rec := m (lock_key e key)\<rparr>"
      proof -
        have "?S\<^sup>*\<^sup>* p (p\<lparr>p_rec := m (lock_key e key)\<rparr>)"
          using rec lock_step.lease_ends [of serial synced "LockTimeout (cfg e)" tok p] by auto
        then show thesis using that by blast
      qed
      show ?thesis
      proof (cases "\<exists>k. q = Call_Unlock k \<and> same_lock e k key")
        case True
        have "?S p1 (p1\<lparr>p_held := (p_held p1)(c := None)\<rparr>)" by (rule lock_step.release)
        then show ?thesis
          using p1 F(1-3) phases request True
          by (intro exI [of _ "p1\<lparr>p_held := (p_held p1)(c := None)\<rparr>"])
             (auto simp: follows_def held_after_def)
      next
        case no_unlock: False
        then have "held_after e key l t h = h"
          using request False by (auto simp: held_after_def split: call.split)
        then show ?thesis
          using p1 F(1-3) phases request by (intro exI [of _ p1]) (auto simp: follows_def)
      qed
    qed
  qed
qed

section \<open>What the protocol gives\<close>

lemma follows_start:
  "quiet s \<Longrightarrow> follows e tok key s (\<lambda>_. None) (p_init (sh_kv s (lock_key e key)) (sh_clock s))"
  by (simp add: follows_def p_init_def quiet_def)

lemma contest_follows:
  assumes "contest serial synced e tok key s t h" "wf_srv e" "no_dotdot key" "shared_inv e s" "quiet s"
  shows "\<exists>q. lock_reachable serial synced (LockTimeout (cfg e)) tok
      (p_init (sh_kv s (lock_key e key)) (sh_clock s)) q \<and> follows e tok key t h q"
  using assms(1)
proof (induction rule: contest.induct)
  case start
  then show ?case using follows_start [OF assms(5)] by (auto simp: lock_reachable_def)
next
  case (next_step t h l u)
  then obtain p where p: "lock_reachable serial synced (LockTimeout (cfg e)) tok
      (p_init (sh_kv s (lock_key e key)) (sh_clock s)) p" "follows e tok key t h p"
    by blast
  have "shared_inv e t"
    by (rule shared_inv_reachable [OF contest_reachable [OF next_step(1)] assms(2,4)])
  then show ?case
    using follows_step [OF assms(2,3) _ next_step(2) p(2), of serial synced] next_step(3,4) p(1)
    unfolding lock_reachable_def by (meson rtranclp_trans)
qed

text \<open>Serial attempts: whoever holds the lock owns its record, so at most one process does.\<close>

lemma contest_holder:
  assumes "contest True (clocks_within drift) e tok key s t h" "wf_srv e" "no_dotdot key" "shared_inv e s" "quiet s"
    and "inj tok" "\<And>c. sanitize (tok c) = tok c"
    and "0 < LockTimeout (cfg e)" "LockTimeout (cfg e) \<le> max_duration"
    and "hold + drift \<le> LockTimeout (cfg e)" and "holds hold (sh_clock t c) (h c)"
  shows "\<exists>l n. read_lock (sh_kv t) (lock_key e key) = Some (l, n) \<and> Token l = tok c"
proof -
  obtain q where q: "lock_reachable True (clocks_within drift) (LockTimeout (cfg e)) tok
      (p_init (sh_kv s (lock_key e key)) (sh_clock s)) q" "follows e tok key t h q"
    using contest_follows [OF assms(1-5)] by blast
  have "clocks_within drift (sh_clock s)"
    using assms(1) by (induction rule: contest.induct)
  then have "lock_inv hold drift tok (p_init (sh_kv s (lock_key e key)) (sh_clock s))"
    by (rule lock_inv_init [rotated]) (use assms(4) in \<open>auto simp: shared_inv_def unleased_def\<close>)
  then have "lock_inv hold drift tok q"
    by (rule lock_inv_reachable [OF q(1) _ assms(6-10)])
  then show ?thesis
    using lock_inv_holder [of hold drift tok q c] q(2) assms(11)
    by (auto simp: follows_def read_lock_decode kv_value_def)
qed

section \<open>Overlapping attempts\<close>

text \<open>The requests of an attempt at a lock that is free: up to the clock reading that stamps the
  record, and from there to its end.\<close>

lemma requests_lock_read:
  assumes "kv_value m (lock_key e k) = None" "i \<noteq> 0" "int64 i" "0 \<le> srv_timeout e"
  shows "requests_at n m (call_prog e tok 0 (Call_Lock k)) m
    (map_prog Result (stamp_prog e (Some (n + srv_timeout e)) tok k i))"
  unfolding call_prog.simps Lock_prog_def retry_prog.simps lock_prog_def prog.map
  by (rule requests_answered, simp add: wait_prog_def, rule requests_answered,
      simp add: assms(4), simp add: grant_prog_def, rule requests_grant [OF _ _ assms(2,3)],
      simp add: assms(4), simp add: read_prog_def, rule requests_answered, simp add: assms(4),
      simp add: point_read_value assms(1) decide_prog_def)

lemma requests_lock_write:
  assumes "MarshalText n = Some ts" "in_time ctx n"
  shows "requests_at n m (map_prog Result (stamp_prog e ctx tok k i))
    (m(lock_key e k \<mapsto> (lock_value tok k i ts, 0))) (Done (Result None))"
  unfolding stamp_prog_def prog.map
  by (rule requests_answered, simp add: assms put_prog_def, rule requests_answered,
      rule assms(2), simp)

lemma one_window_solo:
  "serial \<longrightarrow> (\<forall>d. d \<noteq> c \<longrightarrow> sh_run s d = None) \<Longrightarrow> serial \<longrightarrow> one_window e key s"
proof -
  have "at_window e key s d \<Longrightarrow> sh_run s d \<noteq> None" for d
    by (cases "sh_run s d") (simp_all add: at_window_def)
  then show "serial \<longrightarrow> (\<forall>d. d \<noteq> c \<longrightarrow> sh_run s d = None) \<Longrightarrow> ?thesis"
    unfolding one_window_def by metis
qed

text \<open>Requests of one attempt in a run with history.\<close>

lemma contest_requests:
  assumes "requests_at n m p m' p'" "contest serial synced e tok key s0 s h"
    and "sh_run s c = Some (Call_Lock key, p)" "sh_kv s = m" "sh_clock s c = n" "answer p = None"
    and "serial \<longrightarrow> (\<forall>d. d \<noteq> c \<longrightarrow> sh_run s d = None)"
  shows "contest serial synced e tok key s0 (s\<lparr>sh_kv := m', sh_run := (sh_run s)(c \<mapsto> (Call_Lock key, p'))\<rparr>)
    (if answer p' = Some (Result None)
     then h(c := map_option snd (read_lock m' (lock_key e key))) else h)"
  using assms
proof (induction arbitrary: s h rule: requests_at.induct)
  case (none m p)
  then have same: "s\<lparr>sh_kv := m, sh_run := (sh_run s)(c \<mapsto> (Call_Lock key, p))\<rparr> = s"
    by (simp add: fun_upd_idem)
  show ?case unfolding same using none by auto
next
  case (one_more m p m1 p1 m2 p2)
  let ?t = "s\<lparr>sh_kv := m1, sh_run := (sh_run s)(c \<mapsto> (Call_Lock key, p1))\<rparr>"
  let ?h = "if answer p1 = Some (Result None)
    then h(c := map_option snd (read_lock m1 (lock_key e key))) else h"
  have "shared_step e tok call_ok (Some c) s ?t"
    using one_more.hyps(1) one_more.prems by (intro shared_step.request) simp_all
  moreover have solo: "serial \<longrightarrow> (\<forall>d. d \<noteq> c \<longrightarrow> sh_run ?t d = None)"
    using one_more.prems(6) by simp
  ultimately have t: "contest serial synced e tok key s0 ?t ?h"
    using contest.next_step [OF one_more.prems(1), of "Some c" ?t] one_window_solo [OF solo]
      contest_synced [OF one_more.prems(1)]
    by (cases "answer p1 = Some (Result None)") (simp_all add: held_after_def)
  show ?case
  proof (cases "answer p1")
    case None
    then have "contest serial synced e tok key s0 ?t h" using t by simp
    then have "contest serial synced e tok key s0
        (?t\<lparr>sh_kv := m2, sh_run := (sh_run ?t)(c \<mapsto> (Call_Lock key, p2))\<rparr>)
        (if answer p2 = Some (Result None)
         then h(c := map_option snd (read_lock m2 (lock_key e key))) else h)"
      by (rule one_more.IH) (use None one_more.prems(4) solo in simp_all)
    moreover have "?t\<lparr>sh_kv := m2, sh_run := (sh_run ?t)(c \<mapsto> (Call_Lock key, p2))\<rparr> =
        s\<lparr>sh_kv := m2, sh_run := (sh_run s)(c \<mapsto> (Call_Lock key, p2))\<rparr>"
      by simp
    ultimately show ?thesis by (simp only:)
  next
    case (Some r)
    then have "m2 = m1" "p2 = p1"
      using one_more.hyps(2) by (auto elim: requests_at.cases)
    then show ?thesis using t by (simp only:)
  qed
qed

lemma contest_call:
  assumes "contest serial synced e tok key s0 s h" "sh_run s c = None" "no_dotdot key"
    and "requests_at (sh_clock s c) (sh_kv s) (call_prog e (tok c) 0 (Call_Lock key)) m p" "answer p = None"
    and "serial \<longrightarrow> (\<forall>d. d \<noteq> c \<longrightarrow> sh_run s d = None)"
  shows "contest serial synced e tok key s0 (s\<lparr>sh_kv := m, sh_run := (sh_run s)(c \<mapsto> (Call_Lock key, p))\<rparr>) h"
proof -
  let ?t = "s\<lparr>sh_run := (sh_run s)(c \<mapsto> (Call_Lock key, call_prog e (tok c) 0 (Call_Lock key)))\<rparr>"
  have idle: "answer (call_prog e (tok c) 0 (Call_Lock key)) = None"
    "call_prog e (tok c) 0 (Call_Lock key) \<noteq> Done x" for x
    by (simp_all add: Lock_prog_def lock_prog_def)
  have "shared_step e tok call_ok (Some c) s ?t"
    using assms(2,3) by (intro shared_step.call) simp_all
  moreover have solo: "serial \<longrightarrow> (\<forall>d. d \<noteq> c \<longrightarrow> sh_run ?t d = None)" using assms(6) by simp
  ultimately have "contest serial synced e tok key s0 ?t h"
    using contest.next_step [OF assms(1), of "Some c" ?t] one_window_solo [OF solo]
      contest_synced [OF assms(1)] idle(2) [of "Result None"]
    by (simp add: held_after_def)
  from contest_requests [OF _ this, of "sh_clock s c" "sh_kv s" "call_prog e (tok c) 0 (Call_Lock key)" m p c]
  show ?thesis using assms(4,5) idle(1) solo by auto
qed

text \<open>Two processes read the free lock, then both write.\<close>

lemma overlapping_attempts:
  fixes c d :: 'c
  assumes "c \<noteq> d" "MarshalText n = Some ts" "no_dotdot key" "0 < LockTimeout (cfg e)"
    "0 \<le> srv_timeout e"
  shows "\<exists>t h. contest False (clocks_within 0) e tok key (sh_init n) t h \<and>
    holds (LockTimeout (cfg e)) (sh_clock t c) (h c) \<and> holds (LockTimeout (cfg e)) (sh_clock t d) (h d)"
proof -
  let ?lk = "lock_key e key"
  let ?p = "\<lambda>c i. map_prog Result (stamp_prog e (Some (n + srv_timeout e)) (tok c) key i)"
  let ?st = "\<lambda>m f. \<lparr> sh_kv = m, sh_clock = (\<lambda>_. n), sh_run = f \<rparr>"
  let ?run = "(\<lambda>_. None) :: 'c \<Rightarrow> (call \<times> outcome prog) option"
  let ?r1 = "?run(c \<mapsto> (Call_Lock key, ?p c 1))"
  let ?r2 = "?r1(d \<mapsto> (Call_Lock key, ?p d 2))"
  let ?m1 = "Map.empty(?lk \<mapsto> (lock_value (tok c) key 1 ts, 0))"
  let ?m2 = "?m1(?lk \<mapsto> (lock_value (tok d) key 2 ts, 0))"
  let ?done = "(Call_Lock key, Done (Result None))"
  let ?go = "contest False (clocks_within 0) e tok key (sh_init n)"
  have free: "kv_value Map.empty ?lk = None" by (simp add: kv_value_def)
  have ok: "in_time (Some (n + srv_timeout e)) n" using assms(5) by simp
  have i: "int64 1" "int64 2" by (simp_all add: int64_def)
  have open': "answer (?p c' i') = None" "?p c' i' \<noteq> Done x" for c' i' x
    by (simp_all add: stamp_prog_def)
  have "?go (?st Map.empty ?run) (\<lambda>_. None)"
    using contest.start [of "clocks_within 0" "sh_init n" False e tok key] by (simp add: sh_init_def clocks_within_def)
  from contest_call [OF this _ assms(3), of c Map.empty "?p c 1"]
  have "?go (?st Map.empty ?r1) (\<lambda>_. None)"
    using requests_lock_read [OF free _ i(1) assms(5)] open' by simp
  from contest_call [OF this _ assms(3), of d Map.empty "?p d 2"]
  have "?go (?st Map.empty ?r2) (\<lambda>_. None)"
    using requests_lock_read [OF free _ i(2) assms(5)] open' assms(1) by simp
  from contest_requests [OF requests_lock_write
      [OF assms(2) ok, where e = e and tok = "tok c" and k = key and i = 1 and m = Map.empty] this, of c]
  have "?go (?st ?m1 (?r2(c \<mapsto> ?done))) ((\<lambda>_. None)(c \<mapsto> n))"
    using assms(1) open' read_lock_written [OF assms(2) i(1)] by simp
  from contest_requests [OF requests_lock_write
      [OF assms(2) ok, where e = e and tok = "tok d" and k = key and i = 2 and m = ?m1] this, of d]
  have "?go (?st ?m2 (?r2(c \<mapsto> ?done, d \<mapsto> ?done))) ((\<lambda>_. None)(c \<mapsto> n, d \<mapsto> n))"
    using assms(1) open' read_lock_written [OF assms(2) i(2)] by simp
  moreover have "holds (LockTimeout (cfg e)) n (((\<lambda>_. None)(c \<mapsto> n, d \<mapsto> n)) x)" if "x = c \<or> x = d" for x
    using that assms(4) by (auto simp: holds_def)
  ultimately show ?thesis
    by (metis (no_types, lifting) shared.select_convs(2))
qed

section \<open>Clocks that disagree\<close>

text \<open>An attempt at a lock whose record has expired by the clock of the process.\<close>

lemma requests_lock_expired:
  assumes "kv_value m (lock_key e k) = Some v" "decode_lock v = Some (l, lt)"
    and "LockTimeout (cfg e) \<le> time_Sub n lt" "i \<noteq> 0" "int64 i" "0 \<le> srv_timeout e"
  shows "requests_at n m (call_prog e tok 0 (Call_Lock k)) m
    (map_prog Result (stamp_prog e (Some (n + srv_timeout e)) tok k i))"
proof -
  let ?ctx = "Some (n + srv_timeout e)" and ?x = "\<lparr> KvKey = lock_key e k, KvValue = v \<rparr>"
  have read: "point_read m (lock_key e k) = [?x]" by (simp add: point_read_value assms(1))
  have "prog_step m n (decide_prog e ?ctx tok k i [?x]) m (stamp_prog e ?ctx tok k i)"
    by (cases rule: decide_cases [of ?x e ?ctx tok k i])
       (use assms(2,3) in \<open>auto simp: decide_prog_def decode_lock_def split: option.splits\<close>)
  then have "prog_step m n (map_prog Result (decide_prog e ?ctx tok k i [?x])) m
      (map_prog Result (stamp_prog e ?ctx tok k i))"
    by (rule prog_step_mapI)
  then have decide: "requests_at n m (map_prog Result (decide_prog e ?ctx tok k i [?x])) m
      (map_prog Result (stamp_prog e ?ctx tok k i))"
    by (rule requests_at.one_more [OF _ requests_none])
  show ?thesis
    unfolding call_prog.simps Lock_prog_def retry_prog.simps lock_prog_def prog.map
    by (rule requests_answered, simp add: wait_prog_def, rule requests_answered,
        simp add: assms(6), simp add: grant_prog_def, rule requests_grant [OF _ _ assms(4,5)],
        simp add: assms(6), simp add: read_prog_def, rule requests_answered, simp add: assms(6),
        simp add: read decide)
qed

text \<open>The clock of \<open>d\<close> is ahead by \<open>drift\<close>: the lock of \<open>c\<close> expires for \<open>d\<close> that much earlier.\<close>

lemma drifting_attempts:
  fixes c d :: 'c
  assumes "c \<noteq> d" "MarshalText n = Some ts" "MarshalText (n + LockTimeout (cfg e)) = Some ts'" "no_dotdot key"
    and "0 \<le> drift" "drift \<le> LockTimeout (cfg e)" "LockTimeout (cfg e) < hold + drift"
    and "0 < LockTimeout (cfg e)" "LockTimeout (cfg e) \<le> max_duration" "0 \<le> srv_timeout e"
  shows "\<exists>s t h. quiet s \<and> sh_kv s = Map.empty \<and> contest True (clocks_within drift) e tok key s t h \<and>
    holds hold (sh_clock t c) (h c) \<and> holds hold (sh_clock t d) (h d)"
proof -
  let ?lk = "lock_key e key" and ?T = "LockTimeout (cfg e)"
  let ?clk = "\<lambda>x. (\<lambda>_. x)(d := x + drift)"
  let ?n2 = "n + (?T - drift)"
  let ?p = "\<lambda>m c i. map_prog Result (stamp_prog e (Some (m + srv_timeout e)) (tok c) key i)"
  let ?st = "\<lambda>m x f. \<lparr> sh_kv = m, sh_clock = ?clk x, sh_run = f \<rparr>"
  let ?run = "(\<lambda>_. None) :: 'c \<Rightarrow> (call \<times> outcome prog) option"
  let ?call = "\<lambda>p. (Call_Lock key, p)" and ?done = "(Call_Lock key, Done (Result None))"
  let ?m1 = "Map.empty(?lk \<mapsto> (lock_value (tok c) key 1 ts, 0))"
  let ?m2 = "?m1(?lk \<mapsto> (lock_value (tok d) key 2 ts', 0))"
  let ?go = "contest True (clocks_within drift) e tok key (?st Map.empty n ?run)"
  have sync: "clocks_within drift (?clk x)" for x using assms(5) by (simp add: clocks_within_def)
  have i: "int64 1" "int64 2" by (simp_all add: int64_def)
  have free: "kv_value Map.empty ?lk = None" by (simp add: kv_value_def)
  have open': "answer (?p x c' i') = None" "?p x c' i' \<noteq> Done r" for x c' i' r
    by (simp_all add: stamp_prog_def)
  have ok: "in_time (Some (x + srv_timeout e)) x" for x using assms(10) by simp
  have "?go (?st Map.empty n ?run) (\<lambda>_. None)" by (rule contest.start) (simp add: sync)
  from contest_call [OF this _ assms(4), of c Map.empty "?p n c 1"]
  have "?go (?st Map.empty n (?run(c \<mapsto> ?call (?p n c 1)))) (\<lambda>_. None)"
    using requests_lock_read [OF free _ i(1) assms(10)] open' assms(1) by simp
  from contest_requests [OF requests_lock_write
      [OF assms(2) ok, where e = e and tok = "tok c" and k = key and i = 1 and m = Map.empty] this, of c]
  have 1: "?go (?st ?m1 n (?run(c \<mapsto> ?done))) ((\<lambda>_. None)(c \<mapsto> n))"
    using assms(1) open' read_lock_written [OF assms(2) i(1)] by simp
  have "contest True (clocks_within drift) e tok key (?st Map.empty n ?run) (?st ?m1 n ?run)
      (held_after e key (Some c) (?st ?m1 n ?run) ((\<lambda>_. None)(c \<mapsto> n)))"
    using contest.next_step [OF 1 shared_step.leave [of _ _ _ c]] sync
      one_window_solo [of True c "?st ?m1 n ?run"] by (simp add: fun_upd_idem)
  then have 2: "?go (?st ?m1 n ?run) ((\<lambda>_. None)(c \<mapsto> n))" by (simp add: held_after_def)
  have "shared_step e tok call_ok None (?st ?m1 n ?run) (?st ?m1 ?n2 ?run)"
    using shared_step.time_passes [of "?st ?m1 n ?run" "?clk ?n2"] assms(6) by simp
  from contest.next_step [OF 2 this] have "?go (?st ?m1 ?n2 ?run) ((\<lambda>_. None)(c \<mapsto> n))"
    using sync [of ?n2] one_window_solo [of True c "?st ?m1 ?n2 ?run"] by (simp add: held_after_def)
  moreover have "requests_at (n + ?T) ?m1 (call_prog e (tok d) 0 (Call_Lock key)) ?m1 (?p (n + ?T) d 2)"
    using read_lock_written [OF assms(2) i(1), of Map.empty] assms(8,9)
    by (intro requests_lock_expired [OF _ _ _ _ i(2) assms(10)])
       (auto simp: read_lock_decode time_Sub_ge)
  ultimately have "?go (?st ?m1 ?n2 (?run(d \<mapsto> ?call (?p (n + ?T) d 2)))) ((\<lambda>_. None)(c \<mapsto> n))"
    using contest_call [OF _ _ assms(4), of True "clocks_within drift" e tok _ "?st ?m1 ?n2 ?run"
        "(\<lambda>_. None)(c \<mapsto> n)" d ?m1 "?p (n + ?T) d 2"] open' by simp
  from contest_requests [OF requests_lock_write
      [OF assms(3) ok, where e = e and tok = "tok d" and k = key and i = 2 and m = ?m1] this, of d]
  have "?go (?st ?m2 ?n2 (?run(d \<mapsto> ?done))) ((\<lambda>_. None)(c \<mapsto> n, d \<mapsto> n + ?T))"
    using assms(1) open' read_lock_written [OF assms(3) i(2)] by simp
  moreover have "holds hold (?clk ?n2 c) (Some n)" "holds hold (?clk ?n2 d) (Some (n + ?T))"
    using assms(1,6,7) by (auto simp: holds_def)
  ultimately show ?thesis
    using assms(1) by (intro exI [of _ "?st Map.empty n ?run"] exI conjI, simp_all add: quiet_def)
      (assumption | simp)+
qed

end
