(* ===== verification/Shared_Deadlines.thy ===== *)
theory Shared_Deadlines
  imports Shared_Locks
begin

text \<open>
  What the deadlines give: an attempt at a lock sends all its requests under one context, so
  the record it writes is, when the write succeeds, at most \<open>RequestTimeout\<close> old.  A lock is
  fresh when it is acquired if that is less than \<open>LockTimeout\<close>, and may have expired if not.
\<close>

section \<open>The deadline of an attempt\<close>

text \<open>\<open>lock_timely e tok k n p\<close>: the program \<open>p\<close> of an attempt, at the time \<open>n\<close>, has a context that
  ends at most \<open>RequestTimeout\<close> from now, and before its write, from the stamp of its record.\<close>

inductive lock_timely :: "etcdsrv \<Rightarrow> string \<Rightarrow> string \<Rightarrow> time \<Rightarrow> go_error option prog \<Rightarrow> bool"
  for e tok k n where
  timely_start: "lock_timely e tok k n (lock_prog e tok k)"
| timely_wait: "d \<le> n + srv_timeout e \<Longrightarrow> lock_timely e tok k n (wait_prog e (Some d) tok k)"
| timely_grant: "d \<le> n + srv_timeout e \<Longrightarrow> lock_timely e tok k n (grant_prog e (Some d) tok k)"
| timely_read: "d \<le> n + srv_timeout e \<Longrightarrow> int64 i \<Longrightarrow>
    lock_timely e tok k n (read_prog e (Some d) tok k i)"
| timely_decide: "d \<le> n + srv_timeout e \<Longrightarrow> int64 i \<Longrightarrow>
    lock_timely e tok k n (decide_prog e (Some d) tok k i kvs)"
| timely_stamp: "d \<le> n + srv_timeout e \<Longrightarrow> int64 i \<Longrightarrow>
    lock_timely e tok k n (stamp_prog e (Some d) tok k i)"
| timely_put: "stmp \<le> n \<Longrightarrow> d \<le> stmp + srv_timeout e \<Longrightarrow> int64 i \<Longrightarrow> MarshalText stmp = Some ts \<Longrightarrow>
    lock_timely e tok k n (put_prog e (Some d) tok k i ts)"
| timely_end: "lock_timely e tok k n (Done r)"

lemma lock_timely_later: "lock_timely e tok k n p \<Longrightarrow> n \<le> n' \<Longrightarrow> lock_timely e tok k n' p"
proof (induction rule: lock_timely.induct)
  case (timely_put stmp d i ts)
  then show ?case by (intro lock_timely.timely_put [OF _ timely_put(2-4)]) linarith
qed (auto intro: lock_timely.intros)

text \<open>The record a successful write leaves.\<close>

definition fresh_record :: "etcdsrv \<Rightarrow> string \<Rightarrow> string \<Rightarrow> time \<Rightarrow> keyspace \<Rightarrow> bool" where
  "fresh_record e tok k n m \<longleftrightarrow>
     (\<exists>l stmp. read_lock m (lock_key e k) = Some (l, stmp) \<and> Token l = sanitize tok \<and>
        stmp \<le> n \<and> n \<le> stmp + srv_timeout e)"

lemma stamp_timely:
  assumes "d \<le> n + srv_timeout e" "int64 i" "prog_step m n (stamp_prog e (Some d) tok k i) m' p"
  shows "lock_timely e tok k n p \<and> p \<noteq> Done None"
proof (cases "MarshalText n")
  case None
  then show ?thesis using assms(3) by (auto simp: stamp_prog_def intro: timely_end)
next
  case (Some ts)
  then have "p = put_prog e (Some d) tok k i ts" using assms(3) by (simp add: stamp_prog_def)
  then show ?thesis
    using timely_put [OF order.refl assms(1,2) Some] by (simp add: put_prog_def)
qed

lemma decide_timely:
  assumes "d \<le> n + srv_timeout e" "int64 i" "prog_step m n (decide_prog e (Some d) tok k i kvs) m' p"
  shows "lock_timely e tok k n p \<and> p \<noteq> Done None"
proof (cases kvs)
  case Nil
  then show ?thesis
    using stamp_timely [OF assms(1,2)] assms(3) by (simp add: decide_prog_def)
next
  case (Cons x xs)
  have same: "decide_prog e (Some d) tok k i kvs = decide_prog e (Some d) tok k i [x]"
    using Cons by (simp add: decide_prog_def)
  show ?thesis
  proof (cases rule: decide_cases [of x e "Some d" tok k i])
    case (decodes l lt)
    then show ?thesis
      using assms same by (auto simp: stamp_prog_def intro: lock_timely.intros
          timely_stamp [unfolded stamp_prog_def] split: if_splits)
  qed (use assms same in auto)
qed

lemma lock_timely_step:
  assumes "lock_timely e tok k n p" "prog_step m n p m' p'"
  shows "lock_timely e tok k n p' \<and> (p' = Done None \<longrightarrow> fresh_record e tok k n m')"
  using assms(1)
proof cases
  case timely_start
  then show ?thesis
    using assms(2) by (auto simp: lock_prog_def wait_prog_def intro: timely_wait [unfolded wait_prog_def])
next
  case (timely_wait d)
  then show ?thesis
    using assms(2) by (auto simp: wait_prog_def grant_prog_def intro: lock_timely.intros
        timely_grant [unfolded grant_prog_def])
next
  case (timely_grant d)
  then show ?thesis
    using assms(2) by (auto simp: grant_prog_def read_prog_def intro: lock_timely.intros
        timely_read [unfolded read_prog_def])
next
  case (timely_read d i)
  then consider err where "p' = Done (Some err)"
    | "p' = decide_prog e (Some d) tok k i (point_read m (lock_key e k))"
    using assms(2) by (auto simp: read_prog_def)
  then show ?thesis
  proof cases
    case 2
    moreover have "p' \<noteq> Done None"
      using 2 by (auto simp: decide_prog_def stamp_prog_def split: list.splits option.splits)
    ultimately show ?thesis using timely_read by (auto intro: lock_timely.intros)
  qed (auto intro: lock_timely.intros)
next
  case (timely_decide d i kvs)
  then show ?thesis using decide_timely [OF timely_decide(2,3)] assms(2) by blast
next
  case (timely_stamp d i)
  then show ?thesis using stamp_timely [OF timely_stamp(2,3)] assms(2) by blast
next
  case (timely_put stmp d i ts)
  have "fresh_record e tok k n (m(lock_key e k \<mapsto> (lock_value tok k i ts, 0)))" if "n \<le> d"
    using read_lock_written [OF timely_put(5,4), of m "lock_key e k" tok k 0] timely_put(2,3) that
    by (auto simp: fresh_record_def)
  then show ?thesis
    using assms(2) timely_put(1) by (auto simp: put_prog_def intro: lock_timely.intros)
next
  case (timely_end r)
  then show ?thesis using assms(2) by simp
qed

section \<open>In the system\<close>

lemma resume_timely:
  assumes "prog_step m n (resume_prog j (lock_prog e tok k) x) m' y" "lock_timely e tok k n x"
  shows "(\<exists>i x'. y = resume_prog i (lock_prog e tok k) x' \<and> lock_timely e tok k n x') \<and>
    (y = Done None \<longrightarrow> fresh_record e tok k n m')"
  using assms(1)
proof (cases rule: resume_step)
  case (attempt i x')
  then show ?thesis using lock_timely_step [OF assms(2)] by (metis resume_answer)
next
  case (retry err i x')
  then show ?thesis using lock_timely_step [OF timely_start] by (metis resume_answer)
qed

definition timely :: "etcdsrv \<Rightarrow> ('c \<Rightarrow> string) \<Rightarrow> 'c shared \<Rightarrow> bool" where
  "timely e tok s \<longleftrightarrow>
     (\<forall>c k y. sh_run s c = Some (Call_Lock k, y) \<longrightarrow>
        (\<exists>j x. y = map_prog Result (resume_prog j (lock_prog e (tok c) k) x) \<and>
               lock_timely e (tok c) k (sh_clock s c) x))"

lemma timely_step:
  assumes "shared_step e tok ok l s t" "timely e tok s"
  shows "timely e tok t"
  using assms(1)
proof cases
  case (time_passes clk)
  then show ?thesis using assms(2) lock_timely_later by (fastforce simp: timely_def)
next
  case (call c q n)
  have "\<exists>j x. call_prog e (tok c) n (Call_Lock k) = map_prog Result (resume_prog j (lock_prog e (tok c) k) x) \<and>
      lock_timely e (tok c) k (sh_clock s c) x" for k
    by (intro exI [of _ n] exI [of _ "lock_prog e (tok c) k"])
       (simp add: Lock_prog_def retry_resume timely_start)
  then show ?thesis using assms(2) call by (simp add: timely_def)
next
  case (request c q p m p')
  show ?thesis unfolding timely_def
  proof (intro allI impI)
    fix d k y assume run: "sh_run t d = Some (Call_Lock k, y)"
    show "\<exists>j x. y = map_prog Result (resume_prog j (lock_prog e (tok d) k) x) \<and>
        lock_timely e (tok d) k (sh_clock t d) x"
    proof (cases "d = c")
      case True
      then have q: "q = Call_Lock k" "y = p'" using run request(2) by simp_all
      then obtain j x where x: "p = map_prog Result (resume_prog j (lock_prog e (tok c) k) x)"
        "lock_timely e (tok c) k (sh_clock s c) x"
        using assms(2) request(3) unfolding timely_def by blast
      obtain y1 where y1: "p' = map_prog Result y1"
        "prog_step (sh_kv s) (sh_clock s c) (resume_prog j (lock_prog e (tok c) k) x) m y1"
        using prog_step_map request(4) x(1) by blast
      show ?thesis
        using resume_timely [OF y1(2) x(2)] y1(1) q True request(2) by auto
    qed (use assms(2) run request(2) in \<open>auto simp: timely_def\<close>)
  qed
qed (use assms(2) in \<open>auto simp: timely_def split: if_splits\<close>)

lemma timely_reachable: "shared_reachable e tok ok s t \<Longrightarrow> quiet s \<Longrightarrow> timely e tok t"
proof (induction rule: shared_reachable.induct)
  case (next_step t l u)
  then show ?case using timely_step by blast
qed (simp add: timely_def quiet_def)

lemma acquired_fresh:
  assumes "timely e tok s" "shared_step e tok ok (Some c) s t"
    and "sh_run s c = Some (Call_Lock k, p)"
    and "sh_run t c = Some (Call_Lock k, Done (Result None))"
  shows "p = Done (Result None) \<or> fresh_record e (tok c) k (sh_clock t c) (sh_kv t)"
  using assms(2)
proof cases
  case (request q p0 m p')
  then have p: "p0 = p" "q = Call_Lock k" "p' = Done (Result None)" using assms(3,4) by simp_all
  obtain j x where x: "p = map_prog Result (resume_prog j (lock_prog e (tok c) k) x)"
    "lock_timely e (tok c) k (sh_clock s c) x"
    using assms(1,3) unfolding timely_def by blast
  obtain x' where x': "p' = map_prog Result x'"
    "prog_step (sh_kv s) (sh_clock s c) (resume_prog j (lock_prog e (tok c) k) x) m x'"
    using prog_step_map request(3) x(1) p(1) by blast
  have "x' = Done None" using x'(1) p(3) by (cases x') auto
  then show ?thesis using resume_timely [OF x'(2) x(2)] request(1) by simp
qed (use assms(3,4) in auto)

section \<open>A slow attempt\<close>

text \<open>An attempt alone with etcd whose write is answered just before the deadline.\<close>

lemma slow_attempt:
  assumes "MarshalText n = Some ts" "no_dotdot key" "0 \<le> srv_timeout e"
  shows "\<exists>t h. contest True (clocks_within 0) e tok key (sh_init n) t h \<and> h c = Some n \<and>
    sh_clock t c = n + srv_timeout e \<and> sh_run t c = Some (Call_Lock key, Done (Result None))"
proof -
  let ?lk = "lock_key e key" and ?d = "Some (n + srv_timeout e)" and ?s0 = "sh_init n :: 'c shared"
  let ?stamp = "map_prog Result (stamp_prog e ?d (tok c) key 1)"
  let ?put = "map_prog Result (put_prog e ?d (tok c) key 1 ts)"
  let ?st = "\<lambda>m n' p. \<lparr> sh_kv = m, sh_clock = (\<lambda>_. n'), sh_run = (\<lambda>_. None)(c \<mapsto> (Call_Lock key, p)) \<rparr>"
  let ?go = "contest True (clocks_within 0) e tok key ?s0"
  have i: "int64 1" by (simp add: int64_def)
  have alone: "\<forall>d. d \<noteq> c \<longrightarrow> sh_run (?st m n' p) d = None" for m n' p by simp
  have "requests_at n Map.empty (call_prog e (tok c) 0 (Call_Lock key)) Map.empty ?stamp"
    by (rule requests_lock_read) (simp_all add: kv_value_def i assms(3))
  then have "?go (?s0\<lparr>sh_kv := Map.empty, sh_run := (sh_run ?s0)(c \<mapsto> (Call_Lock key, ?stamp))\<rparr>) (\<lambda>_. None)"
    by (intro contest_call contest.start assms(2))
       (simp_all add: sh_init_def stamp_prog_def clocks_within_def)
  then have "?go (?st Map.empty n ?stamp) (\<lambda>_. None)" by (simp add: sh_init_def)
  moreover have "prog_step Map.empty n ?stamp Map.empty ?put"
    by (simp add: stamp_prog_def assms(1))
  then have "requests_at n Map.empty ?stamp Map.empty ?put"
    by (rule requests_at.one_more [OF _ requests_none])
  ultimately have "?go (?st Map.empty n ?put) (\<lambda>_. None)"
    using contest_requests [of n Map.empty ?stamp Map.empty ?put True "clocks_within 0" e tok key ?s0
        "?st Map.empty n ?stamp" "\<lambda>_. None" c]
    by (simp add: stamp_prog_def put_prog_def)
  from contest.next_step [OF this shared_step.time_passes [of _ "\<lambda>_. n + srv_timeout e"]]
  have 1: "?go (?st Map.empty (n + srv_timeout e) ?put) (\<lambda>_. None)"
    using one_window_solo [of True c "?st Map.empty (n + srv_timeout e) ?put"] assms(3)
    by (simp add: held_after_def clocks_within_def)
  let ?m = "[?lk \<mapsto> (lock_value (tok c) key 1 ts, 0)]"
  have "prog_step Map.empty (n + srv_timeout e) ?put ?m (Done (Result None))"
    by (simp add: put_prog_def)
  then have "requests_at (n + srv_timeout e) Map.empty ?put ?m (Done (Result None))"
    by (rule requests_at.one_more [OF _ requests_none])
  from contest_requests [OF this 1, of c] have
    "?go (?st ?m (n + srv_timeout e) (Done (Result None))) ((\<lambda>_. None)(c \<mapsto> n))"
    using read_lock_written [OF assms(1) i, of Map.empty] by (simp add: put_prog_def)
  then show ?thesis by (intro exI conjI) (assumption | simp)+
qed

end
