(* ===== verification/Go_Url.thy ===== *)
theory Go_Url
  imports Go_Duration Go_Strings
begin

text \<open>
  The text functions of the standard library that the configuration uses: \<open>strings.ToLower\<close>,
  \<open>strings.TrimSpace\<close> and the part of \<open>url.Parse\<close> (package \<open>net/url\<close>, Go 1.23) that decides
  whether a text is a URL and what its scheme and host are.
\<close>

section \<open>Lower case and white space\<close>

text \<open>
  Bytes of ASCII letters are lowered, and the two letters outside ASCII whose lower case is
  an ASCII letter (U+0130 and U+212A); other letters are left as they are.  The program only
  compares the result with ASCII words, where this makes no difference.
\<close>

definition lower_byte :: "char \<Rightarrow> char" where
  "lower_byte c =
     (if 65 \<le> nat_of_byte c \<and> nat_of_byte c \<le> 90 then byte_of (nat_of_byte c + 32) else c)"

fun ToLower :: "string \<Rightarrow> string" where
  "ToLower [] = []"
| "ToLower (c # s) =
     (if prefix [CHR 0xC4, CHR 0xB0] (c # s) then CHR ''i'' # ToLower (drop 1 s)
      else if prefix [CHR 0xE2, CHR 0x84, CHR 0xAA] (c # s) then CHR ''k'' # ToLower (drop 2 s)
      else lower_byte c # ToLower s)"

text \<open>The encodings of the white space characters of Unicode.\<close>

definition space_runes :: "string list" where
  "space_runes =
     [[CHR 0x09], [CHR 0x0A], [CHR 0x0B], [CHR 0x0C], [CHR 0x0D], [CHR 0x20],
      [CHR 0xC2, CHR 0x85], [CHR 0xC2, CHR 0xA0], [CHR 0xE1, CHR 0x9A, CHR 0x80],
      [CHR 0xE2, CHR 0x80, CHR 0x80], [CHR 0xE2, CHR 0x80, CHR 0x81],
      [CHR 0xE2, CHR 0x80, CHR 0x82], [CHR 0xE2, CHR 0x80, CHR 0x83],
      [CHR 0xE2, CHR 0x80, CHR 0x84], [CHR 0xE2, CHR 0x80, CHR 0x85],
      [CHR 0xE2, CHR 0x80, CHR 0x86], [CHR 0xE2, CHR 0x80, CHR 0x87],
      [CHR 0xE2, CHR 0x80, CHR 0x88], [CHR 0xE2, CHR 0x80, CHR 0x89],
      [CHR 0xE2, CHR 0x80, CHR 0x8A], [CHR 0xE2, CHR 0x80, CHR 0xA8],
      [CHR 0xE2, CHR 0x80, CHR 0xA9], [CHR 0xE2, CHR 0x80, CHR 0xAF],
      [CHR 0xE2, CHR 0x81, CHR 0x9F], [CHR 0xE3, CHR 0x80, CHR 0x80]]"

definition rune_at :: "string list \<Rightarrow> string \<Rightarrow> nat" where
  "rune_at rs s = (case find (\<lambda>r. prefix r s) rs of None \<Rightarrow> 0 | Some r \<Rightarrow> length r)"

function trim_runes :: "string list \<Rightarrow> string \<Rightarrow> string" where
  "trim_runes rs s =
     (if s = [] \<or> rune_at rs s = 0 then s else trim_runes rs (drop (rune_at rs s) s))"
  by auto
termination by (relation "measure (\<lambda>(rs, s). length s)") auto

declare trim_runes.simps [simp del]

definition TrimSpace :: "string \<Rightarrow> string" where
  "TrimSpace s =
     rev (trim_runes (map rev space_runes) (rev (trim_runes space_runes s)))"

lemma TrimSpace_plain:
  assumes "s \<noteq> []" "rune_at space_runes s = 0" "rune_at (map rev space_runes) (rev s) = 0"
  shows "TrimSpace s = s"
  using assms by (simp add: TrimSpace_def trim_runes.simps)

section \<open>Escapes\<close>

text \<open>How a part of a URL is unescaped: as a host, as the zone of an address, or otherwise.\<close>

datatype url_mode = Host_part | Zone_part | Other_part

definition alnum :: "char \<Rightarrow> bool" where
  "alnum c \<longleftrightarrow> (let n = nat_of_byte c in
     97 \<le> n \<and> n \<le> 122 \<or> 65 \<le> n \<and> n \<le> 90 \<or> 48 \<le> n \<and> n \<le> 57)"

text \<open>\<open>shouldEscape\<close> in the modes \<open>encodeHost\<close> and \<open>encodeZone\<close>; 39 is the apostrophe.\<close>

definition host_char :: "char \<Rightarrow> bool" where
  "host_char c \<longleftrightarrow> alnum c \<or> c = CHR 39 \<or> c \<in> set ''!$&()*+,;=:[]<>\"-_.~''"

fun url_unescape :: "url_mode \<Rightarrow> string \<Rightarrow> string option" where
  "url_unescape m [] = Some []"
| "url_unescape m (c # s) =
     (if c = CHR ''%'' then
        (case s of
           a # b # r \<Rightarrow>
             (case (hex_val a, hex_val b) of
                (Some x, Some y) \<Rightarrow>
                  let v = byte_of (16 * x + y) in
                  if m = Host_part \<and> x < 8 \<and> [a, b] \<noteq> ''25'' then None
                  else if m = Zone_part \<and> [a, b] \<noteq> ''25'' \<and> v \<noteq> CHR '' '' \<and> \<not> host_char v then None
                  else map_option (Cons v) (url_unescape m r)
              | _ \<Rightarrow> None)
         | _ \<Rightarrow> None)
      else if m \<noteq> Other_part \<and> nat_of_byte c < 128 \<and> \<not> host_char c then None
      else map_option (Cons c) (url_unescape m s))"

lemma url_unescape_plain:
  "list_all host_char s \<Longrightarrow> CHR ''%'' \<notin> set s \<Longrightarrow> url_unescape m s = Some s"
  by (induction s) auto

section \<open>Authority\<close>

text \<open>The parts before and after the last occurrence of a byte.\<close>

definition cut_last :: "char \<Rightarrow> string \<Rightarrow> (string \<times> string) option" where
  "cut_last c s =
     (let after = rev (takeWhile (\<lambda>x. x \<noteq> c) (rev s))
      in if c \<in> set s then Some (take (length s - length after - 1) s, after) else None)"

definition validOptionalPort :: "string \<Rightarrow> bool" where
  "validOptionalPort port \<longleftrightarrow>
     port = [] \<or> hd port = CHR '':'' \<and> list_all is_digit (tl port)"

definition parseHost :: "string \<Rightarrow> string option" where
  "parseHost host =
     (if HasPrefix host ''['' then
        (case cut_last (CHR '']'') host of
           None \<Rightarrow> None
         | Some (inner, colonPort) \<Rightarrow>
             if \<not> validOptionalPort colonPort then None
             else case Index inner ''%25'' of
               None \<Rightarrow> url_unescape Host_part host
             | Some zone \<Rightarrow>
                 (case (url_unescape Host_part (take zone inner),
                        url_unescape Zone_part (drop zone inner),
                        url_unescape Host_part (CHR '']'' # colonPort)) of
                    (Some host1, Some host2, Some host3) \<Rightarrow> Some (host1 @ host2 @ host3)
                  | _ \<Rightarrow> None))
      else case cut_last (CHR '':'') host of
        Some (_, port) \<Rightarrow>
          if \<not> validOptionalPort (CHR '':'' # port) then None
          else url_unescape Host_part host
      | None \<Rightarrow> url_unescape Host_part host)"

definition validUserinfo :: "string \<Rightarrow> bool" where
  "validUserinfo s \<longleftrightarrow> list_all (\<lambda>c. alnum c \<or> c = CHR 39 \<or> c \<in> set ''-._:~!$&()*+,;=%@'') s"

text \<open>The host, if host and user information are well formed.\<close>

definition parseAuthority :: "string \<Rightarrow> string option" where
  "parseAuthority authority =
     (case cut_last (CHR ''@'') authority of
        None \<Rightarrow> parseHost authority
      | Some (userinfo, host) \<Rightarrow>
          (case parseHost host of
             None \<Rightarrow> None
           | Some h \<Rightarrow>
               if \<not> validUserinfo userinfo \<or> url_unescape Other_part userinfo = None then None
               else Some h))"

section \<open>Parse\<close>

text \<open>\<open>getScheme\<close>: scheme and rest; \<open>None\<close> for a text that starts with a colon.\<close>

fun scheme_scan :: "string \<Rightarrow> string \<Rightarrow> (string \<times> string) option" where
  "scheme_scan acc [] = Some ([], acc)"
| "scheme_scan acc (c # s) =
     (let n = nat_of_byte c in
      if 97 \<le> n \<and> n \<le> 122 \<or> 65 \<le> n \<and> n \<le> 90 then scheme_scan (acc @ [c]) s
      else if is_digit c \<or> c = CHR ''+'' \<or> c = CHR ''-'' \<or> c = CHR ''.'' then
        (if acc = [] then Some ([], c # s) else scheme_scan (acc @ [c]) s)
      else if c = CHR '':'' then (if acc = [] then None else Some (acc, s))
      else Some ([], acc @ c # s))"

definition getScheme :: "string \<Rightarrow> (string \<times> string) option" where
  "getScheme rawURL = scheme_scan [] rawURL"

definition before :: "char \<Rightarrow> string \<Rightarrow> string" where
  "before c s = takeWhile (\<lambda>x. x \<noteq> c) s"

definition after :: "char \<Rightarrow> string \<Rightarrow> string" where
  "after c s = drop 1 (dropWhile (\<lambda>x. x \<noteq> c) s)"

text \<open>Scheme and host of the part before the fragment.\<close>

definition url_parse_main :: "string \<Rightarrow> (string \<times> string) option" where
  "url_parse_main rawURL =
     (if list_ex (\<lambda>c. nat_of_byte c < 32 \<or> nat_of_byte c = 127) rawURL then None
      else if rawURL = ''*'' then Some ([], [])
      else case getScheme rawURL of
        None \<Rightarrow> None
      | Some (scheme0, rest0) \<Rightarrow>
          let scheme = ToLower scheme0; rest = before (CHR ''?'') rest0 in
          if \<not> HasPrefix rest ''/'' \<and> scheme \<noteq> [] then Some (scheme, [])
          else if \<not> HasPrefix rest ''/'' \<and> CHR '':'' \<in> set (before slash rest) then None
          else if (scheme \<noteq> [] \<or> \<not> HasPrefix rest ''///'') \<and> HasPrefix rest ''//'' then
            (case parseAuthority (before slash (drop 2 rest)) of
               None \<Rightarrow> None
             | Some host \<Rightarrow>
                 if url_unescape Other_part (dropWhile (\<lambda>x. x \<noteq> slash) (drop 2 rest)) = None
                 then None else Some (scheme, host))
          else if url_unescape Other_part rest = None then None
          else Some (scheme, []))"

definition url_Parse :: "string \<Rightarrow> (string \<times> string) option" where
  "url_Parse rawURL =
     (case url_parse_main (before (CHR ''#'') rawURL) of
        None \<Rightarrow> None
      | Some r \<Rightarrow> if url_unescape Other_part (after (CHR ''#'') rawURL) = None then None else Some r)"

lemma url_examples:
  "url_Parse ''http://127.0.0.1:2379'' = Some (''http'', ''127.0.0.1:2379'')"
  "url_Parse ''HTTPS://u:p@[fe80::1%25en0]:80/x?y#z'' = Some (''https'', ''[fe80::1%en0]:80'')"
  "url_Parse ''http://'' = Some (''http'', [])"
  "url_Parse ''localhost:2379'' = Some (''localhost'', [])"
  "url_Parse ''127.0.0.1:2379'' = None"
  "url_Parse ''http://a:b'' = None"
  by code_simp+

end
