(* ===== verification/Config.thy ===== *)
theory Config
  imports Storage_Spec Go_Url
begin

text \<open>
  \<open>src/config.go\<close>: the options, the constructor \<open>NewClusterConfig\<close> with its validation, and
  the options read from the environment.  A \<open>ConfigOption\<close> mutates the configuration it is
  given and may fail, so it is an operation on the configuration; what it wrote before it
  failed stays written.

  The process environment and the file system are the parameter \<open>os\<close>; they are read only and
  taken to be the same throughout one call.  The texts of errors made by the standard library
  are not modelled: \<open>err_duration\<close> and \<open>err_url\<close> stand for them.
\<close>

section \<open>The system\<close>

datatype file_stat = Stat_missing | Stat_failed go_error | Stat_ok bool

text \<open>\<open>os.Stat\<close> (with \<open>IsDir\<close>), \<open>os.Open\<close>, \<open>ioutil.ReadFile\<close>, \<open>os.Getwd\<close>, \<open>os.Getenv\<close>.\<close>

record os =
  os_Stat :: "string \<Rightarrow> file_stat"
  os_Open :: "string \<Rightarrow> go_error option"
  os_ReadFile :: "string \<Rightarrow> go_error + bytes"
  os_Getwd :: "go_error + string"
  os_Getenv :: "string \<Rightarrow> string"

abbreviation err_duration :: go_error where
  "err_duration \<equiv> External ''time: invalid duration''"

abbreviation err_url :: go_error where
  "err_url \<equiv> External ''parse: invalid URL''"

abbreviation err_json_syntax :: go_error where
  "err_json_syntax \<equiv> External ''invalid JSON''"

type_synonym config_option = "ClusterConfig operation"

section \<open>Checks\<close>

definition validateFileExists :: "os \<Rightarrow> string \<Rightarrow> go_error option" where
  "validateFileExists sys p =
     (case os_Stat sys p of
        Stat_missing \<Rightarrow> Some (Errorf ''file does not exist'')
      | Stat_failed err \<Rightarrow> Some (Wrap err ''error checking file'')
      | Stat_ok isDir \<Rightarrow>
          if isDir then Some (Errorf ''path is a directory, not a file'')
          else (case os_Open sys p of
                  Some err \<Rightarrow> Some (Wrap err ''file is not readable'')
                | None \<Rightarrow> None))"

definition validateServerURL :: "string \<Rightarrow> go_error option" where
  "validateServerURL server =
     (case url_Parse server of
        None \<Rightarrow> Some (Wrap err_url ''invalid URL format'')
      | Some (scheme, host) \<Rightarrow>
          if scheme \<noteq> ''http'' \<and> scheme \<noteq> ''https''
          then Some (Errorf ''URL scheme must be http or https'')
          else if host = [] then Some (Errorf ''URL must include host'')
          else None)"

definition validateTimeout :: "string \<Rightarrow> go_error option" where
  "validateTimeout timeout =
     (case ParseDuration timeout of
        None \<Rightarrow> Some (Wrap err_duration ''invalid duration format'')
      | Some d \<Rightarrow> if d < Second then Some (Errorf ''timeout must be at least 1 second'') else None)"

text \<open>The names of the environment variables share their first words.\<close>

definition env_name :: "string \<Rightarrow> string" where
  "env_name n = ''CADDY_CLUSTERING_ETCD_'' @ n"

definition validateEnvPairs :: "(string \<rightharpoonup> string) \<Rightarrow> go_error option" where
  "validateEnvPairs vars =
     (let val = (\<lambda>k. case vars k of None \<Rightarrow> [] | Some v \<Rightarrow> v);
          hasCert = (val (env_name ''TLS_CERT'') \<noteq> []);
          hasKey = (val (env_name ''TLS_KEY'') \<noteq> []);
          hasUser = (val (env_name ''USERNAME'') \<noteq> []);
          hasPass = (val (env_name ''PASSWORD'') \<noteq> [])
      in if hasCert \<noteq> hasKey
         then Some (Errorf ''both TLS cert and key must be provided together'')
         else if hasUser \<noteq> hasPass
         then Some (Errorf ''both username and password must be provided for authentication'')
         else None)"

section \<open>JSON durations\<close>

text \<open>\<open>Duration.UnmarshalJSON\<close>; a duration that does not parse leaves zero behind, the value
  \<open>ParseDuration\<close> returns with its error.\<close>

definition Duration_UnmarshalJSON :: "string \<Rightarrow> int \<Rightarrow> go_error option \<times> int" where
  "Duration_UnmarshalJSON b d =
     (case parse_json b of
        None \<Rightarrow> (Some err_json_syntax, d)
      | Some (JStr value) \<Rightarrow>
          (case ParseDuration value of
             None \<Rightarrow> (Some err_duration, 0)
           | Some d' \<Rightarrow> (None, d'))
      | Some _ \<Rightarrow> (Some (Errorf ''invalid duration''), d))"

section \<open>Connection, authentication and TLS options\<close>

text \<open>
  The five options that set a duration of the connection have one body with different words
  and a different target; so have the three that name a file.
\<close>

definition duration_option ::
  "string \<Rightarrow> (int \<Rightarrow> ConnectionConfig \<Rightarrow> ConnectionConfig) \<Rightarrow> string \<Rightarrow> config_option" where
  "duration_option what upd s c =
     (case ParseDuration s of
        None \<Rightarrow> (Some (Wrap err_duration (''invalid '' @ what @ '' duration format'')), c)
      | Some d \<Rightarrow>
          if d < Second then (Some (Errorf (what @ '' must be at least 1 second'')), c)
          else (None, c\<lparr>Connection := upd d (Connection c)\<rparr>))"

definition WithDialTimeout :: "string \<Rightarrow> config_option" where
  "WithDialTimeout = duration_option ''dial timeout'' (\<lambda>d n. n\<lparr>DialTimeout := d\<rparr>)"

definition WithKeepAliveTime :: "string \<Rightarrow> config_option" where
  "WithKeepAliveTime = duration_option ''keepalive time'' (\<lambda>d n. n\<lparr>KeepAliveTime := d\<rparr>)"

definition WithKeepAliveTimeout :: "string \<Rightarrow> config_option" where
  "WithKeepAliveTimeout =
     duration_option ''keepalive timeout'' (\<lambda>d n. n\<lparr>KeepAliveTimeout := d\<rparr>)"

definition WithAutoSyncInterval :: "string \<Rightarrow> config_option" where
  "WithAutoSyncInterval =
     duration_option ''auto sync interval'' (\<lambda>d n. n\<lparr>AutoSyncInterval := d\<rparr>)"

definition WithRequestTimeout :: "string \<Rightarrow> config_option" where
  "WithRequestTimeout = duration_option ''request timeout'' (\<lambda>d n. n\<lparr>RequestTimeout := d\<rparr>)"

definition WithRejectOldCluster :: "string \<Rightarrow> config_option" where
  "WithRejectOldCluster s c =
     (None, c\<lparr>Connection := (Connection c)\<lparr>RejectOldCluster := (ToLower s = ''true'')\<rparr>\<rparr>)"

definition WithUsername :: "string \<Rightarrow> config_option" where
  "WithUsername s c = (None, c\<lparr>Auth := (Auth c)\<lparr>Username := s\<rparr>\<rparr>)"

definition WithPassword :: "string \<Rightarrow> config_option" where
  "WithPassword s c = (None, c\<lparr>Auth := (Auth c)\<lparr>Password := s\<rparr>\<rparr>)"

definition tls_file_option ::
  "os \<Rightarrow> string \<Rightarrow> (string \<Rightarrow> TLSConfig \<Rightarrow> TLSConfig) \<Rightarrow> string \<Rightarrow> config_option" where
  "tls_file_option sys what upd s c =
     (case validateFileExists sys s of
        Some err \<Rightarrow> (Some (Wrap err (''TLS '' @ what @ '' file does not exist'')), c)
      | None \<Rightarrow> (None, c\<lparr>TLS := upd s (TLS c)\<rparr>))"

definition WithTLSCert :: "os \<Rightarrow> string \<Rightarrow> config_option" where
  "WithTLSCert sys = tls_file_option sys ''cert'' (\<lambda>s t. t\<lparr>CertFile := s\<rparr>)"

definition WithTLSKey :: "os \<Rightarrow> string \<Rightarrow> config_option" where
  "WithTLSKey sys = tls_file_option sys ''key'' (\<lambda>s t. t\<lparr>KeyFile := s\<rparr>)"

definition WithTLSCA :: "os \<Rightarrow> string \<Rightarrow> config_option" where
  "WithTLSCA sys = tls_file_option sys ''CA'' (\<lambda>s t. t\<lparr>CAFile := s\<rparr>)"

definition WithTLSServerName :: "string \<Rightarrow> config_option" where
  "WithTLSServerName s c = (None, c\<lparr>TLS := (TLS c)\<lparr>ServerName := s\<rparr>\<rparr>)"

definition WithTLSSkipVerify :: "string \<Rightarrow> config_option" where
  "WithTLSSkipVerify s c =
     (None, c\<lparr>TLS := (TLS c)\<lparr>SkipVerify := (ToLower s = ''true'')\<rparr>\<rparr>)"

section \<open>Store options\<close>

text \<open>The loop of \<open>WithServers\<close> over the separated texts.\<close>

fun servers_loop :: "string list \<Rightarrow> config_option" where
  "servers_loop [] c = (None, c)"
| "servers_loop (srv # srvs) c =
     (let csrv = TrimSpace srv in
      case url_Parse csrv of
        None \<Rightarrow>
          (Some (Wrap err_url ''CADDY_CLUSTERING_ETCD_SERVERS is an invalid format: servers should be separated by comma and be a full URL including scheme''), c)
      | Some (scheme, host) \<Rightarrow>
          if scheme \<noteq> ''http'' \<and> scheme \<noteq> ''https''
          then (Some (Errorf ''CADDY_CLUSTERING_ETCD_SERVERS is an invalid format: servers must specify a scheme, either http or https''), c)
          else servers_loop srvs (c\<lparr>ServerIP := ServerIP c @ [csrv]\<rparr>))"

definition server_texts :: "string \<Rightarrow> string list" where
  "server_texts s = split_on (if Index s '';'' \<noteq> None then CHR '';'' else CHR '','') s"

definition WithServers :: "string \<Rightarrow> config_option" where
  "WithServers s c = servers_loop (server_texts s) (c\<lparr>ServerIP := []\<rparr>)"

definition WithPrefix :: "string \<Rightarrow> config_option" where
  "WithPrefix s c =
     (None, c\<lparr>KeyPrefix := path_Clean (''/'' @ trim_byte slash (replace_byte bsl slash s))\<rparr>)"

definition WithTimeout :: "string \<Rightarrow> config_option" where
  "WithTimeout s c =
     (case ParseDuration s of
        None \<Rightarrow>
          (Some (Wrap err_duration ''CADDY_CLUSTERING_ETCD_TIMEOUT is an invalid format: must be a go standard time duration''), c)
      | Some d \<Rightarrow> (None, c\<lparr>LockTimeout := d\<rparr>))"

definition WithCaddyFile :: "os \<Rightarrow> string \<Rightarrow> config_option" where
  "WithCaddyFile sys s c =
     (let p = path_Clean s;
          load = (\<lambda>p. case os_ReadFile sys p of
                         Inl err \<Rightarrow> (None, c)
                       | Inr r \<Rightarrow> (None, c\<lparr>CaddyFilePath := p, CaddyFile := r\<rparr>))
      in if \<not> HasPrefix p ''/''
         then (case os_Getwd sys of
                 Inl err \<Rightarrow> (None, c)
               | Inr cwd \<Rightarrow> load (path_Join [cwd, p]))
         else load p)"

definition WithDisableCaddyfileLoad :: "string \<Rightarrow> config_option" where
  "WithDisableCaddyfileLoad s c =
     (let val = ToLower (TrimSpace s) in
      if val = ''disable'' then (None, c\<lparr>DisableCaddyLoad := True\<rparr>)
      else if val = ''enable'' \<or> val = [] then (None, c)
      else (Some (Errorf (''CADDY_CLUSTERING_ETCD_CADDYFILE_LOADER is an invalid format: ''
              @ val @ '' is an unknown option'')), c))"

section \<open>Validation and construction\<close>

fun validate_servers :: "string list \<Rightarrow> go_error option" where
  "validate_servers [] = None"
| "validate_servers (server # servers) =
     (case validateServerURL server of
        Some err \<Rightarrow> Some (Wrap err ''invalid server URL'')
      | None \<Rightarrow> validate_servers servers)"

definition validate_tls :: "os \<Rightarrow> TLSConfig \<Rightarrow> go_error option" where
  "validate_tls sys t =
     (case (if CertFile t = [] then None
            else if KeyFile t = []
            then Some (Errorf ''TLS key file must be provided when cert file is specified'')
            else case validateFileExists sys (CertFile t) of
              Some err \<Rightarrow> Some (Wrap err ''TLS cert file error'')
            | None \<Rightarrow>
                (case validateFileExists sys (KeyFile t) of
                   Some err \<Rightarrow> Some (Wrap err ''TLS key file error'')
                 | None \<Rightarrow> None)) of
        Some err \<Rightarrow> Some err
      | None \<Rightarrow>
          if CAFile t = [] then None
          else (case validateFileExists sys (CAFile t) of
                  Some err \<Rightarrow> Some (Wrap err ''TLS CA file error'')
                | None \<Rightarrow> None))"

definition config_Validate :: "os \<Rightarrow> ClusterConfig \<Rightarrow> go_error option" where
  "config_Validate sys c =
     (case validate_tls sys (TLS c) of
        Some err \<Rightarrow> Some err
      | None \<Rightarrow>
          if (Username (Auth c) = []) \<noteq> (Password (Auth c) = [])
          then Some (Errorf ''both username and password must be provided for authentication'')
          else (case validate_servers (ServerIP c) of
                  Some err \<Rightarrow> Some err
                | None \<Rightarrow>
                    if ServerIP c = [] \<and> 0 < options c
                    then Some (Errorf ''endpoints is required'')
                    else if LockTimeout c < Second
                    then Some (Errorf ''lock timeout must be at least 1 second'')
                    else None))"

text \<open>The loop of \<open>NewClusterConfig\<close> over its options.\<close>

fun apply_options :: "'s operation list \<Rightarrow> 's operation" where
  "apply_options [] c = (None, c)"
| "apply_options (opt # opts) c =
     (case opt c of
        (Some err, c1) \<Rightarrow> (Some err, c1)
      | (None, c1) \<Rightarrow> apply_options opts c1)"

definition NewClusterConfig :: "os \<Rightarrow> config_option list \<Rightarrow> go_error + ClusterConfig" where
  "NewClusterConfig sys opts =
     (case apply_options opts default_config of
        (Some err, _) \<Rightarrow> Inl err
      | (None, c) \<Rightarrow>
          let c1 = c\<lparr>options := length opts\<rparr> in
          case config_Validate sys c1 of
            Some err \<Rightarrow> Inl err
          | None \<Rightarrow> Inr c1)"

section \<open>Options from the environment\<close>

definition env_options :: "(string \<times> (os \<Rightarrow> string \<Rightarrow> config_option)) list" where
  "env_options =
     [(env_name ''SERVERS'', \<lambda>_. WithServers),
      (env_name ''PREFIX'', \<lambda>_. WithPrefix),
      (env_name ''TIMEOUT'', \<lambda>_. WithTimeout),
      (env_name ''CADDYFILE'', WithCaddyFile),
      (env_name ''CADDYFILE_LOADER'', \<lambda>_. WithDisableCaddyfileLoad),
      (env_name ''TLS_CERT'', WithTLSCert),
      (env_name ''TLS_KEY'', WithTLSKey),
      (env_name ''TLS_CA'', WithTLSCA),
      (env_name ''TLS_SERVER_NAME'', \<lambda>_. WithTLSServerName),
      (env_name ''TLS_SKIP_VERIFY'', \<lambda>_. WithTLSSkipVerify),
      (env_name ''USERNAME'', \<lambda>_. WithUsername),
      (env_name ''PASSWORD'', \<lambda>_. WithPassword),
      (env_name ''DIAL_TIMEOUT'', \<lambda>_. WithDialTimeout),
      (env_name ''KEEPALIVE_TIME'', \<lambda>_. WithKeepAliveTime),
      (env_name ''KEEPALIVE_TIMEOUT'', \<lambda>_. WithKeepAliveTimeout),
      (env_name ''AUTO_SYNC'', \<lambda>_. WithAutoSyncInterval),
      (env_name ''REQUEST_TIMEOUT'', \<lambda>_. WithRequestTimeout),
      (env_name ''REJECT_OLD'', \<lambda>_. WithRejectOldCluster)]"

text \<open>
  Go visits the entries of a map in an order that differs from run to run.  The order of the
  visit that creates the options is the parameter \<open>order\<close>, a list of the names; for the
  visit that collects the variables it makes no difference.
\<close>

definition env_vars :: "os \<Rightarrow> string \<rightharpoonup> string" where
  "env_vars sys =
     (\<lambda>e. if e \<in> fst ` set env_options \<and> os_Getenv sys e \<noteq> [] then Some (os_Getenv sys e) else None)"

fun env_option_list :: "os \<Rightarrow> (string \<rightharpoonup> string) \<Rightarrow> string list \<Rightarrow> config_option list" where
  "env_option_list sys vars [] = []"
| "env_option_list sys vars (e # es) =
     (case (map_of env_options e, vars e) of
        (Some f, Some val) \<Rightarrow> f sys val # env_option_list sys vars es
      | _ \<Rightarrow> env_option_list sys vars es)"

definition ConfigOptsFromEnvironment :: "os \<Rightarrow> string list \<Rightarrow> go_error + config_option list" where
  "ConfigOptsFromEnvironment sys order =
     (case validateEnvPairs (env_vars sys) of
        Some err \<Rightarrow> Inl err
      | None \<Rightarrow> Inr (env_option_list sys (env_vars sys) order))"

text \<open>An order of the visit: every name once.\<close>

definition visit_order :: "string list \<Rightarrow> bool" where
  "visit_order order \<longleftrightarrow> distinct order \<and> set order = fst ` set env_options"

end
