(* ===== verification/Config_Spec.thy ===== *)
theory Config_Spec
  imports Locks Config
begin

text \<open>
  What the configuration promises.  \<open>settled\<close> is the invariant that every option of the
  program keeps, failing or not; \<open>valid_config\<close> is what \<open>Validate\<close> accepts.
\<close>

section \<open>Validation\<close>

definition readable :: "os \<Rightarrow> string \<Rightarrow> bool" where
  "readable sys p \<longleftrightarrow> os_Stat sys p = Stat_ok False \<and> os_Open sys p = None"

definition http_url :: "string \<Rightarrow> bool" where
  "http_url s \<longleftrightarrow> (\<exists>scheme host. url_Parse s = Some (scheme, host) \<and>
     (scheme = ''http'' \<or> scheme = ''https''))"

definition server_url :: "string \<Rightarrow> bool" where
  "server_url s \<longleftrightarrow> (\<exists>scheme host. url_Parse s = Some (scheme, host) \<and>
     (scheme = ''http'' \<or> scheme = ''https'') \<and> host \<noteq> [])"

definition valid_config :: "os \<Rightarrow> ClusterConfig \<Rightarrow> bool" where
  "valid_config sys c \<longleftrightarrow>
     (CertFile (TLS c) \<noteq> [] \<longrightarrow>
        KeyFile (TLS c) \<noteq> [] \<and> readable sys (CertFile (TLS c)) \<and> readable sys (KeyFile (TLS c))) \<and>
     (CAFile (TLS c) \<noteq> [] \<longrightarrow> readable sys (CAFile (TLS c))) \<and>
     (Username (Auth c) = [] \<longleftrightarrow> Password (Auth c) = []) \<and>
     list_all server_url (ServerIP c) \<and>
     (ServerIP c = [] \<longrightarrow> options c = 0) \<and>
     Second \<le> LockTimeout c"

lemma validateFileExists_None [simp]: "validateFileExists sys p = None \<longleftrightarrow> readable sys p"
  by (simp add: validateFileExists_def readable_def split: file_stat.splits option.splits)

lemma validateServerURL_None [simp]: "validateServerURL s = None \<longleftrightarrow> server_url s"
  by (auto simp: validateServerURL_def server_url_def split: option.splits)

lemma validate_servers_None [simp]: "validate_servers ss = None \<longleftrightarrow> list_all server_url ss"
proof (induction ss)
  case (Cons s ss)
  then show ?case
    using validateServerURL_None [of s]
    by (cases "validateServerURL s") (simp_all del: validateServerURL_None)
qed simp

lemma validate_tls_None:
  "validate_tls sys t = None \<longleftrightarrow>
     (CertFile t \<noteq> [] \<longrightarrow>
        KeyFile t \<noteq> [] \<and> readable sys (CertFile t) \<and> readable sys (KeyFile t)) \<and>
     (CAFile t \<noteq> [] \<longrightarrow> readable sys (CAFile t))"
proof -
  have "validate_tls sys t = None \<longleftrightarrow>
     (CertFile t \<noteq> [] \<longrightarrow> KeyFile t \<noteq> [] \<and> validateFileExists sys (CertFile t) = None \<and>
        validateFileExists sys (KeyFile t) = None) \<and>
     (CAFile t \<noteq> [] \<longrightarrow> validateFileExists sys (CAFile t) = None)"
    by (simp add: validate_tls_def del: validateFileExists_None split: option.splits)
  then show ?thesis by simp
qed

lemma config_Validate_None: "config_Validate sys c = None \<longleftrightarrow> valid_config sys c"
proof -
  have "config_Validate sys c = None \<longleftrightarrow>
     validate_tls sys (TLS c) = None \<and>
     (Username (Auth c) = [] \<longleftrightarrow> Password (Auth c) = []) \<and>
     validate_servers (ServerIP c) = None \<and>
     (ServerIP c = [] \<longrightarrow> options c = 0) \<and> Second \<le> LockTimeout c"
    by (simp add: config_Validate_def not_less del: validate_servers_None split: option.splits)
  then show ?thesis by (simp add: valid_config_def validate_tls_None)
qed

section \<open>Prefixes\<close>

lemma foldl_clean_comps:
  "list_all plain_comp st \<Longrightarrow> \<forall>c \<in> set cs. slash \<notin> set c \<Longrightarrow>
   list_all plain_comp (foldl (clean_step True) st cs)"
proof (induction cs arbitrary: st)
  case (Cons c cs)
  have "list_all plain_comp (clean_step True st c)"
    using Cons.prems by (cases st; cases "plain_comp c") (auto simp: clean_step_def plain_comp_def [of c])
  with Cons show ?case by simp
qed simp

lemma path_Clean_rooted_normal: "normal_prefix (path_Clean (slash # s))"
proof -
  let ?st = "rev (foldl (clean_step True) [] (split_on slash (slash # s)))"
  have plain: "list_all plain_comp ?st"
    using foldl_clean_comps [of "[]" "split_on slash (slash # s)"] split_on_no_sep
    by (simp add: list_all_iff)
  have "path_Clean (slash # s) = render ?st"
    by (simp add: path_Clean_def render_def Let_def)
  with plain show ?thesis by (simp add: normal_prefix_def)
qed

definition prefix_of :: "string \<Rightarrow> string" where
  "prefix_of s = path_Clean (''/'' @ trim_byte slash (replace_byte bsl slash s))"

lemma prefix_of_normal [simp]: "normal_prefix (prefix_of s)"
  using path_Clean_rooted_normal by (simp add: prefix_of_def)

lemma WithPrefix_alt: "WithPrefix s c = (None, c\<lparr>KeyPrefix := prefix_of s\<rparr>)"
  by (simp add: WithPrefix_def prefix_of_def)

section \<open>The other options\<close>

lemma servers_loop_result:
  "servers_loop ss c = (r, c') \<Longrightarrow>
   (r = None \<longleftrightarrow> list_all (\<lambda>s. http_url (TrimSpace s)) ss) \<and>
   (\<exists>ts. c' = c\<lparr>ServerIP := ServerIP c @ ts\<rparr> \<and> list_all http_url ts \<and>
     (r = None \<longrightarrow> ts = map TrimSpace ss))"
proof (induction ss arbitrary: c)
  case Nil
  then show ?case by (auto intro!: exI [of _ "[]"])
next
  case (Cons s ss)
  show ?case
  proof (cases "http_url (TrimSpace s)")
    case True
    then have "servers_loop (s # ss) c = servers_loop ss (c\<lparr>ServerIP := ServerIP c @ [TrimSpace s]\<rparr>)"
      by (auto simp: http_url_def Let_def)
    with Cons.prems Cons.IH True show ?thesis by fastforce
  next
    case False
    with Cons.prems have "r \<noteq> None \<and> c' = c"
      by (auto simp: http_url_def Let_def split: option.splits prod.splits if_splits)
    with False show ?thesis by (auto intro!: exI [of _ "[]"])
  qed
qed

lemma WithServers_result:
  assumes "WithServers s c = (r, c')"
  shows "r = None \<longleftrightarrow> list_all (\<lambda>s. http_url (TrimSpace s)) (server_texts s)"
    and "\<exists>ts. c' = c\<lparr>ServerIP := ts\<rparr> \<and> list_all http_url ts \<and>
      (r = None \<longrightarrow> ts = map TrimSpace (server_texts s))"
  using servers_loop_result [OF assms [unfolded WithServers_def]] by auto

text \<open>What \<open>WithCaddyFile\<close> reads: the path it settles on and the content there.\<close>

definition caddy_source :: "os \<Rightarrow> string \<Rightarrow> (string \<times> bytes) option" where
  "caddy_source sys s =
     (case (if HasPrefix (path_Clean s) ''/'' then Inr (path_Clean s)
            else map_sum id (\<lambda>cwd. path_Join [cwd, path_Clean s]) (os_Getwd sys)) of
        Inl _ \<Rightarrow> None
      | Inr p \<Rightarrow> (case os_ReadFile sys p of Inl _ \<Rightarrow> None | Inr r \<Rightarrow> Some (p, r)))"

lemma WithCaddyFile_alt:
  "WithCaddyFile sys s c =
     (None, case caddy_source sys s of
              None \<Rightarrow> c | Some (p, r) \<Rightarrow> c\<lparr>CaddyFilePath := p, CaddyFile := r\<rparr>)"
  by (auto simp: WithCaddyFile_def caddy_source_def Let_def split: sum.splits)

section \<open>The invariant\<close>

text \<open>The options of the program, for one system.\<close>

definition built_in :: "os \<Rightarrow> config_option \<Rightarrow> bool" where
  "built_in sys opt \<longleftrightarrow> (\<exists>s. opt \<in>
     {WithServers s, WithPrefix s, WithTimeout s, WithCaddyFile sys s, WithDisableCaddyfileLoad s,
      WithTLSCert sys s, WithTLSKey sys s, WithTLSCA sys s, WithTLSServerName s,
      WithTLSSkipVerify s, WithUsername s, WithPassword s, WithDialTimeout s,
      WithKeepAliveTime s, WithKeepAliveTimeout s, WithAutoSyncInterval s,
      WithRequestTimeout s, WithRejectOldCluster s})"

definition settled_connection :: "ConnectionConfig \<Rightarrow> bool" where
  "settled_connection n \<longleftrightarrow>
     list_all (\<lambda>d. Second \<le> d \<and> d \<le> max_duration)
       [DialTimeout n, KeepAliveTime n, KeepAliveTimeout n, AutoSyncInterval n, RequestTimeout n]"

definition settled :: "ClusterConfig \<Rightarrow> bool" where
  "settled c \<longleftrightarrow>
     normal_prefix (KeyPrefix c) \<and> list_all http_url (ServerIP c) \<and>
     min_duration \<le> LockTimeout c \<and> LockTimeout c \<le> max_duration \<and>
     settled_connection (Connection c)"

lemma settled_default [simp]: "settled default_config"
  by (simp add: settled_def settled_connection_def default_config_def normal_prefix_def
      no_dotdot_def comps_def render_def Second_def Minute_def min_duration_def max_duration_def)

lemma duration_option_settled:
  assumes "duration_option what upd s c = (r, c')" "settled c"
    and "\<And>d. Second \<le> d \<Longrightarrow> d \<le> max_duration \<Longrightarrow> settled_connection (upd d (Connection c))"
  shows "settled c'"
  using assms ParseDuration_range [of s]
  by (auto simp: duration_option_def settled_def split: option.splits if_splits)

lemma tls_file_option_settled:
  "tls_file_option sys what upd s c = (r, c') \<Longrightarrow> settled c \<Longrightarrow> settled c'"
  by (auto simp: tls_file_option_def settled_def split: option.splits)

lemma built_in_settled:
  assumes "built_in sys opt" "settled c" "opt c = (r, c')"
  shows "settled c'"
proof -
  have servers: "settled c'" if "WithServers s c = (r, c')" for s
    using WithServers_result(2) [OF that] assms(2) by (auto simp: settled_def)
  have timeout: "settled c'" if "WithTimeout s c = (r, c')" for s
    using that assms(2) ParseDuration_range [of s]
    by (auto simp: WithTimeout_def settled_def split: option.splits)
  have durations: "settled c'"
    if "WithDialTimeout s c = (r, c') \<or> WithKeepAliveTime s c = (r, c') \<or>
      WithKeepAliveTimeout s c = (r, c') \<or> WithAutoSyncInterval s c = (r, c') \<or>
      WithRequestTimeout s c = (r, c')" for s
    using that assms(2)
    unfolding WithDialTimeout_def WithKeepAliveTime_def WithKeepAliveTimeout_def
      WithAutoSyncInterval_def WithRequestTimeout_def
    by (elim disjE; elim duration_option_settled; simp add: settled_def settled_connection_def)
  have files: "settled c'"
    if "WithTLSCert sys s c = (r, c') \<or> WithTLSKey sys s c = (r, c') \<or> WithTLSCA sys s c = (r, c')"
    for s
    using that assms(2) unfolding WithTLSCert_def WithTLSKey_def WithTLSCA_def
    by (elim disjE; elim tls_file_option_settled; simp)
  have rest: "settled c'"
    if "WithPrefix s c = (r, c') \<or> WithCaddyFile sys s c = (r, c') \<or>
      WithDisableCaddyfileLoad s c = (r, c') \<or> WithTLSServerName s c = (r, c') \<or>
      WithTLSSkipVerify s c = (r, c') \<or> WithUsername s c = (r, c') \<or> WithPassword s c = (r, c') \<or>
      WithRejectOldCluster s c = (r, c')" for s
    using that assms(2)
    by (elim disjE)
       (auto simp: WithPrefix_alt WithCaddyFile_alt WithDisableCaddyfileLoad_def
          WithTLSServerName_def WithTLSSkipVerify_def WithUsername_def WithPassword_def
          WithRejectOldCluster_def settled_def settled_connection_def Let_def
          split: option.splits if_splits)
  from assms(1,3) servers timeout durations files rest show ?thesis
    unfolding built_in_def by blast
qed

lemma apply_options_settled:
  assumes "apply_options opts c = (r, c')" "\<forall>opt \<in> set opts. built_in sys opt" "settled c"
  shows "settled c'"
  using assms
proof (induction opts arbitrary: c)
  case (Cons opt opts)
  obtain r1 c1 where c1: "opt c = (r1, c1)" by fastforce
  have "settled c1" using built_in_settled [where sys = sys and opt = opt, OF _ Cons.prems(3) c1] Cons.prems(2) by simp
  with Cons c1 show ?case by (cases r1) auto
qed simp

lemma NewClusterConfig_result:
  "NewClusterConfig sys opts = Inr c \<longleftrightarrow>
     (\<exists>c0. apply_options opts default_config = (None, c0) \<and> c = c0\<lparr>options := length opts\<rparr> \<and>
       valid_config sys c)"
  by (auto simp: NewClusterConfig_def config_Validate_None [symmetric] Let_def
      split: prod.splits option.splits)

lemma NewClusterConfig_settled:
  assumes "NewClusterConfig sys opts = Inr c" "\<forall>opt \<in> set opts. built_in sys opt"
  shows "settled c" "valid_config sys c"
  using assms apply_options_settled [OF _ assms(2) settled_default]
  by (auto simp: NewClusterConfig_result settled_def)

end
