(* ===== verification/Shared_Properties.thy ===== *)
theory Shared_Properties
  imports Shared_Deadlines Lock_Properties Config_Spec
begin

text \<open>
  The properties of several processes sharing one etcd, their requests interleaved in any
  order: the files stay consistent and change atomically, a load can be overtaken, locks
  exclude only when attempts do not overlap, and only for as long as the clocks allow.
\<close>

section \<open>The operations as programs\<close>

text \<open>Running a program against a client, without interruption, is calling the operation; the
  retried calls are one of the sequences of runs that \<open>execute\<close> allows.\<close>

theorem programs_are_operations:
  "run cli (store_prog e k v) = srv_Store cli e k v \<and>
   run cli (load_prog e k) = srv_Load cli e k \<and>
   run cli (delete_prog e k) = srv_Delete cli e k \<and>
   run cli (metadata_prog e k) = srv_Metadata cli e k \<and>
   run cli (list_prog e k fs) = srv_List cli e k fs \<and>
   run cli (lock_prog e tok k) = lock_acquire cli e tok k \<and>
   run cli (release_prog e ctx tok k) = lock_release cli e ctx tok k \<and>
   retried (\<lambda>t. t) (lock_acquire cli e tok k) s (run cli (Lock_prog e n tok k) s)"
  by (simp add: fun_eq_iff run_store_prog run_load_prog run_delete_prog run_metadata_prog
      run_list_prog run_lock_prog run_release_prog run_Lock_prog)

section \<open>Files\<close>

text \<open>C5: whatever calls the processes make, in whatever interleaving and with whatever failures,
  the key space stays consistent, and every request acts on the map of files as one atomic step
  of the specification: only a \<open>Store\<close> or a \<open>Delete\<close> changes it, at one request, and not without
  it if it answers success; a \<open>Load\<close> that succeeds returns what is stored at the moment of its
  last request, and one that answers not-exist is right at that moment.\<close>

theorem shared_storage_atomic:
  assumes "wf_srv e" and "quiet s0" and "consistent e (sh_kv s0)" and "unleased (sh_kv s0)"
    and "shared_reachable e tok call_ok s0 s" and "shared_step e tok call_ok l s t"
  shows "consistent e (sh_kv t) \<and>
    (case l of
       None \<Rightarrow> files e (sh_kv t) = files e (sh_kv s)
     | Some c \<Rightarrow>
         (case (sh_run s c, sh_run t c) of
            (Some (q, p), Some (_, p')) \<Rightarrow>
              atomic_spec q (files e (sh_kv s)) (files e (sh_kv t)) (answer p')
          | _ \<Rightarrow> files e (sh_kv t) = files e (sh_kv s)))"
proof
  have s: "shared_inv e s"
    by (rule shared_inv_reachable [OF assms(5,1) shared_inv_quiet [OF assms(2-4)]])
  then have "shared_inv e t" by (rule shared_inv_step [OF assms(1,6)])
  then show "consistent e (sh_kv t)" by (simp add: shared_inv_def)
qed (rule shared_atomic [OF assms(1) _ assms(6)],
    rule shared_inv_reachable [OF assms(5,1) shared_inv_quiet [OF assms(2-4)]])

lemma quiet_init [simp]: "quiet (sh_init n)" "sh_kv (sh_init n) = Map.empty"
  by (simp_all add: quiet_def sh_init_def)

lemma valid_time_0 [simp]: "valid_time 0"
  by (rule valid_timeI) (simp_all add: day_ns_def Second_def)

text \<open>Process \<open>False\<close> loads what process \<open>True\<close> has stored.\<close>

lemma default_timely [simp]: "0 \<le> srv_timeout default_srv"
  using default_patient by linarith

lemma shared_storage_atomic_witness:
  "\<exists>s t. shared_reachable default_srv (\<lambda>c :: bool. []) call_ok (sh_init 0) s \<and>
     shared_step default_srv (\<lambda>c. []) call_ok (Some False) s t \<and>
     sh_run t False = Some (Call_Load ''a/b'', Done (Content (Inr ''hi''))) \<and>
     files default_srv (sh_kv s) [''a'', ''b''] = Some ''hi''"
proof -
  obtain s md ctx where s: "shared_reachable default_srv (\<lambda>c :: bool. []) call_ok (sh_init 0) s"
    "files default_srv (sh_kv s) (comps ''a/b'') = Some ''hi''" "Hash md = sha1_Sum ''hi''"
    "sh_run s = (\<lambda>_. None)(False \<mapsto> (Call_Load ''a/b'', map_prog Content (load_rest default_srv ctx ''a/b'' md)))" "in_time ctx (sh_clock s False)"
    by (rule load_started [of default_srv "''a/b''" 0 "''hi''" False True "\<lambda>c. []"])
       (auto simp: default_timely)
  let ?t = "s\<lparr>sh_run := (sh_run s)(False \<mapsto> (Call_Load ''a/b'', Done (Content (Inr ''hi''))))\<rparr>"
  have step: "shared_step default_srv (\<lambda>c. []) call_ok (Some False) s ?t"
    using load_finished [OF s(1) wf_srv_default good_key_ab(1), of False ctx md] s(2-5) by simp
  have "comps ''a/b'' = [''a'', ''b'']" by (simp add: comps_def)
  then have "files default_srv (sh_kv s) [''a'', ''b''] = Some ''hi''"
    using shared_storage_atomic [OF wf_srv_default quiet_init(1) _ _ s(1) step] s(4) by simp
  then show ?thesis using s(1) step by (intro exI [of _ s] exI [of _ ?t]) simp
qed

text \<open>C6: a \<open>Load\<close> can fail on data that is intact all the time.  Overtaken between its two
  requests by a \<open>Store\<close>, it compares the new content with the checksum of the old one and
  answers a failed checksum, unless the two happen to have the same; overtaken by a \<open>Delete\<close> it
  answers an error that is not recognised as not-exist.\<close>

theorem overtaken_load_fails:
  assumes "wf_srv e" and "good_key k" and "valid_time n" and "c \<noteq> d"
    and "length v < 2 ^ 63" and "length w < 2 ^ 63" and "0 \<le> srv_timeout e"
  shows "(\<exists>s. shared_reachable e tok call_ok (sh_init n) s \<and> consistent e (sh_kv s) \<and>
      files e (sh_kv s) (comps k) = Some w \<and>
      sh_run s c = Some (Call_Load k, Done (Content
        (if sha1_Sum w \<noteq> sha1_Sum v then Inl (FailedChecksum k) else Inr w)))) \<and>
    (\<exists>s err. shared_reachable e tok call_ok (sh_init n) s \<and> consistent e (sh_kv s) \<and>
      files e (sh_kv s) (comps k) = None \<and>
      sh_run s c = Some (Call_Load k, Done (Content (Inl err))) \<and> \<not> IsNotExistError (Some err))"
proof
  have st: "\<exists>m' r. requests_at n m (call_prog e (tok d) 0 (Call_Store k w)) m' (Done r) \<and>
      files e m' (comps k) = Some w" for m
    by (rule requests_store [OF assms(3,7), of k w m "tok d" 0])
       (auto simp: files_stored [OF assms(1,2)])
  show "\<exists>s. shared_reachable e tok call_ok (sh_init n) s \<and> consistent e (sh_kv s) \<and>
      files e (sh_kv s) (comps k) = Some w \<and>
      sh_run s c = Some (Call_Load k, Done (Content
        (if sha1_Sum w \<noteq> sha1_Sum v then Inl (FailedChecksum k) else Inr w)))"
    using load_overtaken [where new = "Some w" and tok = tok, OF assms(1-3,5,4,7) _ st] assms(2,6)
    by simp
next
  have dl: "\<exists>m' r. requests_at n m (call_prog e (tok d) 0 (Call_Delete k)) m' (Done r) \<and>
      files e m' (comps k) = None" for m
    using requests_delete [OF assms(7), of n m "tok d" 0 k] files_deleted [OF assms(1,2), of m] by auto
  let ?err = "Errorf ''load: value not found but metadata exists''"
  have "\<not> IsNotExistError (Some ?err)" by (simp add: IsNotExistError_def)
  then show "\<exists>s err. shared_reachable e tok call_ok (sh_init n) s \<and>
      consistent e (sh_kv s) \<and> files e (sh_kv s) (comps k) = None \<and>
      sh_run s c = Some (Call_Load k, Done (Content (Inl err))) \<and> \<not> IsNotExistError (Some err)"
    using load_overtaken [where new = None and tok = tok, OF assms(1-3,5,4,7) _ dl] assms(2) by auto
qed

lemma overtaken_load_fails_witness:
  "\<exists>s err. shared_reachable default_srv (\<lambda>c :: bool. []) call_ok (sh_init 0) s \<and>
     consistent default_srv (sh_kv s) \<and>
     sh_run s False = Some (Call_Load ''a/b'', Done (Content (Inl err))) \<and> \<not> IsNotExistError (Some err)"
  using overtaken_load_fails [OF wf_srv_default good_key_ab(1) valid_time_0, of False True "''a''" "''b''"
    "\<lambda>c. []"] by auto

section \<open>Locks\<close>

text \<open>C12: the competition for a lock follows the protocol of \<open>Lock_Protocol\<close>: every run of the
  processes, with any calls, interleaving, failures and clocks, is a run of the protocol with the
  same lock record, the same clocks and the same holders, and if no attempts overlap, a serial one.\<close>

theorem locks_follow_protocol:
  assumes "wf_srv e" and "no_dotdot key"
    and "quiet s" and "consistent e (sh_kv s)" and "unleased (sh_kv s)"
    and "contest serial synced e tok key s t h"
  shows "\<exists>q. lock_reachable serial synced (LockTimeout (cfg e)) tok
      (p_init (sh_kv s (lock_key e key)) (sh_clock s)) q \<and>
    p_rec q = sh_kv t (lock_key e key) \<and> p_clock q = sh_clock t \<and> p_held q = h"
  using contest_follows [OF assms(6,1,2) shared_inv_quiet [OF assms(3-5)] assms(3)]
  by (auto simp: follows_def)

text \<open>C10: if no process reads the lock's record while another one stands between its read and
  its write, and the clocks of the processes are never more than \<open>drift\<close> apart, then at most one
  process relies on the lock at any moment, and the record of the lock is its own, whatever else
  interleaves: other calls, the passing of time, lost replies, retries, extensions, releases,
  processes that give up, leases that end.  A process may rely on a lock it has acquired until,
  by its own clock, its record is \<open>hold\<close> old, where \<open>hold\<close> is the timeout less the drift.\<close>

theorem serial_attempts_exclude:
  assumes "wf_srv e" and "no_dotdot key"
    and "quiet s" and "consistent e (sh_kv s)" and "unleased (sh_kv s)"
    and "contest True (clocks_within drift) e tok key s t h"
    and "\<forall>c. init_token (rnd c) = Inr (tok c)" and "\<forall>c d. c \<noteq> d \<longrightarrow> rnd c 32 \<noteq> rnd d 32"
    and "0 < LockTimeout (cfg e)" and "LockTimeout (cfg e) \<le> max_duration"
    and "hold + drift \<le> LockTimeout (cfg e)"
    and "holds hold (sh_clock t c) (h c)" and "holds hold (sh_clock t d) (h d)"
  shows "c = d \<and> (\<exists>l n. read_lock (sh_kv t) (lock_key e key) = Some (l, n) \<and> Token l = tok c)"
proof -
  have inj: "inj tok"
    using assms(7,8) token_distinct by (metis injI)
  have "sanitize (tok c) = tok c" for c
    using assms(7) sanitize_token by blast
  note holder = contest_holder [OF assms(6,1,2) shared_inv_quiet [OF assms(3-5)] assms(3) inj this
    assms(9-11)]
  show ?thesis
    using holder [OF assms(12)] holder [OF assms(13)] inj by (auto simp: inj_eq)
qed

text \<open>Process \<open>False\<close> acquires the lock \<^verbatim>\<open>k\<close>.\<close>

definition demo_rnd :: "bool \<Rightarrow> nat \<Rightarrow> go_error + bytes" where
  "demo_rnd c n = Inr (replicate n (if c then CHR ''x'' else CHR ''y''))"

definition demo_tokens :: "bool \<Rightarrow> string" where
  "demo_tokens c = EncodeToString (replicate 32 (if c then CHR ''x'' else CHR ''y''))"

lemma demo_rnd_tokens: "\<forall>c. init_token (demo_rnd c) = Inr (demo_tokens c)"
  "\<forall>c d. c \<noteq> d \<longrightarrow> demo_rnd c 32 \<noteq> demo_rnd d 32"
  by (auto simp: init_token_def demo_rnd_def demo_tokens_def)

lemma no_dotdot_k [simp]: "no_dotdot ''k''"
  by (simp add: no_dotdot_def)

lemma demo_acquired:
  "\<exists>t h. contest True (clocks_within 0) default_srv demo_tokens ''k'' (sh_init 0) t h \<and> h False = Some 0 \<and> sh_clock t = (\<lambda>_. 0)"
proof -
  let ?e = default_srv and ?c = "False" and ?s0 = "sh_init 0 :: bool shared"
  let ?ctx = "Some (0 + srv_timeout ?e)"
  let ?p = "map_prog Result (stamp_prog ?e ?ctx (demo_tokens ?c) ''k'' 1)"
  obtain ts where ts: "MarshalText 0 = Some ts" using valid_time_0 by (auto simp: valid_time_def)
  have i: "int64 1" by (simp add: int64_def)
  have "requests_at 0 Map.empty (call_prog ?e (demo_tokens ?c) 0 (Call_Lock ''k'')) Map.empty ?p"
    by (rule requests_lock_read) (simp_all add: kv_value_def i)
  then have 1: "contest True (clocks_within 0) ?e demo_tokens ''k'' ?s0
      (?s0\<lparr>sh_kv := Map.empty, sh_run := (sh_run ?s0)(?c \<mapsto> (Call_Lock ''k'', ?p))\<rparr>) (\<lambda>_. None)"
    by (intro contest_call contest.start) (simp_all add: sh_init_def stamp_prog_def clocks_within_def)
  let ?s1 = "?s0\<lparr>sh_kv := Map.empty, sh_run := (sh_run ?s0)(?c \<mapsto> (Call_Lock ''k'', ?p))\<rparr>"
  let ?m = "Map.empty(lock_key ?e ''k'' \<mapsto> (lock_value (demo_tokens ?c) ''k'' 1 ts, 0))"
  let ?s2 = "?s1\<lparr>sh_kv := ?m, sh_run := (sh_run ?s1)(?c \<mapsto> (Call_Lock ''k'', Done (Result None)))\<rparr>"
  have "contest True (clocks_within 0) ?e demo_tokens ''k'' ?s0 ?s2 (if answer (Done (Result None)) = Some (Result None)
      then (\<lambda>_. None)(?c := map_option snd (read_lock ?m (lock_key ?e ''k''))) else (\<lambda>_. None))"
    by (rule contest_requests [OF requests_lock_write [OF ts, of ?ctx] 1])
       (simp_all add: sh_init_def stamp_prog_def)
  then have "contest True (clocks_within 0) ?e demo_tokens ''k'' ?s0 ?s2 ((\<lambda>_. None)(?c \<mapsto> 0))"
    using read_lock_written [OF ts i, of Map.empty] by simp
  moreover have "sh_clock ?s2 = (\<lambda>_. 0)" by (simp add: sh_init_def)
  ultimately show ?thesis by (metis fun_upd_same)
qed

lemma locks_follow_protocol_witness:
  "\<exists>t h q. contest True (clocks_within 0) default_srv demo_tokens ''k'' (sh_init 0) t h \<and>
     lock_reachable True (clocks_within 0) (300 * Second) demo_tokens (p_init None (\<lambda>_. 0)) q \<and>
     p_held q = h \<and> h False = Some 0"
proof -
  obtain t h where t: "contest True (clocks_within 0) default_srv demo_tokens ''k'' (sh_init 0) t h" "h False = Some 0"
    using demo_acquired by blast
  have "sh_clock (sh_init 0 :: bool shared) = (\<lambda>_. 0)" by (simp add: sh_init_def)
  then show ?thesis
    using locks_follow_protocol [OF wf_srv_default no_dotdot_k quiet_init(1) _ _ t(1)] t by auto
qed

text \<open>With clocks up to five seconds apart, for 295 of the 300 seconds.\<close>

lemma contest_weaken:
  "contest serial synced e tok key s t h \<Longrightarrow> (\<And>clk. synced clk \<Longrightarrow> synced' clk) \<Longrightarrow>
   contest serial synced' e tok key s t h"
  by (induction rule: contest.induct) (auto intro: contest.intros)

lemma serial_attempts_exclude_witness:
  "\<exists>t h. contest True (clocks_within (5 * Second)) default_srv demo_tokens ''k'' (sh_init 0) t h \<and>
     h False = Some 0 \<and>
     (\<exists>l n. read_lock (sh_kv t) (lock_key default_srv ''k'') = Some (l, n) \<and>
            Token l = demo_tokens False)"
proof -
  obtain t h where t: "contest True (clocks_within 0) default_srv demo_tokens ''k'' (sh_init 0) t h"
    "h False = Some 0" "sh_clock t = (\<lambda>_. 0)"
    using demo_acquired by blast
  have five: "contest True (clocks_within (5 * Second)) default_srv demo_tokens ''k'' (sh_init 0) t h"
    by (rule contest_weaken [OF t(1)]) (simp add: clocks_within_def Second_def add_increasing2)
  have h: "holds (295 * Second) (sh_clock t False) (h False)"
    using t(2,3) by (simp add: holds_def Second_def)
  have "False = False \<and> (\<exists>l n. read_lock (sh_kv t) (lock_key default_srv ''k'') = Some (l, n) \<and>
      Token l = demo_tokens False)"
    by (rule serial_attempts_exclude [OF wf_srv_default no_dotdot_k quiet_init(1) _ _ five
          demo_rnd_tokens _ _ _ h h]) (simp_all add: Second_def max_duration_def)
  then show ?thesis using t(2) five by blast
qed

text \<open>C27: the bound of the drift is sharp.  As soon as a process relies on its lock for longer
  than the timeout less the drift, two processes can, although no attempts overlap: one whose
  clock is ahead takes the lock when it has expired by that clock, and the other still holds it.
  With clocks a whole timeout apart a lock protects nothing.\<close>

theorem clock_drift_breaks_exclusion:
  assumes "c \<noteq> d" and "valid_time n" and "valid_time (n + LockTimeout (cfg e))" and "no_dotdot key"
    and "0 \<le> drift" and "drift \<le> LockTimeout (cfg e)" and "LockTimeout (cfg e) < hold + drift"
    and "0 < LockTimeout (cfg e)" and "LockTimeout (cfg e) \<le> max_duration"
    and "0 \<le> srv_timeout e"
  shows "\<exists>s t h. quiet s \<and> sh_kv s = Map.empty \<and>
    contest True (clocks_within drift) e tok key s t h \<and>
    holds hold (sh_clock t c) (h c) \<and> holds hold (sh_clock t d) (h d)"
proof -
  obtain ts ts' where "MarshalText n = Some ts" "MarshalText (n + LockTimeout (cfg e)) = Some ts'"
    using assms(2,3) by (auto simp: valid_time_def)
  from drifting_attempts [OF assms(1) this assms(4-10)] show ?thesis .
qed

lemma clock_drift_breaks_exclusion_witness:
  "\<exists>s t h. quiet s \<and> contest True (clocks_within (5 * Second)) default_srv demo_tokens ''k'' s t h \<and>
     holds (300 * Second) (sh_clock t False) (h False) \<and> holds (300 * Second) (sh_clock t True) (h True)"
proof -
  have later: "valid_time (0 + LockTimeout (cfg default_srv))"
    by (rule valid_timeI) (simp_all add: day_ns_def Second_def)
  from clock_drift_breaks_exclusion [OF _ valid_time_0 later no_dotdot_k,
      of False True "5 * Second" "300 * Second" demo_tokens]
  show ?thesis by (auto simp: Second_def max_duration_def)
qed

text \<open>C11: the code takes no such care, and with its separate read and write two processes
  reach, from an empty key space, within one instant and with equal clocks, a state in which both have acquired
  the same lock successfully.\<close>

theorem overlapping_attempts_both_hold:
  assumes "c \<noteq> d" and "valid_time n" and "no_dotdot key" and "0 < LockTimeout (cfg e)"
    and "0 \<le> srv_timeout e"
  shows "\<exists>t h. contest False (clocks_within 0) e tok key (sh_init n) t h \<and>
    holds (LockTimeout (cfg e)) (sh_clock t c) (h c) \<and> holds (LockTimeout (cfg e)) (sh_clock t d) (h d)"
proof -
  obtain ts where "MarshalText n = Some ts" using assms(2) by (auto simp: valid_time_def)
  then show ?thesis using overlapping_attempts [OF assms(1) _ assms(3-5)] by blast
qed

lemma overlapping_attempts_both_hold_witness:
  "\<exists>t h. contest False (clocks_within 0) default_srv demo_tokens ''k'' (sh_init 0) t h \<and>
     holds (300 * Second) (sh_clock t False) (h False) \<and> holds (300 * Second) (sh_clock t True) (h True)"
  using overlapping_attempts_both_hold [OF _ valid_time_0 no_dotdot_k, of False True default_srv demo_tokens]
  by (simp add: Second_def)

section \<open>The age of an acquired lock\<close>

text \<open>C15: the requests of an attempt share one context, so when the attempt acquires the lock
  its record is at most \<open>RequestTimeout\<close> old by the clock of the process, whatever interleaves and however slow etcd is; with
  a \<open>LockTimeout\<close> above that, the lock has not expired by then.\<close>

theorem acquired_lock_is_fresh:
  assumes "quiet s0" and "shared_reachable e tok call_ok s0 s"
    and "shared_step e tok call_ok (Some c) s t"
    and "sh_run s c = Some (Call_Lock k, p)" and "answer p = None"
    and "sh_run t c = Some (Call_Lock k, Done (Result None))"
    and "init_token rnd = Inr (tok c)"
  shows "\<exists>l n. read_lock (sh_kv t) (lock_key e k) = Some (l, n) \<and> Token l = tok c \<and>
    n \<le> sh_clock t c \<and> sh_clock t c \<le> n + srv_timeout e \<and>
    (srv_timeout e < LockTimeout (cfg e) \<longrightarrow> holds (LockTimeout (cfg e)) (sh_clock t c) (Some n))"
  using acquired_fresh [OF timely_reachable [OF assms(2,1)] assms(3,4,6)] assms(5)
    sanitize_token [OF assms(7)]
  by (auto simp: fresh_record_def holds_def)

text \<open>Process \<open>False\<close> after the clock reading that stamps its record, and after its write.\<close>

lemma acquired_lock_is_fresh_witness:
  "\<exists>s t l n. shared_step default_srv demo_tokens call_ok (Some False) s t \<and>
     sh_run t False = Some (Call_Lock ''k'', Done (Result None)) \<and>
     read_lock (sh_kv t) (lock_key default_srv ''k'') = Some (l, n) \<and>
     holds (LockTimeout (cfg default_srv)) (sh_clock t False) (Some n)"
proof -
  let ?e = default_srv and ?tok = demo_tokens and ?c = False and ?s0 = "sh_init 0 :: bool shared"
  let ?d = "Some (0 + srv_timeout ?e)"
  let ?stamp = "map_prog Result (stamp_prog ?e ?d (?tok ?c) ''k'' 1)"
  obtain ts where ts: "MarshalText 0 = Some ts" using valid_time_0 by (auto simp: valid_time_def)
  let ?put = "map_prog Result (put_prog ?e ?d (?tok ?c) ''k'' 1 ts)"
  let ?m = "[lock_key ?e ''k'' \<mapsto> (lock_value (?tok ?c) ''k'' 1 ts, 0)]"
  let ?st = "\<lambda>m p. ?s0\<lparr>sh_kv := m, sh_run := (sh_run ?s0)(?c \<mapsto> (Call_Lock ''k'', p))\<rparr>"
  have i: "int64 1" by (simp add: int64_def)
  have "requests_at 0 Map.empty (call_prog ?e (?tok ?c) 0 (Call_Lock ''k'')) Map.empty ?stamp"
    by (rule requests_lock_read) (simp_all add: kv_value_def i)
  then have 1: "shared_reachable ?e ?tok call_ok ?s0 (?st Map.empty ?stamp)"
    by (intro shared_call) (simp_all add: sh_init_def)
  have "shared_step ?e ?tok call_ok (Some ?c) (?st Map.empty ?stamp) (?st Map.empty ?put)"
    using shared_step.request [of "?st Map.empty ?stamp" ?c "Call_Lock ''k''" ?stamp Map.empty ?put]
    by (simp add: sh_init_def stamp_prog_def ts)
  with 1 have 2: "shared_reachable ?e ?tok call_ok ?s0 (?st Map.empty ?put)"
    by (rule shared_reachable.next_step)
  have 3: "shared_step ?e ?tok call_ok (Some ?c) (?st Map.empty ?put) (?st ?m (Done (Result None)))"
    using shared_step.request [of "?st Map.empty ?put" ?c "Call_Lock ''k''" ?put ?m "Done (Result None)"]
    by (simp add: sh_init_def put_prog_def)
  have "answer ?put = None" "sh_run (?st Map.empty ?put) ?c = Some (Call_Lock ''k'', ?put)"
    "sh_run (?st ?m (Done (Result None))) ?c = Some (Call_Lock ''k'', Done (Result None))"
    by (simp_all add: put_prog_def)
  note fresh = acquired_lock_is_fresh [OF quiet_init(1) 2 3 this(2,1,3), of "demo_rnd ?c"]
  have "srv_timeout ?e < LockTimeout (cfg ?e)"
    by (simp add: new_etcdsrv_def default_config_def Second_def Minute_def)
  then show ?thesis
    using fresh 3 demo_rnd_tokens(1) by (intro exI [of _ "?st Map.empty ?put"] exI [of _ "?st ?m (Done (Result None))"]) auto
qed

text \<open>C16: a configuration that \<open>Validate\<close> accepts may have a \<open>RequestTimeout\<close> of at least the
  \<open>LockTimeout\<close>, and then a process, alone with a slow etcd, can acquire a lock that has expired
  by the time the call answers success.\<close>

theorem slow_lock_expires:
  assumes "config_Validate sys c = None" and "LockTimeout c \<le> RequestTimeout (Connection c)"
    and "valid_time n" and "no_dotdot key"
  shows "\<exists>t h. contest True (clocks_within 0) (new_etcdsrv c) tok key (sh_init n) t h \<and>
    sh_run t d = Some (Call_Lock key, Done (Result None)) \<and> h d = Some n \<and>
    \<not> holds (LockTimeout c) (sh_clock t d) (h d)"
proof -
  have "Second \<le> LockTimeout c"
    using assms(1) by (simp add: config_Validate_None valid_config_def)
  then have "0 \<le> srv_timeout (new_etcdsrv c)"
    using assms(2) by (simp add: new_etcdsrv_def Second_def)
  moreover obtain ts where "MarshalText n = Some ts" using assms(3) by (auto simp: valid_time_def)
  ultimately obtain t h where t: "contest True (clocks_within 0) (new_etcdsrv c) tok key (sh_init n) t h" "h d = Some n"
    "sh_clock t d = n + srv_timeout (new_etcdsrv c)" "sh_run t d = Some (Call_Lock key, Done (Result None))"
    using slow_attempt [OF _ assms(4), of n ts "new_etcdsrv c" tok d] by blast
  moreover have "\<not> holds (LockTimeout c) (sh_clock t d) (h d)"
    using t(2,3) assms(2) by (simp add: holds_def new_etcdsrv_def)
  ultimately show ?thesis by blast
qed

lemma slow_lock_expires_witness:
  "\<exists>t h. contest True (clocks_within 0) (new_etcdsrv (default_config\<lparr>LockTimeout := Second\<rparr>)) demo_tokens ''k'' (sh_init 0) t h \<and>
     sh_run t False = Some (Call_Lock ''k'', Done (Result None)) \<and> h False = Some 0 \<and>
     \<not> holds Second (sh_clock t False) (h False)"
proof -
  let ?c = "default_config\<lparr>LockTimeout := Second\<rparr>"
  have "config_Validate sys ?c = None" for sys
    by (simp add: config_Validate_def validate_tls_def default_config_def)
  from slow_lock_expires [OF this _ valid_time_0 no_dotdot_k, of demo_tokens False] show ?thesis
    by (simp add: default_config_def Second_def)
qed

end
