(* ===== verification/Pipeline.thy ===== *)
theory Pipeline
  imports Operations
begin

text \<open>
  \<open>pipeline\<close> of \<open>src/operations.go\<close>: run the commits in order; when one fails, run the
  rollbacks of the committed ones in reverse.  The index loops of the code are equal to a
  reference without indices, the first failure is the root cause of the error returned, and
  commits whose rollbacks undo them make the whole pipeline atomic.
\<close>

section \<open>The reference\<close>

text \<open>The commits that succeed, the first error, and the state it leaves.\<close>

fun run_commits ::
  "('s operation \<Rightarrow> 's operation) \<Rightarrow> 's operation list \<Rightarrow> 's \<Rightarrow> nat \<times> go_error option \<times> 's" where
  "run_commits retry [] s = (0, None, s)"
| "run_commits retry (c # cs) s =
     (case retry c s of
        (Some err, t) \<Rightarrow> (0, Some err, t)
      | (None, t) \<Rightarrow> (case run_commits retry cs t of (n, err, u) \<Rightarrow> (Suc n, err, u)))"

fun undo ::
  "('s operation \<Rightarrow> 's operation) \<Rightarrow> 's operation list \<Rightarrow> go_error \<Rightarrow> 's \<Rightarrow> go_error \<times> 's" where
  "undo retry [] err s = (err, s)"
| "undo retry (r # rs) err s =
     (case retry r s of
        (None, t) \<Rightarrow> undo retry rs err t
      | (Some errR, t) \<Rightarrow> undo retry rs (Wrap err (''error on rollback: '' @ Error errR)) t)"

definition pipeline_spec ::
  "('s operation \<Rightarrow> 's operation) \<Rightarrow> 's operation list \<Rightarrow> 's operation list \<Rightarrow> 's operation" where
  "pipeline_spec retry commits rollbacks s =
     (case run_commits retry commits s of
        (n, None, t) \<Rightarrow> (None, t)
      | (n, Some err, t) \<Rightarrow>
          (case undo retry (rev (take n rollbacks)) err t of (err', u) \<Rightarrow> (Some err', u)))"

lemma rollback_loop_undo:
  "rollback_loop retry rollbacks n err s = undo retry (rev (take n rollbacks)) err s"
proof (induction n arbitrary: err s)
  case (Suc n)
  show ?case
  proof (cases "length rollbacks \<le> n")
    case True
    then show ?thesis using Suc by simp
  next
    case False
    then have "rev (take (Suc n) rollbacks) = rollbacks ! n # rev (take n rollbacks)"
      by (simp add: take_Suc_conv_app_nth)
    with False Suc show ?thesis
      by (auto split: prod.splits option.splits)
  qed
qed simp

lemma pipeline_loop_commits:
  "pipeline_loop retry rollbacks idx commits s =
     (case run_commits retry commits s of
        (n, None, t) \<Rightarrow> (None, t)
      | (n, Some err, t) \<Rightarrow>
          (case undo retry (rev (take (idx + n) rollbacks)) err t of (err', u) \<Rightarrow> (Some err', u)))"
proof (induction commits arbitrary: idx s)
  case (Cons c cs)
  show ?case
  proof (cases "retry c s")
    case (Pair r t)
    then show ?thesis
      using Cons.IH [of "Suc idx" t]
      by (cases r) (auto simp: rollback_loop_undo split: prod.splits option.splits)
  qed
qed simp

lemma pipeline_eq_spec: "pipeline retry commits rollbacks s = pipeline_spec retry commits rollbacks s"
  by (simp add: pipeline_def pipeline_spec_def pipeline_loop_commits split: prod.splits option.splits)

section \<open>The error\<close>

text \<open>\<^verbatim>\<open>errors.Cause\<close>: the innermost error of a chain of wraps.\<close>

fun root_cause :: "go_error \<Rightarrow> go_error" where
  "root_cause (Wrap e m) = root_cause e"
| "root_cause e = e"

lemma undo_cause: "undo retry rs err s = (err', t) \<Longrightarrow> root_cause err' = root_cause err"
  by (induction retry rs err s rule: undo.induct) (auto split: prod.splits option.splits)

text \<open>A run that fails at commit \<open>n\<close> has committed those before it.\<close>

lemma run_commits_fail:
  assumes "run_commits retry commits s = (n, Some err, t)"
  shows "n < length commits \<and>
    (\<exists>u. run_commits retry (take n commits) s = (n, None, u) \<and> retry (commits ! n) u = (Some err, t))"
  using assms
proof (induction commits arbitrary: s n)
  case (Cons c cs)
  obtain r s1 where first: "retry c s = (r, s1)" by (cases "retry c s")
  show ?case
  proof (cases r)
    case None
    then obtain m where m: "n = Suc m" "run_commits retry cs s1 = (m, Some err, t)"
      using Cons.prems first by (auto split: prod.splits)
    from Cons.IH [OF m(2)] show ?thesis using m(1) first None by auto
  next
    case (Some e)
    then show ?thesis using Cons.prems first by auto
  qed
qed simp

lemma pipeline_root_cause:
  assumes "pipeline retry commits rollbacks s = (Some err, t)"
  shows "\<exists>i < length commits. \<exists>u v err0.
    retry (commits ! i) u = (Some err0, v) \<and> root_cause err = root_cause err0"
proof -
  obtain n r u where run: "run_commits retry commits s = (n, r, u)"
    by (cases "run_commits retry commits s")
  with assms obtain err0 where "r = Some err0" "undo retry (rev (take n rollbacks)) err0 u = (err, t)"
    by (cases r) (auto simp: pipeline_eq_spec pipeline_spec_def split: prod.splits)
  with run run_commits_fail undo_cause show ?thesis by metis
qed

section \<open>Atomicity\<close>

text \<open>
  Along one run, the rollback of every committed step undoes it as far as \<open>view\<close> can tell.
  Of the step that fails nothing is asked.
\<close>

fun undoable ::
  "('s \<Rightarrow> 'v) \<Rightarrow> ('s operation \<Rightarrow> 's operation) \<Rightarrow> 's operation list \<Rightarrow> 's operation list \<Rightarrow> 's \<Rightarrow> bool"
where
  "undoable view retry [] rollbacks s \<longleftrightarrow> True"
| "undoable view retry (c # cs) rollbacks s \<longleftrightarrow>
     (case retry c s of
        (Some err, t) \<Rightarrow> True
      | (None, t) \<Rightarrow>
          (case rollbacks of
             [] \<Rightarrow> cs = []
           | r # rs \<Rightarrow>
               (\<forall>u. view u = view t \<longrightarrow> (\<exists>v. retry r u = (None, v) \<and> view v = view s)) \<and>
               undoable view retry cs rs t))"

lemma undo_append: "undo retry (rs @ rs') err s =
    (case undo retry rs err s of (err', t) \<Rightarrow> undo retry rs' err' t)"
  by (induction retry rs err s rule: undo.induct) (auto split: prod.splits option.splits)

text \<open>From any state that looks like the one after \<open>n\<close> commits, their rollbacks lead back.\<close>

lemma undoable_restores:
  assumes "undoable view retry commits rollbacks s" and "n < length commits"
    and "run_commits retry (take n commits) s = (n, None, u)" and "view t = view u"
  shows "\<exists>v. undo retry (rev (take n rollbacks)) err t = (err, v) \<and> view v = view s"
  using assms
proof (induction commits arbitrary: rollbacks s n)
  case (Cons c cs)
  show ?case
  proof (cases n)
    case 0
    then show ?thesis using Cons.prems by simp
  next
    case (Suc m)
    then obtain t1 where first: "retry c s = (None, t1)"
      and rest: "run_commits retry (take m cs) t1 = (m, None, u)"
      using Cons.prems(3) by (auto split: prod.splits option.splits)
    have m: "m < length cs" using Cons.prems(2) Suc by simp
    then have "cs \<noteq> []" by auto
    then obtain r0 rs where rs: "rollbacks = r0 # rs" "undoable view retry cs rs t1"
      and undo0: "\<And>u. view u = view t1 \<Longrightarrow> \<exists>v. retry r0 u = (None, v) \<and> view v = view s"
      using Cons.prems(1) first by (auto split: list.splits)
    obtain w where "undo retry (rev (take m rs)) err t = (err, w)" "view w = view t1"
      using Cons.IH [OF rs(2) m rest Cons.prems(4)] by blast
    moreover obtain v where "retry r0 w = (None, v)" "view v = view s"
      using undo0 calculation(2) by blast
    ultimately show ?thesis using rs(1) Suc by (simp add: undo_append)
  qed
qed simp

lemma pipeline_atomic:
  assumes "undoable view retry commits rollbacks s"
    and "pipeline retry commits rollbacks s = (Some err, t)"
  shows "\<exists>i u v err0. i < length commits \<and> run_commits retry (take i commits) s = (i, None, u) \<and>
    retry (commits ! i) u = (Some err0, v) \<and>
    (view v = view u \<longrightarrow> view t = view s \<and> err = err0) \<and> (i = 0 \<longrightarrow> t = v \<and> err = err0)"
proof -
  obtain n r v where run: "run_commits retry commits s = (n, r, v)"
    by (cases "run_commits retry commits s")
  with assms(2) obtain err0 where r: "r = Some err0"
    and undo: "undo retry (rev (take n rollbacks)) err0 v = (err, t)"
    by (cases r) (auto simp: pipeline_eq_spec pipeline_spec_def split: prod.splits)
  then obtain u where u: "n < length commits" "run_commits retry (take n commits) s = (n, None, u)"
    "retry (commits ! n) u = (Some err0, v)"
    using run_commits_fail [of retry commits s n err0 v] run by blast
  have "view v = view u \<longrightarrow> view t = view s \<and> err = err0"
  proof
    assume "view v = view u"
    from undoable_restores [OF assms(1) u(1,2) this, of err0] undo
    show "view t = view s \<and> err = err0" by auto
  qed
  moreover have "n = 0 \<longrightarrow> t = v \<and> err = err0" using undo by auto
  ultimately show ?thesis using u by (intro exI conjI)
qed

end
