(* ===== verification/Requests.thy ===== *)
theory Requests
  imports Operations
begin

text \<open>
  The single requests of \<open>src/operations.go\<close> against the contract of the client: what is
  written is read back, a metadata read of a directory summarises its children.
\<close>

context etcd_kv
begin

lemma op_set_effect:
  assumes "op_set cli key v s = (r, t)"
  shows "kv t = (kv s)(key \<mapsto> (EncodeToString v, 0)) \<or> r \<noteq> None \<and> kv t = kv s"
  using assms
  by (auto simp: op_set_def split: prod.splits sum.splits dest: put_done put_fail)

lemma op_del_effect:
  assumes "op_del cli key s = (r, t)"
  shows "kv t = (kv s)(key := None) \<or> r \<noteq> None \<and> kv t = kv s"
  using assms
  by (auto simp: op_del_def split: prod.splits sum.splits dest: del_done del_fail)

lemma op_setMD_effect:
  assumes "op_setMD cli key m s = (r, t)"
  shows "(\<exists>js. Marshal_Metadata m = Some js \<and> kv t = (kv s)(key \<mapsto> (EncodeToString js, 0))) \<or>
    r \<noteq> None \<and> kv t = kv s"
  using assms
  by (auto simp: op_setMD_def split: prod.splits sum.splits option.splits dest: put_done put_fail)

lemma op_get_result:
  assumes "op_get cli key dst s = ((r, dst'), t)"
  shows "kv t = kv s \<and>
    ((\<exists>err. r = Some (Wrap err ''failed to retrieve value from etcd'') \<and> dst' = dst) \<or>
     (case kv_value (kv s) key of
        None \<Rightarrow> r = None \<and> dst' = dst
      | Some y \<Rightarrow>
          (case DecodeString y of
             None \<Rightarrow> r = Some (Wrap err_base64 ''failed to decode base64 value from etcd'') \<and> dst' = dst
           | Some b \<Rightarrow> r = None \<and> dst' = dst @ b)))"
proof -
  obtain x s1 where 1: "cli_Get cli None key False s = (x, s1)" by (cases "cli_Get cli None key False s")
  show ?thesis
  proof (cases x)
    case (Inl err)
    then show ?thesis using assms 1 get_frame [OF 1] by (auto simp: op_get_def)
  next
    case (Inr xs)
    then have "xs = point_read (kv s) key" using 1 get_point by blast
    then show ?thesis
      using assms 1 Inr get_frame [OF 1]
      by (auto simp: op_get_def point_read_value split: option.splits)
  qed
qed

lemma op_exists_result:
  assumes "op_exists cli key out s = ((r, out'), t)"
  shows "kv t = kv s \<and>
    ((\<exists>err. r = Some (Wrap err ''exists: failed to check key'') \<and> out' = out) \<or>
     r = None \<and> out' = (kv_value (kv s) key \<noteq> None))"
proof -
  obtain x s1 where 1: "cli_Get cli None key False s = (x, s1)" by (cases "cli_Get cli None key False s")
  show ?thesis
  proof (cases x)
    case (Inl err)
    then show ?thesis using assms 1 get_frame [OF 1] by (auto simp: op_exists_def)
  next
    case (Inr xs)
    then have "xs = point_read (kv s) key" using 1 get_point by blast
    then show ?thesis
      using assms 1 Inr get_frame [OF 1]
      by (auto simp: op_exists_def point_read_value split: option.splits)
  qed
qed

text \<open>Metadata: the record itself, or the summary of the children with the clock as a floor.\<close>

lemma op_getMD_result:
  assumes "op_getMD cli key m s = ((r, m'), t)"
  shows "kv t = kv s \<and>
    ((\<exists>err msg. r = Some (Wrap err msg) \<and> m' = m) \<or>
     (case kv_value (kv s) key of
        Some y \<Rightarrow>
          (case unmarshalMDv3 y (Some m) of
             Inl err \<Rightarrow> r = Some err \<and> m' = m
           | Inr m1 \<Rightarrow> r = None \<and> m' = m1)
      | None \<Rightarrow>
          (\<exists>kvs. range_read (kv s) (key @ ''/'') kvs \<and>
             (if kvs = [] then r = Some (NotExist (md_relative key)) \<and> m' = m
              else r = None \<and> (\<exists>n s1 s2. clock_Now cli s1 = (n, s2) \<and>
                m' = sum_children kvs
                       (m\<lparr>Path := md_relative key, IsDir := True, Timestamp := n\<rparr>))))))"
proof -
  obtain x s1 where 1: "cli_Get cli None key False s = (x, s1)" by (cases "cli_Get cli None key False s")
  note kv1 = get_frame [OF 1]
  show ?thesis
  proof (cases x)
    case (Inl err)
    then show ?thesis using assms 1 kv1 by (auto simp: op_getMD_def)
  next
    case (Inr xs)
    then have xs: "xs = point_read (kv s) key" using 1 get_point by blast
    show ?thesis
    proof (cases "kv_value (kv s) key")
      case (Some y)
      then show ?thesis
        using assms 1 Inr xs kv1
        by (auto simp: op_getMD_def point_read_value split: sum.splits)
    next
      case None
      obtain z s2 where 2: "cli_Get cli None (key @ ''/'') True s1 = (z, s2)"
        by (cases "cli_Get cli None (key @ ''/'') True s1")
      note kv2 = get_frame [OF 2]
      show ?thesis
      proof (cases z)
        case (Inl err)
        then show ?thesis
          using assms 1 \<open>x = Inr xs\<close> xs None 2 kv1 kv2 by (auto simp: op_getMD_def point_read_value)
      next
        case (Inr kvs)
        then have rd: "range_read (kv s) (key @ ''/'') kvs" using 2 get_range kv1 by metis
        obtain n s3 where 3: "clock_Now cli s2 = (n, s3)" by (cases "clock_Now cli s2")
        show ?thesis
        proof (cases kvs)
          case Nil
          then have "r = Some (NotExist (md_relative key))" "m' = m" "t = s2"
            using assms 1 \<open>x = Inr xs\<close> xs None 2 Inr by (simp_all add: op_getMD_def point_read_value)
          then show ?thesis using None Nil rd kv1 kv2 by auto
        next
          case (Cons kv0 kvs0)
          then have r: "r = None" "t = s3"
            "m' = sum_children kvs (m\<lparr>Path := md_relative key, IsDir := True, Timestamp := n\<rparr>)"
            using assms 1 \<open>x = Inr xs\<close> xs None 2 Inr 3 by (simp_all add: op_getMD_def point_read_value)
          have "kvs \<noteq> []" using Cons by simp
          moreover have "\<exists>n s1 s2. clock_Now cli s1 = (n, s2) \<and>
              m' = sum_children kvs (m\<lparr>Path := md_relative key, IsDir := True, Timestamp := n\<rparr>)"
            using 3 r(3) by blast
          ultimately have "\<exists>kvs. range_read (kv s) (key @ ''/'') kvs \<and>
             (if kvs = [] then r = Some (NotExist (md_relative key)) \<and> m' = m
              else r = None \<and> (\<exists>n s1 s2. clock_Now cli s1 = (n, s2) \<and>
                m' = sum_children kvs
                       (m\<lparr>Path := md_relative key, IsDir := True, Timestamp := n\<rparr>)))"
            using rd r(1) by (intro exI [of _ kvs]) simp
          then show ?thesis
            using None kv1 kv2 now_frame [OF 3] r(2) by simp
        qed
      qed
    qed
  qed
qed

text \<open>What is written is read back.\<close>

lemma op_get_set:
  assumes "op_set cli key v s = (None, t)" "op_get cli key dst t = ((None, dst'), u)"
  shows "dst' = dst @ v"
  using op_set_effect [OF assms(1)] op_get_result [OF assms(2)] by simp

lemma op_getMD_setMD:
  assumes "op_setMD cli key m s = (None, t)" "int64 (Size m)" "length (Hash m) = 20"
    and "op_getMD cli key zero_Metadata t = ((None, m'), u)"
  shows "m' = m\<lparr>Path := sanitize (Path m)\<rparr>"
proof -
  obtain js where "Marshal_Metadata m = Some js" "kv t = (kv s)(key \<mapsto> (EncodeToString js, 0))"
    using op_setMD_effect [OF assms(1)] by auto
  then show ?thesis
    using op_getMD_result [OF assms(4)] unmarshalMDv3_stored [OF _ assms(2,3)] by simp
qed

end

lemma sum_children_later: "Timestamp m \<le> Timestamp (sum_children kvs m)"
proof (induction kvs arbitrary: m)
  case (Cons kv kvs)
  show ?case
  proof (cases "unmarshalMDv3 (KvValue kv) (Some zero_Metadata)")
    case (Inr md)
    let ?m = "m\<lparr>Size := wrap64 (Size m + Size md)\<rparr>"
    show ?thesis
      using Inr Cons.IH [of ?m] Cons.IH [of "?m\<lparr>Timestamp := Timestamp md\<rparr>"] by (auto simp: Let_def)
  qed (simp add: Cons.IH)
qed simp

lemma sum_children_dir_flag [simp]: "IsDir (sum_children kvs m) = IsDir m"
  by (induction kvs m rule: sum_children.induct) (auto simp: Let_def split: sum.splits)

context etcd_timed
begin

text \<open>The summary of a directory is dated no earlier than the call.\<close>

lemma op_getMD_directory:
  assumes "kv_value (kv s) key = None" "op_getMD cli key m s = ((None, m'), t)"
  shows "IsDir m' \<and> now s \<le> Timestamp m'"
proof -
  obtain x s1 where 1: "cli_Get cli None key False s = (x, s1)" by (cases "cli_Get cli None key False s")
  obtain z s2 where 2: "cli_Get cli None (key @ ''/'') True s1 = (z, s2)"
    by (cases "cli_Get cli None (key @ ''/'') True s1")
  obtain n s3 where 3: "clock_Now cli s2 = (n, s3)" by (cases "clock_Now cli s2")
  have x: "xs = []" if "x = Inr xs" for xs
    using get_point [of None key s xs s1] 1 that assms(1) by (simp add: point_read_value)
  have "now s \<le> n"
    using get_mono [OF 1] get_mono [OF 2] now_reading [OF 3] by linarith
  moreover have "\<exists>kvs. m' = sum_children kvs (m\<lparr>Path := md_relative key, IsDir := True, Timestamp := n\<rparr>)"
  proof (cases x)
    case (Inl err)
    then show ?thesis using assms(2) 1 by (simp add: op_getMD_def)
  next
    case (Inr xs)
    then have run: "(case z of Inl err \<Rightarrow> ((Some (Wrap err ''getmd: failed to get directory contents''), m), s2)
        | Inr [] \<Rightarrow> ((Some (NotExist (md_relative key)), m), s2)
        | Inr kvs \<Rightarrow> ((None, sum_children kvs
            (m\<lparr>Path := md_relative key, IsDir := True, Timestamp := n\<rparr>)), s3)) = ((None, m'), t)"
      using assms(2) 1 2 3 x [OF Inr] by (auto simp: op_getMD_def split: sum.splits list.splits)
    then obtain kvs where "m' = sum_children kvs
        (m\<lparr>Path := md_relative key, IsDir := True, Timestamp := n\<rparr>)"
      by (auto simp del: sum_children.simps split: sum.splits list.splits)
    then show ?thesis by blast
  qed
  moreover have "n \<le> Timestamp (sum_children kvs (m\<lparr>Path := md_relative key, IsDir := True, Timestamp := n\<rparr>))"
    for kvs
    using sum_children_later [of "m\<lparr>Path := md_relative key, IsDir := True, Timestamp := n\<rparr>" kvs] by simp
  ultimately show ?thesis by (auto intro: order_trans)
qed

end

end
