(* ===== verification/Request_Properties.thy ===== *)
theory Request_Properties
  imports Pipeline Requests Storage_Properties
begin

text \<open>
  The properties of the low-level requests, of \<open>pipeline\<close>, and of the data the program stores.
\<close>

section \<open>Pipelines\<close>

text \<open>C28: the index loops of \<open>pipeline\<close> compute the reference: run the commits in order up to
  the first failure, then the rollbacks of the committed ones in reverse order.\<close>

theorem pipeline_equiv:
  "pipeline retry commits rollbacks s =
     (case run_commits retry commits s of
        (n, None, t) \<Rightarrow> (None, t)
      | (n, Some err, t) \<Rightarrow>
          (case undo retry (rev (take n rollbacks)) err t of (err', u) \<Rightarrow> (Some err', u)))"
  by (simp add: pipeline_eq_spec pipeline_spec_def)

text \<open>C29: a failing pipeline stops at one commit \<open>i\<close>. If the rollbacks undo the commits before
  it, as far as a view of the state can tell, then: when the failing commit itself changed
  nothing, the view is back where it was and the error is that of the commit, unwrapped. The
  effect of the failing commit itself is not rolled back: when it is the first, the state is
  the one it left.\<close>

theorem pipeline_all_or_nothing:
  assumes "undoable view retry commits rollbacks s"
    and "pipeline retry commits rollbacks s = (Some err, t)"
  shows "\<exists>i u v err0. i < length commits \<and> run_commits retry (take i commits) s = (i, None, u) \<and>
    retry (commits ! i) u = (Some err0, v) \<and>
    (view v = view u \<longrightarrow> view t = view s \<and> err = err0) \<and> (i = 0 \<longrightarrow> t = v \<and> err = err0)"
  by (rule pipeline_atomic [OF assms])

text \<open>Whatever the rollbacks do, the innermost error returned is that of a commit.\<close>

theorem pipeline_keeps_cause:
  assumes "pipeline retry commits rollbacks s = (Some err, t)"
  shows "\<exists>i < length commits. \<exists>u v err0.
    retry (commits ! i) u = (Some err0, v) \<and> root_cause err = root_cause err0"
  by (rule pipeline_root_cause [OF assms])

text \<open>A pipeline on the reference etcd: set a key, then fail to write metadata dated after the
  year 9999; the rollback deletes the key again.\<close>

definition undated :: Metadata where
  "undated = zero_Metadata\<lparr>Timestamp := 4000000 * day_ns\<rparr>"

abbreviation demo_commits :: "world operation list" where
  "demo_commits \<equiv> [op_set ref_etcd ''/x'' ''v'', op_setMD ref_etcd ''/y'' undated]"

abbreviation demo_rollbacks :: "world operation list" where
  "demo_rollbacks \<equiv> [op_del ref_etcd ''/x'']"

abbreviation demo_view :: "world \<Rightarrow> keyspace \<times> bool" where
  "demo_view w \<equiv> (w_kv w, w_healthy w)"

lemma Marshal_undated: "Marshal_Metadata undated = None"
proof -
  have "MarshalText (4000000 * day_ns) = None" by code_simp
  then show ?thesis by (simp add: Marshal_Metadata_def undated_def zero_Metadata_def)
qed

text \<open>Runs of the three requests on a healthy world.\<close>

lemma demo_set:
  assumes "w_healthy w"
  shows "\<exists>t. op_set ref_etcd k v w = (None, t) \<and> w_healthy t \<and>
    w_kv t = (w_kv w)(k \<mapsto> (EncodeToString v, 0))"
proof -
  obtain t where t: "cli_Put ref_etcd None k (EncodeToString v) w = (Inr (), t)" "w_healthy t"
    using ref_live.put_live [OF assms in_time_simps(1)] by blast
  then show ?thesis using ref.put_done [OF t(1)] by (simp add: op_set_def)
qed

lemma demo_del:
  assumes "w_healthy w"
  shows "\<exists>t. op_del ref_etcd k w = (None, t) \<and> w_healthy t \<and> w_kv t = (w_kv w)(k := None)"
proof -
  obtain w1 where w1: "w_healthy w1" "\<And>f :: world \<Rightarrow> (go_error + unit) \<times> world. request None f w = f w1"
    by (rule request_live [OF assms in_time_simps(1), where 'a = unit]) blast
  then have run: "cli_Delete ref_etcd None k w = (Inr (), w1\<lparr>w_store := store_op (OpDelete k) (w_store w1)\<rparr>)"
    by (simp add: ref_client_def ref_Delete_def)
  then show ?thesis using ref.del_done [OF run] w1 by (simp add: op_del_def)
qed

text \<open>Retrying as the reference etcd's backoff does, from the start of the run.\<close>

definition demo_retry :: "world operation \<Rightarrow> world operation" where
  "demo_retry = retry_upto 3 srv_backoff (w_now w_init)"

lemma demo_set_retry:
  "w_healthy w \<Longrightarrow> \<exists>t. demo_retry (op_set ref_etcd k v) w = (None, t) \<and> w_healthy t \<and>
    w_kv t = (w_kv w)(k \<mapsto> (EncodeToString v, 0))"
  using demo_set [of w k v] by (auto simp: demo_retry_def numeral_3_eq_3)

lemma demo_del_retry:
  "w_healthy w \<Longrightarrow> \<exists>t. demo_retry (op_del ref_etcd k) w = (None, t) \<and> w_healthy t \<and>
    w_kv t = (w_kv w)(k := None)"
  using demo_del [of w k] by (auto simp: demo_retry_def numeral_3_eq_3)

lemma demo_fail:
  "w_healthy w \<Longrightarrow> \<exists>e t. retry_upto n b start (op_setMD ref_etcd k undated) w = (Some e, t) \<and>
     w_healthy t \<and> w_kv t = w_kv w"
proof (induction n arbitrary: w)
  case (Suc n)
  have "w_healthy (ref_pause w)"
    using Suc.prems by (auto simp: w_healthy_def ref_pause_def w_advance_def)
  from Suc.IH [OF this] Suc.prems show ?case by (auto simp: op_setMD_def Marshal_undated)
qed (simp add: op_setMD_def Marshal_undated)

lemma demo_undoable: "undoable demo_view demo_retry demo_commits demo_rollbacks w_init"
proof -
  obtain t where t: "demo_retry (op_set ref_etcd ''/x'' ''v'') w_init = (None, t)" "w_healthy t"
    "w_kv t = [''/x'' \<mapsto> (EncodeToString ''v'', 0)]"
    using demo_set_retry [OF w_init_healthy, of "''/x''" "''v''"] by auto
  obtain e u where u: "demo_retry (op_setMD ref_etcd ''/y'' undated) t = (Some e, u)" "w_healthy u"
    "w_kv u = w_kv t"
    using demo_fail [OF t(2)] unfolding demo_retry_def by blast
  have "\<exists>v. demo_retry (op_del ref_etcd ''/x'') x = (None, v) \<and> demo_view v = demo_view w_init"
    if "demo_view x = demo_view t" for x
    using demo_del_retry [of x "''/x''"] that t by auto
  then show ?thesis using t u by simp
qed

lemma demo_fails:
  "\<exists>e t. pipeline demo_retry demo_commits demo_rollbacks w_init = (Some e, t)"
proof -
  obtain t where t: "demo_retry (op_set ref_etcd ''/x'' ''v'') w_init = (None, t)" "w_healthy t"
    using demo_set_retry [OF w_init_healthy, of "''/x''" "''v''"] by auto
  obtain e u where "demo_retry (op_setMD ref_etcd ''/y'' undated) t = (Some e, u)"
    using demo_fail [OF t(2)] unfolding demo_retry_def by blast
  with t show ?thesis by (simp add: pipeline_def split: prod.splits)
qed

lemma pipeline_all_or_nothing_witness:
  "\<exists>e t. pipeline demo_retry demo_commits demo_rollbacks w_init = (Some e, t) \<and>
     w_kv t = Map.empty"
proof -
  obtain e t where run: "pipeline demo_retry demo_commits demo_rollbacks w_init = (Some e, t)"
    using demo_fails by blast
  obtain s1 where s1: "demo_retry (op_set ref_etcd ''/x'' ''v'') w_init = (None, s1)" "w_healthy s1"
    using demo_set_retry [OF w_init_healthy, of "''/x''" "''v''"] by auto
  obtain e1 s2 where s2: "demo_retry (op_setMD ref_etcd ''/y'' undated) s1 = (Some e1, s2)"
    "demo_view s2 = demo_view s1"
    using demo_fail [OF s1(2)] s1(2) unfolding demo_retry_def by blast
  obtain i u v err0 where i: "i < length demo_commits"
    "run_commits demo_retry (take i demo_commits) w_init = (i, None, u)"
    "demo_retry (demo_commits ! i) u = (Some err0, v)"
    "demo_view v = demo_view u \<longrightarrow> demo_view t = demo_view w_init"
    using pipeline_all_or_nothing [OF demo_undoable run] by blast
  then consider "i = 0" | "i = 1" by fastforce
  then show ?thesis using i s1 s2 run by cases auto
qed

lemma pipeline_keeps_cause_witness:
  "\<exists>e t. pipeline demo_retry demo_commits demo_rollbacks w_init = (Some e, t) \<and>
     (\<exists>i < length demo_commits. \<exists>u v err0. demo_retry (demo_commits ! i) u = (Some err0, v) \<and>
        root_cause e = root_cause err0)"
proof -
  obtain e t where run: "pipeline demo_retry demo_commits demo_rollbacks w_init = (Some e, t)"
    using demo_fails by blast
  show ?thesis
    by (rule exI [of _ e], rule exI [of _ t], rule conjI [OF run pipeline_keeps_cause [OF run]])
qed

section \<open>Requests\<close>

text \<open>C39: what \<open>setMD\<close> writes, \<open>getMD\<close> reads back, up to the replacement of invalid UTF-8 in
  the path that JSON forces, and what \<open>set\<close> writes, \<open>get\<close> appends to its destination.\<close>

theorem requests_roundtrip:
  assumes "etcd_kv cli kv pause"
    and "op_setMD cli mk m s = (None, t)" and "storable_Metadata m"
    and "op_getMD cli mk zero_Metadata t = ((None, m'), u)"
    and "op_set cli key v u = (None, w)" and "op_get cli key dst w = ((None, dst'), x)"
  shows "m' = m\<lparr>Path := sanitize (Path m)\<rparr> \<and> dst' = dst @ v"
  using etcd_kv.op_getMD_setMD [OF assms(1,2) _ _ assms(4)] etcd_kv.op_get_set [OF assms(1,5,6)]
    assms(3)
  by (simp add: storable_Metadata_def)

lemma requests_roundtrip_witness:
  "\<exists>t m' u w dst' x. op_setMD ref_etcd ''/m'' zero_Metadata w_init = (None, t) \<and>
     op_getMD ref_etcd ''/m'' zero_Metadata t = ((None, m'), u) \<and>
     op_set ref_etcd ''/x'' ''v'' u = (None, w) \<and> op_get ref_etcd ''/x'' ''>'' w = ((None, dst'), x) \<and>
     m' = zero_Metadata \<and> dst' = ''>v''"
proof -
  have valid: "valid_time 0" by (rule valid_timeI) (simp_all add: day_ns_def Second_def)
  then obtain js where js: "Marshal_Metadata zero_Metadata = Some js"
    by (auto simp: Marshal_Metadata_def zero_Metadata_def valid_time_def)
  have fit: "storable_Metadata zero_Metadata" "sanitize (Path zero_Metadata) = Path zero_Metadata"
    using valid by (simp_all add: storable_Metadata_def zero_Metadata_def int64_def sanitize_ascii)
  obtain t where t: "op_setMD ref_etcd ''/m'' zero_Metadata w_init = (None, t)" "w_healthy t"
    using ref_live.put_live [OF w_init_healthy in_time_simps(1), of 3 "''/m''" "EncodeToString js"] js
    by (auto simp: op_setMD_def)
  have kvt: "kv_value (w_kv t) ''/m'' = Some (EncodeToString js)"
    using etcd_kv.op_setMD_effect [OF ref.etcd_kv_axioms t(1)] js by auto
  have dec: "unmarshalMDv3 (EncodeToString js) (Some zero_Metadata) = Inr zero_Metadata"
    using unmarshalMDv3_stored [OF js] fit by (simp add: storable_Metadata_def)
  obtain u where u: "op_getMD ref_etcd ''/m'' zero_Metadata t = ((None, zero_Metadata), u)" "w_healthy u"
  proof -
    obtain xs u where "cli_Get ref_etcd None ''/m'' False t = (Inr xs, u)" "w_healthy u"
      using ref_live.get_live [OF t(2) in_time_simps(1)] by blast
    then show ?thesis
      using that ref.get_point [of 3 None "''/m''" t xs u] kvt dec
      by (auto simp: op_getMD_def point_read_value)
  qed
  obtain w where w: "op_set ref_etcd ''/x'' ''v'' u = (None, w)" "w_healthy w"
    "w_kv w = (w_kv u)(''/x'' \<mapsto> (EncodeToString ''v'', 0))"
    using demo_set [OF u(2)] by blast
  obtain dst' x where x: "op_get ref_etcd ''/x'' ''>'' w = ((None, dst'), x)"
  proof -
    obtain xs x where "cli_Get ref_etcd None ''/x'' False w = (Inr xs, x)"
      using ref_live.get_live [OF w(2) in_time_simps(1)] by blast
    then show ?thesis
      using that ref.get_point [of 3 None "''/x''" w xs x] w(3)
      by (auto simp: op_get_def point_read_value simp del: EncodeToString.simps)
  qed
  show ?thesis
    using requests_roundtrip [OF ref.etcd_kv_axioms t(1) fit(1) u(1) w(1) x] t(1) u(1) w(1) x by auto
qed

text \<open>\<open>getMD\<close> starts the timestamp of a directory at the current time: it is never earlier
  than the call, so files that all lie in the past do not determine it, and the metadata of a
  directory changes with every call.  (The service's \<open>Metadata\<close> starts from the zero time.)\<close>

theorem getMD_directory_is_now:
  assumes "etcd_timed cli kv pause now" and "kv_value (kv s) key = None"
    and "op_getMD cli key m s = ((None, m'), t)"
  shows "IsDir m' \<and> now s \<le> Timestamp m'"
  by (rule etcd_timed.op_getMD_directory [OF assms])

lemma getMD_directory_is_now_witness:
  "\<exists>s m' t. op_getMD ref_etcd ''/d'' zero_Metadata s = ((None, m'), t) \<and>
     IsDir m' \<and> w_now s \<le> Timestamp m'"
proof -
  let ?w = "w_init\<lparr>w_store := [(''/d/x'', ''?'', 0)]\<rparr>"
  have none: "kv_value (w_kv ?w) ''/d'' = None" by (simp add: kv_value_def)
  obtain xs s1 where 1: "cli_Get ref_etcd None ''/d'' False ?w = (Inr xs, s1)" "w_healthy s1"
    using ref_live.get_live [OF _ in_time_simps(1), of ?w 3 "''/d''" False] by auto
  have xs: "xs = []" using ref.get_point [OF 1(1)] none by (simp add: point_read_value)
  obtain kvs s2 where 2: "cli_Get ref_etcd None ''/d/'' True s1 = (Inr kvs, s2)" "w_healthy s2"
    using ref_live.get_live [OF 1(2) in_time_simps(1)] by blast
  have "range_read (w_kv ?w) ''/d/'' kvs"
    using ref.get_range [OF 2(1)] ref.get_frame [OF 1(1)] by simp
  moreover have "\<not> range_read (w_kv ?w) ''/d/'' []"
    by (auto simp: range_read_empty kv_value_def intro!: exI [of _ "''/d/x''"])
  ultimately obtain x ys where "kvs = x # ys" by (cases kvs) auto
  moreover obtain n s3 where "clock_Now ref_etcd s2 = (n, s3)" by (cases "clock_Now ref_etcd s2")
  ultimately obtain m' where run: "op_getMD ref_etcd ''/d'' zero_Metadata ?w = ((None, m'), s3)"
    using 1(1) 2(1) xs by (simp add: op_getMD_def del: sum_children.simps)
  from getMD_directory_is_now [OF ref_timed.etcd_timed_axioms none run] run show ?thesis by blast
qed

section \<open>Stored records and errors\<close>

text \<open>The stored form of both records decodes to what was stored, up to the replacement of
  invalid UTF-8 that JSON forces on the strings.\<close>

theorem records_roundtrip:
  assumes "storable_Metadata m" and "int64 (LeaseID l)"
  shows "\<exists>js. Marshal_Metadata m = Some js \<and>
    unmarshalMDv3 (EncodeToString js) (Some zero_Metadata) = Inr (m\<lparr>Path := sanitize (Path m)\<rparr>) \<and>
    Option.bind (DecodeString (EncodeToString (Marshal_Lock l))) (\<lambda>b. Unmarshal_Lock b zero_Lock) =
      Some (l\<lparr>Token := sanitize (Token l), Obtained := sanitize (Obtained l), Key := sanitize (Key l)\<rparr>)"
proof -
  obtain js where js: "Marshal_Metadata m = Some js"
    using assms(1) by (auto simp: Marshal_Metadata_def storable_Metadata_def valid_time_def)
  then show ?thesis
    using unmarshalMDv3_stored [OF js] assms
    by (simp add: storable_Metadata_def Unmarshal_Marshal_Lock)
qed

lemma records_roundtrip_witness:
  "\<exists>js. Marshal_Metadata zero_Metadata = Some js \<and>
     unmarshalMDv3 (EncodeToString js) (Some zero_Metadata) = Inr zero_Metadata"
proof -
  have "valid_time 0" by (rule valid_timeI) (simp_all add: day_ns_def Second_def)
  then have fit: "storable_Metadata zero_Metadata" "sanitize (Path zero_Metadata) = Path zero_Metadata"
    by (simp_all add: storable_Metadata_def zero_Metadata_def int64_def sanitize_ascii)
  show ?thesis
    using records_roundtrip [OF fit(1), of zero_Lock] fit(2) by (auto simp: zero_Lock_def int64_def)
qed

fun wraps :: "string list \<Rightarrow> go_error \<Rightarrow> go_error" where
  "wraps [] e = e"
| "wraps (m # ms) e = Wrap (wraps ms e) m"

text \<open>A missing key is recognised through any number of wraps by \<open>errors.Is\<close> with
  \<^verbatim>\<open>fs.ErrNotExist\<close>, the test certmagic makes, and by no other kind of error of the
  program; \<open>IsNotExistError\<close> sees the outermost error only.\<close>

theorem not_exist_recognised:
  "errors_Is (wraps ms (NotExist k)) (Sentinel FsErrNotExist) \<and>
   (IsNotExistError (Some (wraps ms (NotExist k))) \<longleftrightarrow> ms = []) \<and>
   \<not> errors_Is (wraps ms (FailedChecksum k)) (Sentinel FsErrNotExist)"
proof (induction ms)
  case Nil
  show ?case by (simp add: IsNotExistError_def errors_Is.simps [of "FailedChecksum k"])
qed (simp add: IsNotExistError_def)

end
