(* ===== verification/Connect.thy ===== *)
theory Connect
  imports Config Cluster
begin

text \<open>
  Set-up: \<open>getClient\<close> and \<open>createTLSConfig\<close> of \<open>src/operations.go\<close>, \<open>NewService\<close> of
  \<open>src/etcd.go\<close>, and from \<open>src/cluster.go\<close> the constructor that \<open>CaddyModule\<close> registers and
  \<open>Provision\<close>.  Certificates and the dialling of etcd are the parameter \<open>net\<close>: its
  functions stand for \<open>tls.LoadX509KeyPair\<close>, for \<open>AppendCertsFromPEM\<close> on an empty pool, and
  for \<open>New\<close> and \<open>Close\<close> of the etcd client.
\<close>

section \<open>The client\<close>

record tls_config =
  tc_ServerName :: string
  tc_InsecureSkipVerify :: bool
  tc_Certificates :: "bytes list"
  tc_RootCAs :: "bytes option"

record client_config =
  cc_Endpoints :: "string list"
  cc_DialTimeout :: int
  cc_DialKeepAliveTime :: int
  cc_DialKeepAliveTimeout :: int
  cc_AutoSyncInterval :: int
  cc_RejectOldCluster :: bool
  cc_TLS :: "tls_config option"
  cc_Username :: string
  cc_Password :: string

record 's net =
  net_LoadX509KeyPair :: "string \<Rightarrow> string \<Rightarrow> go_error + bytes"
  net_AppendCertsFromPEM :: "bytes \<Rightarrow> bool"
  net_New :: "client_config \<Rightarrow> 's \<Rightarrow> (go_error + 's client) \<times> 's"
  net_Close :: "'s client \<Rightarrow> 's \<Rightarrow> 's"

definition createTLSConfig :: "os \<Rightarrow> 's net \<Rightarrow> ClusterConfig \<Rightarrow> go_error + tls_config" where
  "createTLSConfig sys net c =
     (case (if CertFile (TLS c) \<noteq> [] \<and> KeyFile (TLS c) \<noteq> []
            then (case net_LoadX509KeyPair net (CertFile (TLS c)) (KeyFile (TLS c)) of
                    Inl err \<Rightarrow> Inl (Wrap err ''failed to load client cert/key pair'')
                  | Inr cert \<Rightarrow> Inr [cert])
            else Inr []) of
        Inl err \<Rightarrow> Inl err
      | Inr certs \<Rightarrow>
          let t = \<lparr> tc_ServerName = ServerName (TLS c), tc_InsecureSkipVerify = SkipVerify (TLS c),
                    tc_Certificates = certs, tc_RootCAs = None \<rparr> in
          if CAFile (TLS c) = [] then Inr t
          else (case os_ReadFile sys (CAFile (TLS c)) of
                  Inl err \<Rightarrow> Inl (Wrap err ''failed to read CA file'')
                | Inr caData \<Rightarrow>
                    if \<not> net_AppendCertsFromPEM net caData
                    then Inl (Errorf ''failed to append CA certificate'')
                    else Inr (t\<lparr>tc_RootCAs := Some caData\<rparr>)))"

text \<open>The client configuration: TLS only with a client certificate, credentials only with a
  user name.\<close>

definition client_config_of :: "ClusterConfig \<Rightarrow> tls_config option \<Rightarrow> client_config" where
  "client_config_of c t =
     \<lparr> cc_Endpoints = ServerIP c,
       cc_DialTimeout = DialTimeout (Connection c),
       cc_DialKeepAliveTime = KeepAliveTime (Connection c),
       cc_DialKeepAliveTimeout = KeepAliveTimeout (Connection c),
       cc_AutoSyncInterval = AutoSyncInterval (Connection c),
       cc_RejectOldCluster = RejectOldCluster (Connection c),
       cc_TLS = t,
       cc_Username = (if Username (Auth c) \<noteq> [] then Username (Auth c) else []),
       cc_Password = (if Username (Auth c) \<noteq> [] then Password (Auth c) else []) \<rparr>"

text \<open>Dialling and the first request, a read of the key \<^verbatim>\<open>ping\<close>.\<close>

definition dial_client ::
  "'s net \<Rightarrow> string list \<Rightarrow> client_config \<Rightarrow> 's \<Rightarrow> (go_error + 's client) \<times> 's" where
  "dial_client net endpoints cc s =
     (case net_New net cc s of
        (Inl err, s1) \<Rightarrow>
          if Contains (Error err) ''context deadline exceeded''
          then (Inl (ConnectionError endpoints (Some (Sentinel ErrNoConnection))), s1)
          else (Inl (ConnectionError endpoints (Some (Sentinel ErrClusterDown))), s1)
      | (Inr cli, s1) \<Rightarrow>
          (case context_WithTimeout cli (cc_DialTimeout cc) s1 of (ctx, s2) \<Rightarrow>
           case cli_Get cli ctx ''ping'' False s2 of
             (Inl err, s3) \<Rightarrow>
               (Inl (ConnectionError endpoints (Some (Sentinel ErrNoConnection))),
                net_Close net cli s3)
           | (Inr _, s3) \<Rightarrow> (Inr cli, s3)))"

definition getClient ::
  "os \<Rightarrow> 's net \<Rightarrow> ClusterConfig \<Rightarrow> 's \<Rightarrow> (go_error + 's client) \<times> 's" where
  "getClient sys net c s =
     (if CertFile (TLS c) \<noteq> []
      then (case createTLSConfig sys net c of
              Inl err \<Rightarrow> (Inl (Wrap err ''failed to create TLS config''), s)
            | Inr t \<Rightarrow> dial_client net (ServerIP c) (client_config_of c (Some t)) s)
      else dial_client net (ServerIP c) (client_config_of c None) s)"

text \<open>The service keeps the client; here the two are returned side by side.  The
  rate limiter is made by \<open>new_etcdsrv\<close>.\<close>

definition NewService ::
  "os \<Rightarrow> 's net \<Rightarrow> ClusterConfig \<Rightarrow> 's \<Rightarrow> (go_error + etcdsrv \<times> 's client) \<times> 's" where
  "NewService sys net c s =
     (case getClient sys net c s of
        (Inl err, s1) \<Rightarrow> (Inl err, s1)
      | (Inr cli, s1) \<Rightarrow> (Inr (new_etcdsrv c, cli), s1))"

section \<open>The cluster object\<close>

text \<open>The configuration from the environment, as both constructors make it; \<open>order\<close> is the
  order in which Go visits the variables.\<close>

definition config_from_env :: "os \<Rightarrow> string list \<Rightarrow> go_error + ClusterConfig" where
  "config_from_env sys order =
     (case ConfigOptsFromEnvironment sys order of
        Inl err \<Rightarrow> Inl err
      | Inr opts \<Rightarrow> NewClusterConfig sys opts)"

text \<open>
  \<open>New\<close> of the module: the global object, made from the environment if there is none.  The
  result is the new value of the global, which is also what is returned; an error ends the
  process (\<open>log.Fatal\<close>).
\<close>

definition module_New :: "os \<Rightarrow> string list \<Rightarrow> Cluster option \<Rightarrow> go_error + Cluster" where
  "module_New sys order g =
     (case g of
        Some cl \<Rightarrow> Inr cl
      | None \<Rightarrow>
          (case config_from_env sys order of
             Inl err \<Rightarrow> Inl err
           | Inr c \<Rightarrow> Inr \<lparr> cl_srv = None, cl_cfg = Some c \<rparr>))"

definition cluster_Provision ::
  "os \<Rightarrow> 's net \<Rightarrow> string list \<Rightarrow> Cluster \<Rightarrow> 's
   \<Rightarrow> (go_error option \<times> Cluster \<times> 's client option) \<times> 's" where
  "cluster_Provision sys net order cl s =
     (case (case cl_cfg cl of
              Some c \<Rightarrow> Inr c
            | None \<Rightarrow> config_from_env sys order) of
        Inl err \<Rightarrow> ((Some err, cl, None), s)
      | Inr c \<Rightarrow>
          let cl1 = cl\<lparr>cl_cfg := Some c\<rparr> in
          case NewService sys net c s of
            (Inl err, s1) \<Rightarrow> ((Some err, cl1, None), s1)
          | (Inr (srv, cli), s1) \<Rightarrow> ((None, cl1\<lparr>cl_srv := Some srv\<rparr>, Some cli), s1))"

end
