(* ===== verification/Dispenser.thy ===== *)
theory Dispenser
  imports Errors
begin

text \<open>
  The token reader of Caddy, \<open>caddyfile.Dispenser\<close>, is not part of the repository: it is the
  parameter \<open>dsp\<close> of the parser, a record of its methods over an unspecified state.  The
  locale \<open>dispenser\<close> states what the parser relies on, in terms of a view of the state: where
  the reader stands in a text of lines, each with words and possibly a block whose braces end
  the line and stand alone.  \<open>text_dispenser\<close> reads such a text and satisfies it.
\<close>

section \<open>The parameter\<close>

record 'd dispenser =
  dsp_Next :: "'d \<Rightarrow> bool \<times> 'd"
  dsp_NextArg :: "'d \<Rightarrow> bool \<times> 'd"
  dsp_NextBlock :: "int \<Rightarrow> 'd \<Rightarrow> bool \<times> 'd"
  dsp_Nesting :: "'d \<Rightarrow> int"
  dsp_Val :: "'d \<Rightarrow> string"
  dsp_ArgErr :: "'d \<Rightarrow> go_error"
  dsp_Errf :: "string \<Rightarrow> 'd \<Rightarrow> go_error"

section \<open>Texts and positions in them\<close>

text \<open>A line: its first word, the other words, and the block it opens.\<close>

datatype line = Line string "string list" "line list option"

text \<open>
  A position: before a line, or on a word with the words and the block of its line that are
  still to come and, for each block around it, the lines still to come, innermost first.
\<close>

datatype cursor =
    Start line
  | At string "string list" "line list option" "line list list"

fun line_cursor :: "line \<Rightarrow> line list list \<Rightarrow> cursor" where
  "line_cursor (Line w as b) conts = At w as b conts"

fun line_tokens :: "line \<Rightarrow> nat" where
  "line_tokens (Line w as b) =
     1 + length as + (case b of None \<Rightarrow> 0 | Some ls \<Rightarrow> 2 + sum_list (map line_tokens ls))"

definition block_tokens :: "line list option \<Rightarrow> nat" where
  "block_tokens b = (case b of None \<Rightarrow> 0 | Some ls \<Rightarrow> 2 + sum_list (map line_tokens ls))"

fun tokens_left :: "cursor \<Rightarrow> nat" where
  "tokens_left (Start l) = line_tokens l"
| "tokens_left (At w as b conts) =
     length as + block_tokens b + sum_list (map (\<lambda>ls. 1 + sum_list (map line_tokens ls)) conts)"

section \<open>The contract\<close>

text \<open>
  \<open>NextArg\<close> moves to the next word of the line if there is one.  \<open>NextBlock\<close> at the level of
  the line enters its block, if the block is next; inside a block it moves to the next token,
  whatever that is, and closes the block at its end.
\<close>

locale dispenser =
  fixes dsp :: "'d dispenser" and view :: "'d \<Rightarrow> cursor"
  assumes next_line: "view d = Start l \<Longrightarrow>
      \<exists>d'. dsp_Next dsp d = (True, d') \<and> view d' = line_cursor l []"
    and val: "view d = At w as b conts \<Longrightarrow> dsp_Val dsp d = w"
    and nesting: "view d = At w as b conts \<Longrightarrow> dsp_Nesting dsp d = int (length conts)"
    and arg: "view d = At w (a # as) b conts \<Longrightarrow>
      \<exists>d'. dsp_NextArg dsp d = (True, d') \<and> view d' = At a as b conts"
    and no_arg: "view d = At w [] b conts \<Longrightarrow>
      \<exists>d'. dsp_NextArg dsp d = (False, d') \<and> view d' = At w [] b conts"
    and enter: "view d = At w [] (Some (l # ls)) conts \<Longrightarrow>
      \<exists>d'. dsp_NextBlock dsp (int (length conts)) d = (True, d') \<and>
           view d' = line_cursor l (ls # conts)"
    and enter_empty: "view d = At w [] (Some []) conts \<Longrightarrow>
      \<exists>d' w'. dsp_NextBlock dsp (int (length conts)) d = (False, d') \<and>
              view d' = At w' [] None conts"
    and no_block: "view d = At w as b conts \<Longrightarrow> as \<noteq> [] \<or> b = None \<Longrightarrow>
      \<exists>d'. dsp_NextBlock dsp (int (length conts)) d = (False, d') \<and> view d' = view d"
    and item: "view d = At w [] None ((l # ls) # conts) \<Longrightarrow> n \<le> length conts \<Longrightarrow>
      \<exists>d'. dsp_NextBlock dsp (int n) d = (True, d') \<and> view d' = line_cursor l (ls # conts)"
    and unread_arg: "view d = At w (a # as) b (ls # conts) \<Longrightarrow> n \<le> length conts \<Longrightarrow>
      \<exists>d'. dsp_NextBlock dsp (int n) d = (True, d') \<and> view d' = At a as b (ls # conts)"
    and unread_block: "view d = At w [] (Some bl) (ls # conts) \<Longrightarrow> n \<le> length conts \<Longrightarrow>
      \<exists>d'. dsp_NextBlock dsp (int n) d = (True, d') \<and>
           view d' = At ''{'' [] None (bl # ls # conts)"
    and leave: "view d = At w [] None ([] # conts) \<Longrightarrow>
      \<exists>d' w'. dsp_NextBlock dsp (int (length conts)) d = (False, d') \<and>
              view d' = At w' [] None conts"
    and leave_inner: "view d = At w [] None ([] # conts) \<Longrightarrow> n < length conts \<Longrightarrow>
      \<exists>d'. dsp_NextBlock dsp (int n) d = (True, d') \<and> view d' = At ''}'' [] None conts"

section \<open>Loops over blocks\<close>

text \<open>
  \<open>for nesting := d.Nesting(); d.NextBlock(nesting); { ... }\<close> with a body that may return an
  error or not return at all.  A loop that does not end is \<open>None\<close>.
\<close>

partial_function (option) block_loop ::
  "'d dispenser \<Rightarrow> int \<Rightarrow> ('d \<times> 'c \<Rightarrow> (go_error option \<times> 'd \<times> 'c) option)
   \<Rightarrow> 'd \<times> 'c \<Rightarrow> (go_error option \<times> 'd \<times> 'c) option" where
  "block_loop dsp n body s =
     (case dsp_NextBlock dsp n (fst s) of
        (found, d1) \<Rightarrow>
          if \<not> found then Some (None, d1, snd s)
          else Option.bind (body (d1, snd s))
            (\<lambda>(r, t). case r of Some err \<Rightarrow> Some (Some err, t) | None \<Rightarrow> block_loop dsp n body t))"

lemma block_loop_end:
  "dsp_NextBlock dsp n d = (False, d1) \<Longrightarrow> block_loop dsp n body (d, c) = Some (None, d1, c)"
  by (subst block_loop.simps) simp

lemma block_loop_step:
  "dsp_NextBlock dsp n d = (True, d1) \<Longrightarrow> body (d1, c) = Some (r, d2, c2) \<Longrightarrow>
   block_loop dsp n body (d, c) =
     (case r of Some err \<Rightarrow> Some (Some err, d2, c2) | None \<Rightarrow> block_loop dsp n body (d2, c2))"
  by (subst block_loop.simps) simp

context dispenser
begin

lemma line_tokens_cursor: "Suc (tokens_left (line_cursor l conts)) =
    line_tokens l + sum_list (map (\<lambda>ls. 1 + sum_list (map line_tokens ls)) conts)"
  by (cases l) (auto simp: block_tokens_def split: option.splits)

text \<open>
  Totality: a position inside the blocks that a loop at level \<open>n\<close> sees is left behind or read
  on, and reading uses up a token.
\<close>

lemma block_progress:
  assumes "view d = At w as b conts" "n \<le> length conts"
  shows "\<exists>found d'. dsp_NextBlock dsp (int n) d = (found, d') \<and>
    (\<exists>w' as' b' conts'. view d' = At w' as' b' conts' \<and>
       (if found then n < length conts' \<and> tokens_left (view d') < tokens_left (view d)
        else length conts' = n \<and> tokens_left (view d') \<le> tokens_left (view d)))"
proof -
  consider (arg) a as' ls conts' where "as = a # as'" "conts = ls # conts'" "n \<le> length conts'"
    | (block) bl ls conts' where "as = []" "b = Some bl" "conts = ls # conts'" "n \<le> length conts'"
    | (item) l ls conts' where "as = []" "b = None" "conts = (l # ls) # conts'" "n \<le> length conts'"
    | (inner) conts' where "as = []" "b = None" "conts = [] # conts'" "n < length conts'"
    | (leave) conts' where "as = []" "b = None" "conts = [] # conts'" "n = length conts'"
    | (enter) l ls where "as = []" "b = Some (l # ls)" "n = length conts"
    | (empty) "as = []" "b = Some []" "n = length conts"
    | (none) "as \<noteq> [] \<or> b = None" "n = length conts"
    using assms(2)
    by (cases as; cases b; cases conts; cases "n = length conts"; cases "hd conts"; cases "the b")
       (auto simp: le_Suc_eq less_Suc_eq_le le_less)
  then show ?thesis
  proof cases
    case arg
    with assms(1) unread_arg [of d w a as' b ls conts' n] show ?thesis by force
  next
    case block
    with assms(1) unread_block [of d w bl ls conts' n] show ?thesis
      by (force simp: block_tokens_def)
  next
    case item
    obtain lw las lb where "l = Line lw las lb" by (cases l)
    with item assms(1) dispenser.item [OF dispenser_axioms, of d w l ls conts' n]
      line_tokens_cursor [of l "ls # conts'"] show ?thesis
      by (force simp: block_tokens_def)
  next
    case inner
    with assms(1) leave_inner [of d w conts' n] show ?thesis by force
  next
    case leave
    with assms(1) dispenser.leave [OF dispenser_axioms, of d w conts'] show ?thesis
      by (force simp: block_tokens_def)
  next
    case enter
    obtain lw las lb where "l = Line lw las lb" by (cases l)
    with enter assms(1) dispenser.enter [OF dispenser_axioms, of d w l ls conts]
      line_tokens_cursor [of l "ls # conts"] show ?thesis
      by (force simp: block_tokens_def)
  next
    case empty
    with assms(1) enter_empty [of d w conts] show ?thesis
      by (force simp: block_tokens_def)
  next
    case none
    with assms(1) no_block [of d w as b conts] show ?thesis by force
  qed
qed

end

section \<open>Reading a text\<close>

text \<open>A dispenser whose state is the position itself.\<close>

fun text_Next :: "cursor \<Rightarrow> bool \<times> cursor" where
  "text_Next (Start l) = (True, line_cursor l [])"
| "text_Next d = (False, d)"

fun text_NextArg :: "cursor \<Rightarrow> bool \<times> cursor" where
  "text_NextArg (At w (a # as) b conts) = (True, At a as b conts)"
| "text_NextArg d = (False, d)"

fun text_NextToken :: "int \<Rightarrow> cursor \<Rightarrow> bool \<times> cursor" where
  "text_NextToken n (At w (a # as) b conts) = (True, At a as b conts)"
| "text_NextToken n (At w [] (Some bl) conts) = (True, At ''{'' [] None (bl # conts))"
| "text_NextToken n (At w [] None ((l # ls) # conts)) = (True, line_cursor l (ls # conts))"
| "text_NextToken n (At w [] None ([] # conts)) =
     (n < int (length conts), At ''}'' [] None conts)"
| "text_NextToken n d = (False, d)"

fun text_NextBlock :: "int \<Rightarrow> cursor \<Rightarrow> bool \<times> cursor" where
  "text_NextBlock n (Start l) = (False, Start l)"
| "text_NextBlock n (At w as b conts) =
     (if n < int (length conts) then text_NextToken n (At w as b conts)
      else case (as, b) of
        ([], Some (l # ls)) \<Rightarrow> (True, line_cursor l (ls # conts))
      | ([], Some []) \<Rightarrow> (False, At ''}'' [] None conts)
      | _ \<Rightarrow> (False, At w as b conts))"

fun text_Nesting :: "cursor \<Rightarrow> int" where
  "text_Nesting (Start l) = 0"
| "text_Nesting (At w as b conts) = int (length conts)"

fun text_Val :: "cursor \<Rightarrow> string" where
  "text_Val (Start l) = []"
| "text_Val (At w as b conts) = w"

definition text_dispenser :: "cursor dispenser" where
  "text_dispenser =
     \<lparr> dsp_Next = text_Next, dsp_NextArg = text_NextArg, dsp_NextBlock = text_NextBlock,
       dsp_Nesting = text_Nesting, dsp_Val = text_Val,
       dsp_ArgErr = (\<lambda>d. Errorf ''wrong argument count''), dsp_Errf = (\<lambda>m d. Errorf m) \<rparr>"

interpretation reader: dispenser text_dispenser "\<lambda>d. d"
  by unfold_locales (auto simp: text_dispenser_def split: list.splits option.splits)

end
