(* ===== verification/Caddyfile.thy ===== *)
theory Caddyfile
  imports Dispenser Config Cluster
begin

text \<open>
  \<open>src/caddyfile.go\<close>: \<open>UnmarshalCaddyfile\<close>, which turns the block of the \<^verbatim>\<open>storage etcd\<close>
  directive into a configuration by applying options as it reads.  The state of its loops is
  the reader and the configuration; the result is \<open>None\<close> if a loop does not end.
\<close>

section \<open>Single options\<close>

text \<open>\<open>if !d.NextArg() { return d.ArgErr() }\<close>, then the option with \<open>d.Val()\<close>.\<close>

definition arg_option ::
  "'d dispenser \<Rightarrow> (string \<Rightarrow> config_option) \<Rightarrow> ('d \<times> ClusterConfig) operation" where
  "arg_option dsp opt =
     (\<lambda>(d, c). case dsp_NextArg dsp d of
        (found, d1) \<Rightarrow>
          if \<not> found then (Some (dsp_ArgErr dsp d1), d1, c)
          else case opt (dsp_Val dsp d1) c of (r, c1) \<Rightarrow> (r, d1, c1))"

definition flag_option :: "config_option \<Rightarrow> ('d \<times> ClusterConfig) operation" where
  "flag_option opt = (\<lambda>(d, c). case opt c of (r, c1) \<Rightarrow> (r, d, c1))"

definition unknown_option ::
  "'d dispenser \<Rightarrow> string \<Rightarrow> ('d \<times> ClusterConfig) operation" where
  "unknown_option dsp what = (\<lambda>(d, c). (Some (dsp_Errf dsp (what @ dsp_Val dsp d) d), d, c))"

definition auth_item :: "'d dispenser \<Rightarrow> ('d \<times> ClusterConfig) operation" where
  "auth_item dsp s =
     (let k = dsp_Val dsp (fst s) in
      if k = ''username'' then arg_option dsp WithUsername s
      else if k = ''password'' then arg_option dsp WithPassword s
      else unknown_option dsp ''unknown auth option: '' s)"

definition tls_item :: "'d dispenser \<Rightarrow> os \<Rightarrow> ('d \<times> ClusterConfig) operation" where
  "tls_item dsp sys s =
     (let k = dsp_Val dsp (fst s) in
      if k = ''cert'' then arg_option dsp (WithTLSCert sys) s
      else if k = ''key'' then arg_option dsp (WithTLSKey sys) s
      else if k = ''ca'' then arg_option dsp (WithTLSCA sys) s
      else if k = ''server_name'' then arg_option dsp WithTLSServerName s
      else if k = ''insecure_skip_verify'' then flag_option (WithTLSSkipVerify ''true'') s
      else unknown_option dsp ''unknown tls option: '' s)"

definition connection_item :: "'d dispenser \<Rightarrow> ('d \<times> ClusterConfig) operation" where
  "connection_item dsp s =
     (let k = dsp_Val dsp (fst s) in
      if k = ''dial_timeout'' then arg_option dsp WithDialTimeout s
      else if k = ''keepalive_time'' then arg_option dsp WithKeepAliveTime s
      else if k = ''keepalive_timeout'' then arg_option dsp WithKeepAliveTimeout s
      else if k = ''auto_sync_interval'' then arg_option dsp WithAutoSyncInterval s
      else if k = ''request_timeout'' then arg_option dsp WithRequestTimeout s
      else if k = ''reject_old_cluster'' then arg_option dsp WithRejectOldCluster s
      else unknown_option dsp ''unknown connection option: '' s)"

section \<open>Directives\<close>

text \<open>A nested block of options, and the block of endpoints, which are collected first.\<close>

definition option_block ::
  "'d dispenser \<Rightarrow> ('d \<times> ClusterConfig) operation \<Rightarrow> 'd \<times> ClusterConfig
   \<Rightarrow> (go_error option \<times> 'd \<times> ClusterConfig) option" where
  "option_block dsp body s = block_loop dsp (dsp_Nesting dsp (fst s)) (\<lambda>t. Some (body t)) s"

definition collect_endpoint :: "'d dispenser \<Rightarrow> ('d \<times> string list) operation" where
  "collect_endpoint dsp = (\<lambda>(d, es). (None, d, es @ [dsp_Val dsp d]))"

definition endpoints_directive ::
  "'d dispenser \<Rightarrow> 'd \<times> ClusterConfig \<Rightarrow> (go_error option \<times> 'd \<times> ClusterConfig) option" where
  "endpoints_directive dsp = (\<lambda>(d, c).
     map_option (\<lambda>(_, d1, endpoints).
         if endpoints = [] then (Some (dsp_Errf dsp ''no endpoints specified'' d1), d1, c)
         else flag_option (WithServers (join_with (CHR '','') endpoints)) (d1, c))
       (block_loop dsp (dsp_Nesting dsp d) (\<lambda>t. Some (collect_endpoint dsp t)) (d, [])))"

definition caddy_directive ::
  "'d dispenser \<Rightarrow> os \<Rightarrow> 'd \<times> ClusterConfig \<Rightarrow> (go_error option \<times> 'd \<times> ClusterConfig) option"
where
  "caddy_directive dsp sys s =
     (let k = dsp_Val dsp (fst s) in
      if k = ''prefix'' then Some (arg_option dsp WithPrefix s)
      else if k = ''endpoints'' then endpoints_directive dsp s
      else if k = ''timeout'' then Some (arg_option dsp WithTimeout s)
      else if k = ''caddyfile'' then Some (arg_option dsp (WithCaddyFile sys) s)
      else if k = ''disable_caddyfile_load''
      then Some (flag_option (WithDisableCaddyfileLoad ''disable'') s)
      else if k = ''auth'' then option_block dsp (auth_item dsp) s
      else if k = ''tls'' then option_block dsp (tls_item dsp sys) s
      else if k = ''connection'' then option_block dsp (connection_item dsp) s
      else Some (unknown_option dsp ''unknown directive: '' s))"

text \<open>The cluster object gets the configuration before the block is read, so an error leaves
  it with what has been applied so far.\<close>

definition UnmarshalCaddyfile ::
  "'d dispenser \<Rightarrow> os \<Rightarrow> Cluster \<Rightarrow> 'd \<Rightarrow> (go_error option \<times> Cluster \<times> 'd) option" where
  "UnmarshalCaddyfile dsp sys cl d =
     (case dsp_Next dsp d of
        (found, d1) \<Rightarrow>
          if \<not> found then Some (Some (dsp_ArgErr dsp d1), cl, d1)
          else (case dsp_NextArg dsp d1 of
            (found, d2) \<Rightarrow>
              if found then Some (Some (dsp_ArgErr dsp d2), cl, d2)
              else (case NewClusterConfig sys [] of
                Inl err \<Rightarrow> Some (Some err, cl, d2)
              | Inr c0 \<Rightarrow>
                  map_option (\<lambda>(r, d3, c). (r, cl\<lparr>cl_cfg := Some c\<rparr>, d3))
                    (block_loop dsp (dsp_Nesting dsp d2) (caddy_directive dsp sys) (d2, c0)))))"

end
