(* ===== verification/Caddyfile_Spec.thy ===== *)
theory Caddyfile_Spec
  imports Caddyfile Config_Spec
begin

text \<open>
  What a \<^verbatim>\<open>storage etcd\<close> block means: a syntax tree of directives, its text, and the options
  it stands for.  Reading the text of a tree applies exactly its options, in order.
\<close>

section \<open>Directives, their text and their meaning\<close>

datatype auth_opt = Username_opt string | Password_opt string

datatype tls_opt =
  Cert_opt string | Key_opt string | CA_opt string | ServerName_opt string | SkipVerify_opt

datatype connection_opt =
    DialTimeout_opt string | KeepAliveTime_opt string | KeepAliveTimeout_opt string
  | AutoSync_opt string | RequestTimeout_opt string | RejectOld_opt string

datatype directive =
    Prefix_dir string | Endpoints_dir "string list" | Timeout_dir string | Caddyfile_dir string
  | Disable_dir | Auth_dir "auth_opt list" | TLS_dir "tls_opt list"
  | Connection_dir "connection_opt list"

fun auth_line :: "auth_opt \<Rightarrow> line" where
  "auth_line (Username_opt s) = Line ''username'' [s] None"
| "auth_line (Password_opt s) = Line ''password'' [s] None"

fun auth_meaning :: "auth_opt \<Rightarrow> config_option" where
  "auth_meaning (Username_opt s) = WithUsername s"
| "auth_meaning (Password_opt s) = WithPassword s"

fun tls_line :: "tls_opt \<Rightarrow> line" where
  "tls_line (Cert_opt s) = Line ''cert'' [s] None"
| "tls_line (Key_opt s) = Line ''key'' [s] None"
| "tls_line (CA_opt s) = Line ''ca'' [s] None"
| "tls_line (ServerName_opt s) = Line ''server_name'' [s] None"
| "tls_line SkipVerify_opt = Line ''insecure_skip_verify'' [] None"

fun tls_meaning :: "os \<Rightarrow> tls_opt \<Rightarrow> config_option" where
  "tls_meaning sys (Cert_opt s) = WithTLSCert sys s"
| "tls_meaning sys (Key_opt s) = WithTLSKey sys s"
| "tls_meaning sys (CA_opt s) = WithTLSCA sys s"
| "tls_meaning sys (ServerName_opt s) = WithTLSServerName s"
| "tls_meaning sys SkipVerify_opt = WithTLSSkipVerify ''true''"

fun connection_line :: "connection_opt \<Rightarrow> line" where
  "connection_line (DialTimeout_opt s) = Line ''dial_timeout'' [s] None"
| "connection_line (KeepAliveTime_opt s) = Line ''keepalive_time'' [s] None"
| "connection_line (KeepAliveTimeout_opt s) = Line ''keepalive_timeout'' [s] None"
| "connection_line (AutoSync_opt s) = Line ''auto_sync_interval'' [s] None"
| "connection_line (RequestTimeout_opt s) = Line ''request_timeout'' [s] None"
| "connection_line (RejectOld_opt s) = Line ''reject_old_cluster'' [s] None"

fun connection_meaning :: "connection_opt \<Rightarrow> config_option" where
  "connection_meaning (DialTimeout_opt s) = WithDialTimeout s"
| "connection_meaning (KeepAliveTime_opt s) = WithKeepAliveTime s"
| "connection_meaning (KeepAliveTimeout_opt s) = WithKeepAliveTimeout s"
| "connection_meaning (AutoSync_opt s) = WithAutoSyncInterval s"
| "connection_meaning (RequestTimeout_opt s) = WithRequestTimeout s"
| "connection_meaning (RejectOld_opt s) = WithRejectOldCluster s"

fun directive_line :: "directive \<Rightarrow> line" where
  "directive_line (Prefix_dir s) = Line ''prefix'' [s] None"
| "directive_line (Endpoints_dir es) =
     Line ''endpoints'' [] (Some (map (\<lambda>e. Line e [] None) es))"
| "directive_line (Timeout_dir s) = Line ''timeout'' [s] None"
| "directive_line (Caddyfile_dir s) = Line ''caddyfile'' [s] None"
| "directive_line Disable_dir = Line ''disable_caddyfile_load'' [] None"
| "directive_line (Auth_dir os) = Line ''auth'' [] (Some (map auth_line os))"
| "directive_line (TLS_dir os) = Line ''tls'' [] (Some (map tls_line os))"
| "directive_line (Connection_dir os) = Line ''connection'' [] (Some (map connection_line os))"

fun meaning :: "os \<Rightarrow> directive \<Rightarrow> config_option list" where
  "meaning sys (Prefix_dir s) = [WithPrefix s]"
| "meaning sys (Endpoints_dir es) = [WithServers (join_with (CHR '','') es)]"
| "meaning sys (Timeout_dir s) = [WithTimeout s]"
| "meaning sys (Caddyfile_dir s) = [WithCaddyFile sys s]"
| "meaning sys Disable_dir = [WithDisableCaddyfileLoad ''disable'']"
| "meaning sys (Auth_dir os) = map auth_meaning os"
| "meaning sys (TLS_dir os) = map (tls_meaning sys) os"
| "meaning sys (Connection_dir os) = map connection_meaning os"

text \<open>The whole block, and the trees whose text the parser can read.\<close>

definition storage_line :: "directive list \<Rightarrow> line" where
  "storage_line dirs = Line ''etcd'' [] (Some (map directive_line dirs))"

definition proper :: "directive \<Rightarrow> bool" where
  "proper dir \<longleftrightarrow> dir \<noteq> Endpoints_dir []"

lemma apply_options_append:
  "apply_options (xs @ ys) c =
     (case apply_options xs c of (Some err, c1) \<Rightarrow> (Some err, c1) | (None, c1) \<Rightarrow> apply_options ys c1)"
  by (induction xs arbitrary: c) (auto split: prod.splits option.splits)

lemma apply_options_single: "apply_options [opt] c = opt c"
  by (auto split: prod.splits option.splits)

section \<open>Reading\<close>

context dispenser
begin

text \<open>
  A loop over the text of a list of items whose body reads one item applies the meanings of
  the items until one fails.
\<close>

lemma block_items:
  assumes body: "\<And>i d c rest. i \<in> set is \<Longrightarrow> view d = line_cursor (item_line i) (rest # conts) \<Longrightarrow>
      \<exists>d' w. body (d, c) = Some (fst (step i c), d', snd (step i c)) \<and>
             (fst (step i c) = None \<longrightarrow> view d' = At w [] None (rest # conts))"
    and "view d = At w [] None (map item_line is # conts)"
  shows "\<exists>d' w. block_loop dsp (int (length conts)) body (d, c) =
        Some (fst (apply_options (map step is) c), d', snd (apply_options (map step is) c)) \<and>
      (fst (apply_options (map step is) c) = None \<longrightarrow> view d' = At w [] None conts)"
  using assms
proof (induction "is" arbitrary: d c w)
  case Nil
  obtain d' w' where "dsp_NextBlock dsp (int (length conts)) d = (False, d')"
    "view d' = At w' [] None conts"
    using leave [of d w conts] Nil.prems(2) by auto
  then show ?case by (auto simp: block_loop_end)
next
  case (Cons i "is")
  obtain d1 where d1: "dsp_NextBlock dsp (int (length conts)) d = (True, d1)"
    "view d1 = line_cursor (item_line i) (map item_line is # conts)"
    using item [of d w "item_line i" "map item_line is" conts "length conts"] Cons.prems(2) by auto
  obtain d2 w2 where d2: "body (d1, c) = Some (fst (step i c), d2, snd (step i c))"
    "fst (step i c) = None \<longrightarrow> view d2 = At w2 [] None (map item_line is # conts)"
    using Cons.prems(1) [OF _ d1(2)] by fastforce
  show ?case
  proof (cases "fst (step i c)")
    case None
    have "\<exists>d' w. block_loop dsp (int (length conts)) body (d2, snd (step i c)) =
        Some (fst (apply_options (map step is) (snd (step i c))), d',
              snd (apply_options (map step is) (snd (step i c)))) \<and>
      (fst (apply_options (map step is) (snd (step i c))) = None \<longrightarrow> view d' = At w [] None conts)"
      using Cons.IH [OF Cons.prems(1), where d = d2 and c = "snd (step i c)" and w = w2] d2 None
      by auto
    then show ?thesis
      using block_loop_step [where body = body, OF d1(1) d2(1)] None by (simp add: case_prod_unfold)
  next
    case (Some err)
    then show ?thesis
      using block_loop_step [where body = body, OF d1(1) d2(1)] by (simp add: case_prod_unfold)
  qed
qed

text \<open>The same from the line that opens the block.\<close>

lemma block_of_line:
  assumes body: "\<And>i d c rest. i \<in> set is \<Longrightarrow> view d = line_cursor (item_line i) (rest # conts) \<Longrightarrow>
      \<exists>d' w. body (d, c) = Some (fst (step i c), d', snd (step i c)) \<and>
             (fst (step i c) = None \<longrightarrow> view d' = At w [] None (rest # conts))"
    and start: "view d = At w [] (Some (map item_line is)) conts"
  shows "\<exists>d' w. block_loop dsp (int (length conts)) body (d, c) =
        Some (fst (apply_options (map step is) c), d', snd (apply_options (map step is) c)) \<and>
      (fst (apply_options (map step is) c) = None \<longrightarrow> view d' = At w [] None conts)"
proof (cases "is")
  case Nil
  obtain d' w' where "dsp_NextBlock dsp (int (length conts)) d = (False, d')"
    "view d' = At w' [] None conts"
    using enter_empty [of d w conts] start Nil by auto
  then show ?thesis using Nil by (auto simp: block_loop_end)
next
  case (Cons i js)
  obtain d1 where d1: "dsp_NextBlock dsp (int (length conts)) d = (True, d1)"
    "view d1 = line_cursor (item_line i) (map item_line js # conts)"
    using enter [of d w "item_line i" "map item_line js" conts] start Cons by auto
  obtain d2 w2 where d2: "body (d1, c) = Some (fst (step i c), d2, snd (step i c))"
    "fst (step i c) = None \<longrightarrow> view d2 = At w2 [] None (map item_line js # conts)"
    using body [OF _ d1(2)] Cons by fastforce
  show ?thesis
  proof (cases "fst (step i c)")
    case None
    have "\<exists>d' w. block_loop dsp (int (length conts)) body (d2, snd (step i c)) =
        Some (fst (apply_options (map step js) (snd (step i c))), d',
              snd (apply_options (map step js) (snd (step i c)))) \<and>
      (fst (apply_options (map step js) (snd (step i c))) = None \<longrightarrow> view d' = At w [] None conts)"
      by (rule block_items [where w = w2]) (use body d2 None Cons in auto)
    then show ?thesis
      using block_loop_step [where body = body, OF d1(1) d2(1)] None Cons by (simp add: case_prod_unfold)
  next
    case (Some err)
    then show ?thesis
      using block_loop_step [where body = body, OF d1(1) d2(1)] Cons by (simp add: case_prod_unfold)
  qed
qed

text \<open>One item of each kind.\<close>

lemma arg_option_view:
  assumes "view d = At k [s] None conts"
  shows "\<exists>d' w. arg_option dsp opt (d, c) = (fst (opt s c), d', snd (opt s c)) \<and>
    view d' = At w [] None conts"
proof -
  obtain d' where "dsp_NextArg dsp d = (True, d')" "view d' = At s [] None conts"
    using arg [of d k s "[]"] assms by auto
  then show ?thesis using val [of d' s] by (auto simp: arg_option_def case_prod_unfold)
qed

lemma flag_option_view:
  "flag_option opt (d, c) = (fst (opt c), d, snd (opt c))"
  by (simp add: flag_option_def case_prod_unfold)

lemma auth_item_view:
  assumes "view d = line_cursor (auth_line i) conts"
  shows "\<exists>d' w. auth_item dsp (d, c) = (fst (auth_meaning i c), d', snd (auth_meaning i c)) \<and>
    view d' = At w [] None conts"
proof (cases i)
  case (Username_opt s)
  with assms show ?thesis
    using val [of d] arg_option_view [of d _ s conts WithUsername c] by (simp add: auth_item_def)
next
  case (Password_opt s)
  with assms show ?thesis
    using val [of d] arg_option_view [of d _ s conts WithPassword c] by (simp add: auth_item_def)
qed

lemma tls_item_view:
  assumes "view d = line_cursor (tls_line i) conts"
  shows "\<exists>d' w. tls_item dsp sys (d, c) = (fst (tls_meaning sys i c), d', snd (tls_meaning sys i c)) \<and>
    view d' = At w [] None conts"
  using assms val [of d] arg_option_view [of d _ _ conts _ c]
  by (cases i) (simp_all add: tls_item_def flag_option_view)

lemma connection_item_view:
  assumes "view d = line_cursor (connection_line i) conts"
  shows "\<exists>d' w. connection_item dsp (d, c) =
      (fst (connection_meaning i c), d', snd (connection_meaning i c)) \<and>
    view d' = At w [] None conts"
  using assms val [of d] arg_option_view [of d _ _ conts _ c]
  by (cases i) (simp_all add: connection_item_def)

lemma option_block_view:
  assumes item: "\<And>i d c conts. view d = line_cursor (item_line i) conts \<Longrightarrow>
      \<exists>d' w. body (d, c) = (fst (step i c), d', snd (step i c)) \<and> view d' = At w [] None conts"
    and start: "view d = At w [] (Some (map item_line is)) conts"
  shows "\<exists>d' w. option_block dsp body (d, c) =
        Some (fst (apply_options (map step is) c), d', snd (apply_options (map step is) c)) \<and>
      (fst (apply_options (map step is) c) = None \<longrightarrow> view d' = At w [] None conts)"
proof -
  have nest: "dsp_Nesting dsp d = int (length conts)"
    using nesting start by blast
  have "\<exists>d' w. Some (body (d, c)) = Some (fst (step i c), d', snd (step i c)) \<and>
      (fst (step i c) = None \<longrightarrow> view d' = At w [] None (rest # conts))"
    if "view d = line_cursor (item_line i) (rest # conts)" for i d c rest
    using item [OF that, of c] by auto
  from block_of_line [where body = "\<lambda>t. Some (body t)" and item_line = item_line and step = step,
      OF this start]
  show ?thesis by (simp add: option_block_def nest)
qed

lemma apply_collect:
  "apply_options (map (\<lambda>e es. (None, es @ [e])) xs) es = (None, es @ xs)"
  by (induction xs arbitrary: es) auto

lemma endpoints_view:
  assumes "view d = At w [] (Some (map (\<lambda>e. Line e [] None) es)) conts" "es \<noteq> []"
  shows "\<exists>d' w. endpoints_directive dsp (d, c) =
      Some (fst (WithServers (join_with (CHR '','') es) c), d',
            snd (WithServers (join_with (CHR '','') es) c)) \<and>
    view d' = At w [] None conts"
proof -
  have nest: "dsp_Nesting dsp d = int (length conts)"
    using nesting assms(1) by blast
  have "\<exists>d' w. block_loop dsp (int (length conts)) (\<lambda>t. Some (collect_endpoint dsp t)) (d, []) =
        Some (fst (apply_options (map (\<lambda>e es. (None, es @ [e])) es) []), d',
              snd (apply_options (map (\<lambda>e es. (None, es @ [e])) es) [])) \<and>
      (fst (apply_options (map (\<lambda>e es. (None, es @ [e])) es) []) = None \<longrightarrow>
        view d' = At w [] None conts)"
  proof (rule block_of_line [where item_line = "\<lambda>e. Line e [] None", OF _ assms(1)])
    fix e d c rest
    assume "view d = line_cursor (Line e [] None) (rest # conts)"
    then show "\<exists>d' w. Some (collect_endpoint dsp (d, c)) =
        Some (fst (None, c @ [e]), d', snd (None, c @ [e])) \<and>
      (fst (None, c @ [e]) = None \<longrightarrow> view d' = At w [] None (rest # conts))"
      using val [of d e] by (auto simp: collect_endpoint_def)
  qed
  then show ?thesis
    using assms(2) by (auto simp: endpoints_directive_def nest apply_collect flag_option_view)
qed

lemma caddy_directive_view:
  assumes "view d = line_cursor (directive_line i) conts" "proper i"
  shows "\<exists>d' w. caddy_directive dsp sys (d, c) =
      Some (fst (apply_options (meaning sys i) c), d', snd (apply_options (meaning sys i) c)) \<and>
    (fst (apply_options (meaning sys i) c) = None \<longrightarrow> view d' = At w [] None conts)"
proof -
  have single: "\<exists>d' w. Some (arg_option dsp opt (d, c)) =
      Some (fst (apply_options [opt s] c), d', snd (apply_options [opt s] c)) \<and>
    (fst (apply_options [opt s] c) = None \<longrightarrow> view d' = At w [] None conts)"
    if "view d = At k [s] None conts" for k s opt
    using arg_option_view [OF that, of opt c] unfolding apply_options_single by blast
  show ?thesis
  proof (cases i)
    case (Endpoints_dir es)
    with assms have at: "view d = At ''endpoints'' [] (Some (map (\<lambda>e. Line e [] None) es)) conts"
      and "es \<noteq> []"
      by (simp_all add: proper_def)
    from endpoints_view [OF this, of c] val [OF at] Endpoints_dir show ?thesis
      by (auto simp: caddy_directive_def apply_options_single simp del: apply_options.simps)
  next
    case Disable_dir
    then show ?thesis
      using assms val [of d]
      by (simp add: caddy_directive_def flag_option_view apply_options_single
          del: apply_options.simps)
  next
    case (Auth_dir xs)
    with assms have at: "view d = At ''auth'' [] (Some (map auth_line xs)) conts" by simp
    from option_block_view [where body = "auth_item dsp", OF auth_item_view at, where c = c] val [OF at] Auth_dir
    show ?thesis by (simp add: caddy_directive_def)
  next
    case (TLS_dir xs)
    with assms have at: "view d = At ''tls'' [] (Some (map tls_line xs)) conts" by simp
    from option_block_view [where body = "tls_item dsp sys", OF tls_item_view at, where c = c] val [OF at] TLS_dir
    show ?thesis by (simp add: caddy_directive_def)
  next
    case (Connection_dir xs)
    with assms have at: "view d = At ''connection'' [] (Some (map connection_line xs)) conts" by simp
    from option_block_view [where body = "connection_item dsp", OF connection_item_view at, where c = c] val [OF at] Connection_dir
    show ?thesis by (simp add: caddy_directive_def)
  qed (use assms val [of d] single in \<open>simp_all add: caddy_directive_def del: apply_options.simps\<close>)
qed

text \<open>The whole block.\<close>

theorem UnmarshalCaddyfile_meaning:
  assumes "view d = Start (storage_line dirs)" "list_all proper dirs"
  shows "\<exists>d'. UnmarshalCaddyfile dsp sys cl d =
    Some (fst (apply_options (concat (map (meaning sys) dirs)) default_config),
          cl\<lparr>cl_cfg := Some (snd (apply_options (concat (map (meaning sys) dirs)) default_config))\<rparr>, d')"
proof -
  have start: "NewClusterConfig sys [] = Inr default_config"
    by (simp add: NewClusterConfig_result valid_config_def default_config_def Second_def Minute_def)
  have concat: "apply_options (map (\<lambda>i. apply_options (meaning sys i)) dirs) c =
      apply_options (concat (map (meaning sys) dirs)) c" for c
    by (induction dirs arbitrary: c) (auto simp: apply_options_append split: prod.splits option.splits)
  obtain d1 where d1: "dsp_Next dsp d = (True, d1)"
    "view d1 = At ''etcd'' [] (Some (map directive_line dirs)) []"
    using next_line [OF assms(1)] by (auto simp: storage_line_def)
  obtain d2 where d2: "dsp_NextArg dsp d1 = (False, d2)" "view d2 = view d1"
    using no_arg [OF d1(2)] d1(2) by auto
  have nest: "dsp_Nesting dsp d2 = 0"
    using nesting [of d2] d2(2) d1(2) by simp
  have "\<exists>d' w. block_loop dsp (int (length ([] :: line list list))) (caddy_directive dsp sys) (d2, default_config) =
      Some (fst (apply_options (map (\<lambda>i. apply_options (meaning sys i)) dirs) default_config), d',
            snd (apply_options (map (\<lambda>i. apply_options (meaning sys i)) dirs) default_config)) \<and>
      (fst (apply_options (map (\<lambda>i. apply_options (meaning sys i)) dirs) default_config) = None \<longrightarrow>
        view d' = At w [] None [])"
    by (rule block_of_line [where item_line = directive_line])
       (use caddy_directive_view assms(2) d1(2) d2(2) in \<open>auto simp: list_all_iff\<close>)
  then show ?thesis
    by (auto simp: UnmarshalCaddyfile_def d1(1) d2(1) start nest concat)
qed

end

end
