(* ===== verification/Caddyfile_Total.thy ===== *)
theory Caddyfile_Total
  imports Caddyfile_Spec
begin

text \<open>
  The parser returns on every text, well formed or not: every turn of a loop uses up a token,
  and a nested loop ends at the level of its line.
\<close>

context dispenser
begin

definition placed :: "'d \<Rightarrow> nat \<Rightarrow> nat \<Rightarrow> bool" where
  "placed d level tokens \<longleftrightarrow>
     (\<exists>w as b conts. view d = At w as b conts \<and> length conts = level) \<and> tokens_left (view d) \<le> tokens"

lemma placedI [intro]:
  "view d = At w as b conts \<Longrightarrow> placed d (length conts) (tokens_left (view d))"
  by (auto simp: placed_def)

lemma placed_mono: "placed d level m \<Longrightarrow> m \<le> n \<Longrightarrow> placed d level n"
  by (auto simp: placed_def)

text \<open>A body that returns and, unless it fails, stays at its level and consumes.\<close>

definition steady :: "('d \<times> 'c \<Rightarrow> (go_error option \<times> 'd \<times> 'c) option) \<Rightarrow> bool" where
  "steady body \<longleftrightarrow>
     (\<forall>d c level tokens. placed d level tokens \<longrightarrow>
        (\<exists>r d' c'. body (d, c) = Some (r, d', c') \<and> (r = None \<longrightarrow> placed d' level tokens)))"

lemma steadyE:
  assumes "steady body" "placed d level tokens"
  obtains r d' c' where "body (d, c) = Some (r, d', c')" "r = None \<Longrightarrow> placed d' level tokens"
  using assms unfolding steady_def by blast

lemma next_block_placed:
  assumes "placed d level tokens" "n \<le> level"
  obtains (inside) d' level' where "dsp_NextBlock dsp (int n) d = (True, d')" "n < level'"
      "0 < tokens" "placed d' level' (tokens - 1)"
    | (outside) d' where "dsp_NextBlock dsp (int n) d = (False, d')" "placed d' n tokens"
proof -
  obtain w as b conts where at: "view d = At w as b conts" "length conts = level"
    and tokens: "tokens_left (view d) \<le> tokens"
    using assms(1) unfolding placed_def by blast
  obtain found d' w' as' b' conts' where next': "dsp_NextBlock dsp (int n) d = (found, d')"
    "view d' = At w' as' b' conts'"
    "if found then n < length conts' \<and> tokens_left (view d') < tokens_left (view d)
     else length conts' = n \<and> tokens_left (view d') \<le> tokens_left (view d)"
    using block_progress [OF at(1), of n] at(2) assms(2) by blast
  show ?thesis
  proof (cases found)
    case True
    with next' tokens have "placed d' (length conts') (tokens - 1)" "n < length conts'" "0 < tokens"
      by (auto simp: placed_def)
    with True next'(1) show ?thesis using inside [of d' "length conts'"] by simp
  next
    case False
    with next' tokens have "placed d' n tokens"
      by (auto simp: placed_def)
    with False next'(1) show ?thesis using outside [of d'] by simp
  qed
qed

definition never_fails :: "('d \<times> 'c \<Rightarrow> (go_error option \<times> 'd \<times> 'c) option) \<Rightarrow> bool" where
  "never_fails body \<longleftrightarrow> (\<forall>s r t. body s = Some (r, t) \<longrightarrow> r = None)"

lemma block_loop_total:
  assumes body: "steady body" and "placed d level tokens" "n \<le> level"
  shows "\<exists>r d' c'. block_loop dsp (int n) body (d, c) = Some (r, d', c') \<and>
    (r = None \<longrightarrow> placed d' n tokens) \<and> (never_fails body \<longrightarrow> r = None)"
  using assms(2,3)
proof (induction tokens arbitrary: d c level rule: less_induct)
  case (less tokens)
  from less.prems show ?case
  proof (cases rule: next_block_placed)
    case (inside d1 level1)
    obtain r d2 c2 where d2: "body (d1, c) = Some (r, d2, c2)"
      "r = None \<Longrightarrow> placed d2 level1 (tokens - 1)"
      using steadyE [OF body inside(4)] by metis
    show ?thesis
    proof (cases r)
      case None
      have "\<exists>r d' c'. block_loop dsp (int n) body (d2, c2) = Some (r, d', c') \<and>
          (r = None \<longrightarrow> placed d' n (tokens - 1)) \<and> (never_fails body \<longrightarrow> r = None)"
        using less.IH [of "tokens - 1" d2 level1] d2(2) None inside(2,3) by simp
      then show ?thesis
        using block_loop_step [where body = body, OF inside(1) d2(1)] None placed_mono
        by fastforce
    next
      case (Some err)
      then show ?thesis
        using block_loop_step [where body = body, OF inside(1) d2(1)] d2(1)
        unfolding never_fails_def by (metis option.distinct(1) option.simps(5))
    qed
  next
    case (outside d1)
    then show ?thesis by (simp add: block_loop_end)
  qed
qed

lemma steady_loop:
  assumes "steady body"
  shows "steady (\<lambda>(d, c). block_loop dsp (dsp_Nesting dsp d) body (d, c))"
  unfolding steady_def
proof (intro allI impI)
  fix d c level tokens
  assume placed: "placed d level tokens"
  then have "dsp_Nesting dsp d = int level"
    using nesting unfolding placed_def by blast
  then show "\<exists>r d' c'. (case (d, c) of (d, c) \<Rightarrow> block_loop dsp (dsp_Nesting dsp d) body (d, c)) =
      Some (r, d', c') \<and> (r = None \<longrightarrow> placed d' level tokens)"
    using block_loop_total [OF assms placed order.refl, of c] by auto
qed

text \<open>The bodies of the parser.\<close>

lemma steady_arg: "steady (\<lambda>s. Some (arg_option dsp opt s))"
  unfolding steady_def
proof (intro allI impI)
  fix d c level tokens
  assume "placed d level tokens"
  then obtain w as b conts where at: "view d = At w as b conts" "length conts = level"
    "tokens_left (view d) \<le> tokens"
    unfolding placed_def by blast
  show "\<exists>r d' c'. Some (arg_option dsp opt (d, c)) = Some (r, d', c') \<and>
      (r = None \<longrightarrow> placed d' level tokens)"
  proof (cases as)
    case Nil
    with at no_arg [of d w b conts] show ?thesis
      by (auto simp: arg_option_def)
  next
    case (Cons a as')
    then obtain d' where d': "dsp_NextArg dsp d = (True, d')" "view d' = At a as' b conts"
      using arg [of d w a as' b conts] at(1) by auto
    then have "placed d' level tokens"
      using at Cons by (auto simp: placed_def)
    with d'(1) show ?thesis
      by (auto simp: arg_option_def case_prod_unfold)
  qed
qed

lemma steady_flag: "steady (\<lambda>s. Some (flag_option opt s))"
  by (auto simp: steady_def flag_option_def case_prod_unfold)

lemma steady_unknown: "steady (\<lambda>s. Some (unknown_option dsp what s))"
  by (auto simp: steady_def unknown_option_def)

lemma steady_if:
  "steady f \<Longrightarrow> steady g \<Longrightarrow> steady (\<lambda>s. if P (fst s) then f s else g s)"
  unfolding steady_def by (metis fst_conv)

lemma steady_item:
  "steady (\<lambda>s. Some (auth_item dsp s))"
  "steady (\<lambda>s. Some (tls_item dsp sys s))"
  "steady (\<lambda>s. Some (connection_item dsp s))"
  unfolding auth_item_def tls_item_def connection_item_def Let_def if_distrib [where f = Some]
  by (intro steady_if steady_arg steady_flag steady_unknown)+

lemma steady_option_block:
  assumes "steady (\<lambda>s. Some (body s))"
  shows "steady (option_block dsp body)"
proof -
  have "option_block dsp body =
      (\<lambda>(d, c). block_loop dsp (dsp_Nesting dsp d) (\<lambda>t. Some (body t)) (d, c))"
    by (auto simp: option_block_def)
  with steady_loop [OF assms] show ?thesis by simp
qed

lemma steady_endpoints: "steady (endpoints_directive dsp)"
  unfolding steady_def
proof (intro allI impI)
  fix d c level tokens
  assume placed: "placed d level tokens"
  have nest: "dsp_Nesting dsp d = int level"
    using nesting placed unfolding placed_def by blast
  have body: "steady (\<lambda>t. Some (collect_endpoint dsp t))"
    "never_fails (\<lambda>t. Some (collect_endpoint dsp t))"
    by (auto simp: steady_def never_fails_def collect_endpoint_def)
  obtain d' es where
    "block_loop dsp (dsp_Nesting dsp d) (\<lambda>t. Some (collect_endpoint dsp t)) (d, []) = Some (None, d', es)"
    "placed d' level tokens"
    using block_loop_total [OF body(1) placed order.refl, of "[]"] body(2) nest by auto
  then show "\<exists>r d' c'. endpoints_directive dsp (d, c) = Some (r, d', c') \<and>
      (r = None \<longrightarrow> placed d' level tokens)"
    by (auto simp: endpoints_directive_def flag_option_def case_prod_unfold)
qed

lemma steady_directive: "steady (caddy_directive dsp sys)"
  unfolding caddy_directive_def Let_def
  by (intro steady_if steady_arg steady_flag steady_unknown steady_endpoints steady_option_block
      steady_item)

lemma UnmarshalCaddyfile_total:
  assumes "view d = Start l"
  shows "\<exists>r cl' d'. UnmarshalCaddyfile dsp sys cl d = Some (r, cl', d')"
proof -
  obtain d1 where d1: "dsp_Next dsp d = (True, d1)" "view d1 = line_cursor l []"
    using next_line [OF assms] by blast
  obtain w as b where at: "view d1 = At w as b []"
    using d1(2) by (cases l) auto
  obtain found d2 where d2: "dsp_NextArg dsp d1 = (found, d2)" "\<not> found \<longrightarrow> view d2 = At w [] b []"
    using arg [of d1 w _ _ b "[]"] no_arg [of d1 w b "[]"] at by (cases as) force+
  show ?thesis
  proof (cases "found \<or> (\<exists>err. NewClusterConfig sys [] = Inl err)")
    case True
    then show ?thesis by (auto simp: UnmarshalCaddyfile_def d1(1) d2(1))
  next
    case False
    then obtain c0 where c0: "NewClusterConfig sys [] = Inr c0"
      by (cases "NewClusterConfig sys []") auto
    have "placed d2 0 (tokens_left (view d2))"
      using d2(2) False by (auto simp: placed_def)
    then obtain r d' c' where
      "block_loop dsp (dsp_Nesting dsp d2) (caddy_directive dsp sys) (d2, c0) = Some (r, d', c')"
      using steady_loop [OF steady_directive] unfolding steady_def by fastforce
    with False c0 show ?thesis by (simp add: UnmarshalCaddyfile_def d1(1) d2(1))
  qed
qed

end

end
