(* ===== verification/Config_Env.thy ===== *)
theory Config_Env
  imports Config_Spec
begin

text \<open>
  The configuration from the environment.  Go visits the variables in an arbitrary order;
  \<open>env_config\<close> is a closed form of the outcome that mentions no order, and the lemmas show
  that every order leads to it.
\<close>

section \<open>The closed form\<close>

text \<open>
  \<open>env_config sys S c\<close> is \<open>c\<close> with the settings of the variables that are named in \<open>S\<close> and
  not empty.  No two variables set the same field, so no order is mentioned.
\<close>

definition env_value :: "os \<Rightarrow> string \<Rightarrow> string" where
  "env_value sys n = os_Getenv sys (env_name n)"

definition env_on :: "os \<Rightarrow> string set \<Rightarrow> string \<Rightarrow> bool" where
  "env_on sys S n \<longleftrightarrow> env_name n \<in> S \<and> env_value sys n \<noteq> []"

definition env_set :: "os \<Rightarrow> string set \<Rightarrow> string \<Rightarrow> (string \<Rightarrow> 'a) \<Rightarrow> 'a \<Rightarrow> 'a" where
  "env_set sys S n f old = (if env_on sys S n then f (env_value sys n) else old)"

definition from_source :: "os \<Rightarrow> (string \<times> bytes \<Rightarrow> 'a) \<Rightarrow> 'a \<Rightarrow> string \<Rightarrow> 'a" where
  "from_source sys sel old s = (case caddy_source sys s of None \<Rightarrow> old | Some x \<Rightarrow> sel x)"

abbreviation duration_of :: "string \<Rightarrow> int" where
  "duration_of s \<equiv> the (ParseDuration s)"

definition env_config :: "os \<Rightarrow> string set \<Rightarrow> ClusterConfig \<Rightarrow> ClusterConfig" where
  "env_config sys S c =
     \<lparr> KeyPrefix = env_set sys S ''PREFIX'' prefix_of (KeyPrefix c),
        ServerIP = env_set sys S ''SERVERS'' (\<lambda>s. map TrimSpace (server_texts s)) (ServerIP c),
        LockTimeout = env_set sys S ''TIMEOUT'' duration_of (LockTimeout c),
        CaddyFile = env_set sys S ''CADDYFILE''
          (from_source sys snd (CaddyFile c)) (CaddyFile c),
        CaddyFilePath = env_set sys S ''CADDYFILE''
          (from_source sys fst (CaddyFilePath c)) (CaddyFilePath c),
        DisableCaddyLoad = env_set sys S ''CADDYFILE_LOADER''
          (\<lambda>s. ToLower (TrimSpace s) = ''disable'' \<or> DisableCaddyLoad c) (DisableCaddyLoad c),
        TLS = \<lparr>
          CertFile = env_set sys S ''TLS_CERT'' id (CertFile (TLS c)),
          KeyFile = env_set sys S ''TLS_KEY'' id (KeyFile (TLS c)),
          CAFile = env_set sys S ''TLS_CA'' id (CAFile (TLS c)),
          ServerName = env_set sys S ''TLS_SERVER_NAME'' id (ServerName (TLS c)),
          SkipVerify = env_set sys S ''TLS_SKIP_VERIFY'' (\<lambda>s. ToLower s = ''true'')
            (SkipVerify (TLS c)) \<rparr>,
        Auth = \<lparr>
          Username = env_set sys S ''USERNAME'' id (Username (Auth c)),
          Password = env_set sys S ''PASSWORD'' id (Password (Auth c)) \<rparr>,
        Connection = \<lparr>
          DialTimeout = env_set sys S ''DIAL_TIMEOUT'' duration_of (DialTimeout (Connection c)),
          KeepAliveTime =
            env_set sys S ''KEEPALIVE_TIME'' duration_of (KeepAliveTime (Connection c)),
          KeepAliveTimeout =
            env_set sys S ''KEEPALIVE_TIMEOUT'' duration_of (KeepAliveTimeout (Connection c)),
          AutoSyncInterval =
            env_set sys S ''AUTO_SYNC'' duration_of (AutoSyncInterval (Connection c)),
          RequestTimeout =
            env_set sys S ''REQUEST_TIMEOUT'' duration_of (RequestTimeout (Connection c)),
          RejectOldCluster = env_set sys S ''REJECT_OLD'' (\<lambda>s. ToLower s = ''true'')
            (RejectOldCluster (Connection c)) \<rparr>,
        options = options c \<rparr>"

lemma env_name_inject [simp]: "env_name a = env_name b \<longleftrightarrow> a = b"
  by (simp add: env_name_def)

lemma env_config_empty [simp]: "env_config sys {} c = c"
  by (simp add: env_config_def env_set_def env_on_def)

lemma env_set_insert [simp]:
  "env_set sys (insert (env_name m) S) n f old =
     (if m = n \<and> env_value sys n \<noteq> [] then f (env_value sys n) else env_set sys S n f old)"
  by (auto simp: env_set_def env_on_def)

lemma env_set_absent: "env_name n \<notin> S \<Longrightarrow> env_set sys S n f old = old"
  by (simp add: env_set_def env_on_def)

lemma duration_option_success:
  "duration_option what upd s c = (None, c') \<longleftrightarrow>
     (\<exists>d. ParseDuration s = Some d \<and> Second \<le> d \<and> c' = c\<lparr>Connection := upd d (Connection c)\<rparr>)"
  by (auto simp: duration_option_def split: option.splits)

lemma tls_file_option_success:
  "tls_file_option sys what upd s c = (None, c') \<longleftrightarrow>
     readable sys s \<and> c' = c\<lparr>TLS := upd s (TLS c)\<rparr>"
proof -
  have "tls_file_option sys what upd s c = (None, c') \<longleftrightarrow>
     validateFileExists sys s = None \<and> c' = c\<lparr>TLS := upd s (TLS c)\<rparr>"
    by (auto simp: tls_file_option_def simp del: validateFileExists_None split: option.splits)
  then show ?thesis by simp
qed

lemma WithTimeout_success:
  "WithTimeout s c = (None, c') \<longleftrightarrow> (\<exists>d. ParseDuration s = Some d \<and> c' = c\<lparr>LockTimeout := d\<rparr>)"
  by (auto simp: WithTimeout_def split: option.splits)

lemma WithDisableCaddyfileLoad_success:
  "WithDisableCaddyfileLoad s c = (None, c') \<longleftrightarrow>
     ToLower (TrimSpace s) \<in> {''disable'', ''enable'', []} \<and>
     c' = c\<lparr>DisableCaddyLoad := (ToLower (TrimSpace s) = ''disable'' \<or> DisableCaddyLoad c)\<rparr>"
  by (auto simp: WithDisableCaddyfileLoad_def Let_def)

lemma WithCaddyFile_success:
  "WithCaddyFile sys s c = (None, c') \<longleftrightarrow>
     c' = c\<lparr>CaddyFilePath := from_source sys fst (CaddyFilePath c) s,
           CaddyFile := from_source sys snd (CaddyFile c) s\<rparr>"
  by (auto simp: WithCaddyFile_alt from_source_def split: option.splits)

lemmas option_success = WithTLSCert_def WithTLSKey_def WithTLSCA_def WithTLSServerName_def
  WithTLSSkipVerify_def WithUsername_def WithPassword_def WithDialTimeout_def
  WithKeepAliveTime_def WithKeepAliveTimeout_def WithAutoSyncInterval_def
  WithRequestTimeout_def WithRejectOldCluster_def WithPrefix_alt duration_option_success
  tls_file_option_success WithTimeout_success WithDisableCaddyfileLoad_success
  WithCaddyFile_success

text \<open>One variable: if its option succeeds, it adds its setting to those of the others.\<close>

lemma env_step_servers:
  assumes "WithServers (env_value sys ''SERVERS'') c = (None, c')"
    and "env_value sys ''SERVERS'' \<noteq> []" "env_name ''SERVERS'' \<notin> S"
  shows "env_config sys S c' = env_config sys (insert (env_name ''SERVERS'') S) c"
  using WithServers_result(2) [OF assms(1)] assms(2,3)
  by (auto simp: env_config_def env_set_absent)

lemma env_step:
  assumes "map_of env_options (env_name n) = Some f" "env_value sys n \<noteq> []" "env_name n \<notin> S"
    and "f sys (env_value sys n) c = (None, c')"
  shows "env_config sys S c' = env_config sys (insert (env_name n) S) c"
proof (cases "n = ''SERVERS''")
  case True
  with assms show ?thesis by (auto simp: env_options_def intro: env_step_servers)
next
  case False
  have "(env_name n, f) \<in> set env_options"
    using assms(1) by (rule map_of_SomeD)
  with False assms(2-4) show ?thesis
    unfolding env_options_def list.set insert_iff prod.inject env_name_inject empty_iff
    by (elim disjE conjE FalseE; hypsubst;
        clarsimp simp: option_success env_config_def env_set_absent)
qed

text \<open>Whether an option fails does not depend on the configuration it is applied to.\<close>

lemma fst_duration_option: "fst (duration_option what upd s c) = fst (duration_option what upd s c')"
  by (simp add: duration_option_def split: option.splits)

lemma fst_tls_file_option:
  "fst (tls_file_option sys what upd s c) = fst (tls_file_option sys what upd s c')"
  by (simp add: tls_file_option_def del: validateFileExists_None split: option.splits)

lemma fst_WithServers: "fst (WithServers s c) = None \<longleftrightarrow> fst (WithServers s c') = None"
  using WithServers_result(1) [of s c "fst (WithServers s c)" "snd (WithServers s c)"]
    WithServers_result(1) [of s c' "fst (WithServers s c')" "snd (WithServers s c')"]
  by simp

lemma env_option_outcome:
  assumes "map_of env_options e = Some f"
  shows "fst (f sys s c) = None \<longleftrightarrow> fst (f sys s c') = None"
proof -
  have duration: "fst (WithDialTimeout s c) = fst (WithDialTimeout s c')"
    "fst (WithKeepAliveTime s c) = fst (WithKeepAliveTime s c')"
    "fst (WithKeepAliveTimeout s c) = fst (WithKeepAliveTimeout s c')"
    "fst (WithAutoSyncInterval s c) = fst (WithAutoSyncInterval s c')"
    "fst (WithRequestTimeout s c) = fst (WithRequestTimeout s c')"
    unfolding WithDialTimeout_def WithKeepAliveTime_def WithKeepAliveTimeout_def
      WithAutoSyncInterval_def WithRequestTimeout_def by (rule fst_duration_option)+
  have tls: "fst (WithTLSCert sys s c) = fst (WithTLSCert sys s c')"
    "fst (WithTLSKey sys s c) = fst (WithTLSKey sys s c')"
    "fst (WithTLSCA sys s c) = fst (WithTLSCA sys s c')"
    unfolding WithTLSCert_def WithTLSKey_def WithTLSCA_def by (rule fst_tls_file_option)+
  have rest: "fst (WithTimeout s c) = fst (WithTimeout s c')"
    "fst (WithDisableCaddyfileLoad s c) = fst (WithDisableCaddyfileLoad s c')"
    by (simp_all add: WithTimeout_def WithDisableCaddyfileLoad_def Let_def split: option.splits)
  have "(e, f) \<in> set env_options"
    using assms by (rule map_of_SomeD)
  then show ?thesis
    unfolding env_options_def list.set insert_iff prod.inject empty_iff
    by (elim disjE conjE FalseE; hypsubst;
        simp add: duration tls rest fst_WithServers [of s c c'] WithPrefix_alt WithCaddyFile_alt
          WithTLSServerName_def WithTLSSkipVerify_def WithUsername_def WithPassword_def
          WithRejectOldCluster_def)
qed

definition env_ok :: "os \<Rightarrow> string \<Rightarrow> bool" where
  "env_ok sys e \<longleftrightarrow>
     (case (map_of env_options e, env_vars sys e) of
        (Some f, Some s) \<Rightarrow> fst (f sys s default_config) = None
      | _ \<Rightarrow> True)"

lemma env_set_unset:
  "env_value sys n = [] \<Longrightarrow> env_set sys (insert (env_name n) S) m f old = env_set sys S m f old"
  by (auto simp: env_set_def env_on_def)

lemma env_config_unset:
  "env_value sys n = [] \<Longrightarrow> env_config sys (insert (env_name n) S) c = env_config sys S c"
  by (simp add: env_config_def env_set_unset del: env_set_insert)

lemma env_names_named: "e \<in> fst ` set env_options \<Longrightarrow> \<exists>n. e = env_name n"
  by (auto simp: env_options_def)

lemma env_options_run:
  assumes "distinct es" "set es \<subseteq> fst ` set env_options"
  shows "apply_options (env_option_list sys (env_vars sys) es) c = (None, c') \<longleftrightarrow>
    list_all (env_ok sys) es \<and> c' = env_config sys (set es) c"
  using assms
proof (induction es arbitrary: c)
  case (Cons e es)
  obtain n where n: "e = env_name n" using env_names_named Cons.prems(2) by auto
  obtain f where f: "map_of env_options e = Some f"
    using Cons.prems(2) by (metis list.set_intros(1) map_of_eq_None_iff option.exhaust subsetD)
  have vars: "env_vars sys e = (if env_value sys n = [] then None else Some (env_value sys n))"
    using Cons.prems(2) by (auto simp: env_vars_def env_value_def n)
  show ?case
  proof (cases "env_value sys n = []")
    case True
    then have "env_ok sys e" "env_option_list sys (env_vars sys) (e # es) =
        env_option_list sys (env_vars sys) es"
      using vars f by (simp_all add: env_ok_def)
    with True Cons show ?thesis by (simp add: n env_config_unset)
  next
    case False
    obtain r c1 where c1: "f sys (env_value sys n) c = (r, c1)" by fastforce
    have ok: "env_ok sys e \<longleftrightarrow> r = None"
      using False vars f env_option_outcome [OF f, of sys "env_value sys n" default_config c] c1
      by (simp add: env_ok_def)
    show ?thesis
    proof (cases r)
      case None
      with c1 have "env_config sys (set es) c1 = env_config sys (insert e (set es)) c"
        using env_step [of n f sys "set es" c c1] f False Cons.prems(1) by (simp add: n)
      with Cons None c1 f vars False ok show ?thesis by simp
    qed (use c1 f vars False ok in simp)
  qed
qed auto

lemma length_env_option_list:
  assumes "distinct es" "set es = fst ` set env_options"
  shows "length (env_option_list sys (env_vars sys) es) = card (dom (env_vars sys))"
proof -
  have "length (env_option_list sys vars xs) = card (set xs \<inter> dom vars)"
    if "distinct xs" "dom vars \<subseteq> fst ` set env_options" for xs vars
    using that(1)
  proof (induction xs)
    case (Cons x xs)
    have "vars x = None" if "map_of env_options x = None"
      using that \<open>dom vars \<subseteq> _\<close> by (auto simp: map_of_eq_None_iff)
    with Cons show ?case
      by (cases "map_of env_options x"; cases "vars x") (auto simp: Int_insert_left)
  qed simp
  moreover have "dom (env_vars sys) \<subseteq> fst ` set env_options"
    by (auto simp: env_vars_def split: if_splits)
  ultimately show ?thesis using assms by (simp add: Int_absorb1)
qed

text \<open>The configuration the environment describes, and what the program makes of it in any
  order of the visit.\<close>

definition env_described :: "os \<Rightarrow> ClusterConfig" where
  "env_described sys =
     (env_config sys (fst ` set env_options) default_config)
       \<lparr>options := card (dom (env_vars sys))\<rparr>"

lemma env_configuration:
  assumes "visit_order order" "ConfigOptsFromEnvironment sys order = Inr opts"
  shows "NewClusterConfig sys opts = Inr c \<longleftrightarrow>
    list_all (\<lambda>(e, _). env_ok sys e) env_options \<and> c = env_described sys \<and> valid_config sys c"
proof -
  have order: "distinct order" "set order = fst ` set env_options"
    using assms(1) by (auto simp: visit_order_def)
  have opts: "opts = env_option_list sys (env_vars sys) order"
    using assms(2) by (auto simp: ConfigOptsFromEnvironment_def split: option.splits)
  have ok: "list_all (env_ok sys) order \<longleftrightarrow> list_all (\<lambda>(e, _). env_ok sys e) env_options"
    using order(2) by (auto simp: list_all_iff)
  show ?thesis
    using env_options_run [OF order(1), of sys default_config] order(2)
      length_env_option_list [OF order, of sys]
    by (auto simp: NewClusterConfig_result env_described_def ok opts)
qed

end
