(* ===== verification/Startup.thy ===== *)
theory Startup
  imports Connect Caddyfile_Total Config_Env
begin

text \<open>
  The life of the cluster object from its creation to its use: made by the module's \<open>New\<close> or
  empty, configured by \<open>UnmarshalCaddyfile\<close>, provisioned.  \<open>cluster_reachable\<close> is any
  sequence of these, with any reader, any certificates and any etcd, failures included;
  \<open>cluster_settled\<close> is what holds all along, and it is what the storage theorems ask of a
  service.
\<close>

section \<open>An invariant rule for the loops of the parser\<close>

lemma block_loop_invariant:
  fixes dsp :: "'d dispenser" and body :: "'d \<times> 'c \<Rightarrow> (go_error option \<times> 'd \<times> 'c) option"
  assumes "block_loop dsp n body s = Some y" "I (snd s)"
    and "\<And>d c r d' c'. I c \<Longrightarrow> body (d, c) = Some (r, d', c') \<Longrightarrow> I c'"
  shows "I (snd (snd y))"
proof -
  let ?P = "\<lambda>(dsp :: 'd dispenser) (n :: int) body s y. I (snd s) \<longrightarrow>
      (\<forall>d c r d' c'. I c \<longrightarrow> body (d, c) = Some (r, d', c') \<longrightarrow> I c') \<longrightarrow> I (snd (snd y))"
  have "?P dsp n body s y"
  proof (rule block_loop.raw_induct [where P = ?P, OF _ assms(1)])
    fix loop :: "'d dispenser \<Rightarrow> int \<Rightarrow> ('d \<times> 'c \<Rightarrow> (go_error option \<times> 'd \<times> 'c) option)
        \<Rightarrow> 'd \<times> 'c \<Rightarrow> (go_error option \<times> 'd \<times> 'c) option"
      and dsp :: "'d dispenser" and n and s y
      and body :: "'d \<times> 'c \<Rightarrow> (go_error option \<times> 'd \<times> 'c) option"
    assume IH: "\<And>n body s b y. loop n body s b = Some y \<Longrightarrow> ?P n body s b y"
    assume run: "(case dsp_NextBlock dsp n (fst s) of (found, d1) \<Rightarrow>
        if \<not> found then Some (None, d1, snd s)
        else Option.bind (body (d1, snd s))
          (\<lambda>(r, t). case r of None \<Rightarrow> loop dsp n body t | Some err \<Rightarrow> Some (Some err, t))) = Some y"
    show "?P dsp n body s y"
    proof (intro impI)
      assume start: "I (snd s)"
        and body: "\<forall>d c r d' c'. I c \<longrightarrow> body (d, c) = Some (r, d', c') \<longrightarrow> I c'"
      obtain found d1 where next': "dsp_NextBlock dsp n (fst s) = (found, d1)" by fastforce
      show "I (snd (snd y))"
      proof (cases "found \<and> body (d1, snd s) \<noteq> None")
        case True
        then obtain r d2 c2 where t: "body (d1, snd s) = Some (r, d2, c2)" by auto
        then have "I c2" using body start by blast
        with run next' True t IH [of dsp n body "(d2, c2)" y] body show ?thesis
          by (auto split: option.splits)
      next
        case False
        with run next' start show ?thesis by (cases "body (d1, snd s)") (auto split: if_splits)
      qed
    qed
  qed
  with assms(2,3) show ?thesis by blast
qed

section \<open>The parser keeps configurations settled\<close>

lemma arg_option_settled:
  assumes "arg_option dsp opt (d, c) = (r, d', c')" "settled c" "\<And>s. built_in sys (opt s)"
  shows "settled c'"
  using assms(1,2) built_in_settled [where sys = sys, OF assms(3)]
  by (auto simp: arg_option_def split: prod.splits if_splits)

lemma flag_option_settled:
  assumes "flag_option opt (d, c) = (r, d', c')" "settled c" "built_in sys opt"
  shows "settled c'"
  using assms(1,2) built_in_settled [where sys = sys, OF assms(3)]
  by (auto simp: flag_option_def split: prod.splits)

lemma unknown_option_settled:
  "unknown_option dsp what (d, c) = (r, d', c') \<Longrightarrow> settled c \<Longrightarrow> settled c'"
  by (simp add: unknown_option_def)

lemma built_in_options:
  "built_in sys (WithServers s)" "built_in sys (WithPrefix s)" "built_in sys (WithTimeout s)"
  "built_in sys (WithCaddyFile sys s)" "built_in sys (WithDisableCaddyfileLoad s)"
  "built_in sys (WithTLSCert sys s)" "built_in sys (WithTLSKey sys s)" "built_in sys (WithTLSCA sys s)"
  "built_in sys (WithTLSServerName s)" "built_in sys (WithTLSSkipVerify s)"
  "built_in sys (WithUsername s)" "built_in sys (WithPassword s)"
  "built_in sys (WithDialTimeout s)" "built_in sys (WithKeepAliveTime s)"
  "built_in sys (WithKeepAliveTimeout s)" "built_in sys (WithAutoSyncInterval s)"
  "built_in sys (WithRequestTimeout s)" "built_in sys (WithRejectOldCluster s)"
  unfolding built_in_def by blast+

lemma item_settled:
  "auth_item dsp (d, c) = (r, d', c') \<Longrightarrow> settled c \<Longrightarrow> settled c'"
  "tls_item dsp sys (d, c) = (r, d', c') \<Longrightarrow> settled c \<Longrightarrow> settled c'"
  "connection_item dsp (d, c) = (r, d', c') \<Longrightarrow> settled c \<Longrightarrow> settled c'"
  unfolding auth_item_def tls_item_def connection_item_def Let_def
  by (auto split: if_splits elim!: arg_option_settled flag_option_settled [where sys = sys]
      unknown_option_settled intro: built_in_options)

lemma option_block_settled:
  assumes "option_block dsp body (d, c) = Some (r, d', c')" "settled c"
    and "\<And>d c r d' c'. body (d, c) = (r, d', c') \<Longrightarrow> settled c \<Longrightarrow> settled c'"
  shows "settled c'"
  using block_loop_invariant [OF assms(1) [unfolded option_block_def], where I = settled] assms(2,3)
  by auto

lemma endpoints_settled:
  assumes "endpoints_directive dsp (d, c) = Some (r, d', c')" "settled c"
  shows "settled c'"
  using assms flag_option_settled [OF _ assms(2) built_in_options(1)]
  by (auto simp: endpoints_directive_def split: if_splits)

lemma caddy_directive_settled:
  assumes "caddy_directive dsp sys (d, c) = Some (r, d', c')" "settled c"
  shows "settled c'"
proof -
  have "settled c'" if "Some (arg_option dsp opt (d, c)) = Some (r, d', c')" "\<And>s. built_in sys (opt s)"
    for opt
    using arg_option_settled [OF _ assms(2) that(2)] that(1) by simp
  with assms show ?thesis
    unfolding caddy_directive_def Let_def
    by (auto split: if_splits intro: built_in_options
        elim!: endpoints_settled option_block_settled item_settled unknown_option_settled
          flag_option_settled [where sys = sys])
qed

lemma UnmarshalCaddyfile_settled:
  assumes "UnmarshalCaddyfile dsp sys cl d = Some (r, cl', d')"
  shows "cl' = cl \<or> (\<exists>c. cl' = cl\<lparr>cl_cfg := Some c\<rparr> \<and> settled c)"
proof -
  have "settled c'"
    if "block_loop dsp n (caddy_directive dsp sys) (d, c) = Some (r, d', c')"
      "NewClusterConfig sys [] = Inr c" for n d c r d' c'
    using block_loop_invariant [OF that(1), where I = settled, OF _ caddy_directive_settled]
      NewClusterConfig_settled(1) [OF that(2)] by auto
  with assms show ?thesis
    by (auto simp: UnmarshalCaddyfile_def split: prod.splits if_splits sum.splits)
qed

section \<open>The life of the cluster object\<close>

inductive cluster_reachable :: "os \<Rightarrow> Cluster \<Rightarrow> bool" for sys where
  empty: "cluster_reachable sys \<lparr> cl_srv = None, cl_cfg = None \<rparr>"
| module: "module_New sys order None = Inr cl \<Longrightarrow> cluster_reachable sys cl"
| parse: "cluster_reachable sys cl \<Longrightarrow>
    UnmarshalCaddyfile (dsp :: cursor dispenser) sys cl d = Some (r, cl', d') \<Longrightarrow>
    cluster_reachable sys cl'"
| provision: "cluster_reachable sys cl \<Longrightarrow>
    cluster_Provision sys net order cl (s :: world) = ((r, cl', cli), t) \<Longrightarrow>
    cluster_reachable sys cl'"

definition cluster_settled :: "Cluster \<Rightarrow> bool" where
  "cluster_settled cl \<longleftrightarrow>
     (\<forall>c. cl_cfg cl = Some c \<longrightarrow> settled c) \<and>
     (\<forall>e. cl_srv cl = Some e \<longrightarrow> wf_srv e \<and> settled (cfg e) \<and> \<not> noBackoff e)"

lemma env_option_list_built_in:
  "opt \<in> set (env_option_list sys vars es) \<Longrightarrow> built_in sys opt"
proof (induction es)
  case (Cons e es)
  have "built_in sys (f sys s)" if "map_of env_options e = Some f" for f s
    using map_of_SomeD [OF that] unfolding env_options_def built_in_def by auto
  with Cons show ?case by (auto split: option.splits)
qed simp

lemma config_from_env_settled:
  assumes "config_from_env sys order = Inr c"
  shows "settled c" "valid_config sys c"
  using assms NewClusterConfig_settled env_option_list_built_in
  by (auto simp: config_from_env_def ConfigOptsFromEnvironment_def split: sum.splits option.splits)

lemma new_etcdsrv_settled:
  "settled c \<Longrightarrow> wf_srv (new_etcdsrv c) \<and> settled (cfg (new_etcdsrv c)) \<and> \<not> noBackoff (new_etcdsrv c)"
  by (auto simp: settled_def wf_srv_new) (simp_all add: new_etcdsrv_def)

lemma Provision_result:
  assumes "cluster_Provision sys net order cl s = ((r, cl', cli), t)"
  shows "r \<noteq> None \<and> cl_srv cl' = cl_srv cl \<or>
    r = None \<and> (\<exists>c. cl_cfg cl' = Some c \<and> cl_srv cl' = Some (new_etcdsrv c))"
    and "cl_cfg cl' = cl_cfg cl \<or> cl_cfg cl = None \<and>
      (\<exists>c. config_from_env sys order = Inr c \<and> cl_cfg cl' = Some c)"
  using assms
  by (auto simp: cluster_Provision_def NewService_def Let_def
      split: option.splits sum.splits prod.splits)

lemma Provision_settled:
  assumes "cluster_settled cl" "cluster_Provision sys net order cl s = ((r, cl', cli), t)"
  shows "cluster_settled cl'"
proof -
  have c: "settled c" if "cl_cfg cl' = Some c" for c
    using Provision_result(2) [OF assms(2)] assms(1) config_from_env_settled(1) that
    by (auto simp: cluster_settled_def)
  moreover have "wf_srv e \<and> settled (cfg e) \<and> \<not> noBackoff e" if "cl_srv cl' = Some e" for e
    using Provision_result(1) [OF assms(2)]
  proof (elim disjE conjE exE)
    assume "cl_srv cl' = cl_srv cl"
    with assms(1) that show ?thesis by (simp add: cluster_settled_def)
  next
    fix c
    assume "cl_cfg cl' = Some c" "cl_srv cl' = Some (new_etcdsrv c)"
    with c that new_etcdsrv_settled show ?thesis by auto
  qed
  ultimately show ?thesis by (simp add: cluster_settled_def)
qed

lemma cluster_reachable_settled:
  "cluster_reachable sys cl \<Longrightarrow> cluster_settled cl"
proof (induction rule: cluster_reachable.induct)
  case empty
  then show ?case by (simp add: cluster_settled_def)
next
  case (module order cl)
  then show ?case
    using config_from_env_settled(1) [of sys order]
    by (auto simp: module_New_def cluster_settled_def split: sum.splits)
next
  case (parse cl dsp d r cl' d')
  then show ?case
    using UnmarshalCaddyfile_settled [OF parse.hyps(2)]
    by (auto simp: cluster_settled_def)
next
  case (provision cl net order s r cl' cli t)
  show ?case by (rule Provision_settled [OF provision.IH provision.hyps(2)])
qed

end
