(* ===== verification/Startup_Properties.thy ===== *)
theory Startup_Properties
  imports Startup Lock_Properties
begin

text \<open>
  The properties of the configuration and of the start-up: what the options, the environment
  and the Caddyfile make of a configuration, and what that gives the service built on it.
\<close>

section \<open>Concrete systems\<close>

text \<open>
  For the witnesses: a system with an empty file system and the given environment variables,
  and a network whose dialler returns the reference etcd.
\<close>

definition demo_sys :: "(string \<times> string) list \<Rightarrow> os" where
  "demo_sys vars =
     \<lparr> os_Stat = (\<lambda>_. Stat_missing), os_Open = (\<lambda>_. None),
       os_ReadFile = (\<lambda>_. Inl (External ''no such file'')), os_Getwd = Inr ''/'',
       os_Getenv = (\<lambda>e. case map_of vars e of None \<Rightarrow> [] | Some v \<Rightarrow> v) \<rparr>"

definition demo_net :: "world net" where
  "demo_net =
     \<lparr> net_LoadX509KeyPair = (\<lambda>c k. Inr (c @ k)), net_AppendCertsFromPEM = (\<lambda>b. b \<noteq> []),
       net_New = (\<lambda>cc s. (Inr ref_etcd, s)), net_Close = (\<lambda>cli s. s) \<rparr>"

abbreviation no_cluster :: Cluster where
  "no_cluster \<equiv> \<lparr> cl_srv = None, cl_cfg = None \<rparr>"

lemma demo_reachable:
  "cluster_reachable sys \<lparr> cl_srv = None, cl_cfg = Some default_config \<rparr>"
proof -
  obtain d' where "UnmarshalCaddyfile text_dispenser sys no_cluster (Start (storage_line [])) =
      Some (None, no_cluster\<lparr>cl_cfg := Some default_config\<rparr>, d')"
    using reader.UnmarshalCaddyfile_meaning [of "Start (storage_line [])" "[]" sys no_cluster] by auto
  from cluster_reachable.parse [OF cluster_reachable.empty this] show ?thesis by simp
qed

lemma demo_provisioned:
  obtains t where "cluster_Provision sys demo_net order \<lparr> cl_srv = None, cl_cfg = Some default_config \<rparr> w_init =
      ((None, \<lparr> cl_srv = Some default_srv, cl_cfg = Some default_config \<rparr>, Some ref_etcd), t)"
    "w_healthy t" "w_kv t = Map.empty"
proof -
  let ?d = "DialTimeout (Connection default_config)"
  obtain m t0 where 0: "context_WithTimeout ref_etcd ?d w_init = (Some (m + ?d), t0)" "w_healthy t0"
    "w_now w_init \<le> m" "w_now t0 \<le> w_now w_init + 1000"
    by (rule ref_live.ctx_live [OF w_init_healthy])
  have "in_time (Some (m + ?d)) (w_now t0 + 1000)"
    using 0(3,4) by (simp add: default_config_def Second_def)
  then obtain xs t where t: "cli_Get ref_etcd (Some (m + ?d)) ''ping'' False t0 = (Inr xs, t)" "w_healthy t"
    using ref_live.get_live [OF 0(2)] by blast
  have "getClient sys demo_net default_config w_init = (Inr ref_etcd, t)"
    using 0(1) t(1)
    by (simp add: getClient_def dial_client_def demo_net_def default_config_def client_config_of_def)
  then have "cluster_Provision sys demo_net order \<lparr> cl_srv = None, cl_cfg = Some default_config \<rparr> w_init =
      ((None, \<lparr> cl_srv = Some default_srv, cl_cfg = Some default_config \<rparr>, Some ref_etcd), t)"
    by (simp add: cluster_Provision_def NewService_def)
  from that [OF this t(2)] ref.ctx_frame [OF 0(1)] ref.get_frame [OF t(1)] show ?thesis by simp
qed

section \<open>Options\<close>

lemma comps_trim [simp]: "comps (trim_byte slash s) = comps s"
proof -
  have left: "comps (dropWhile (\<lambda>x. x = slash) s) = comps s" for s
    by (induction s) auto
  have right: "comps (rev (dropWhile (\<lambda>x. x = slash) s)) = comps (rev s)" for s
    by (induction s) auto
  show ?thesis by (simp add: trim_byte_def left right)
qed

lemma no_dotdot_trim [simp]: "no_dotdot (trim_byte slash s) = no_dotdot s"
proof -
  have left: "no_dotdot (dropWhile (\<lambda>x. x = slash) s) = no_dotdot s" for s
    by (induction s) auto
  have right: "no_dotdot (rev (dropWhile (\<lambda>x. x = slash) s)) = no_dotdot (rev s)" for s
    by (induction s) auto
  show ?thesis by (simp add: trim_byte_def left right)
qed

text \<open>C26: \<open>WithPrefix\<close> leaves a prefix in normal form whatever it is given, so a service built
  on it is well formed; without \<^verbatim>\<open>..\<close> the prefix is the list of the components of the
  argument, with slashes, backslashes and dots in any arrangement between them.\<close>

theorem with_prefix_normal:
  assumes "WithPrefix s c = (r, c')"
  shows "r = None \<and> normal_prefix (KeyPrefix c') \<and> wf_srv (new_etcdsrv c') \<and>
    (no_dotdot (replace_byte bsl slash s) \<longrightarrow>
       KeyPrefix c' = render (comps (replace_byte bsl slash s)))"
  using assms path_Clean_rooted [of "trim_byte slash (replace_byte bsl slash s)"]
  by (auto simp: WithPrefix_alt prefix_of_def path_Clean_rooted_normal)

lemma with_prefix_normal_witness:
  "KeyPrefix (snd (WithPrefix (bsl # ''certs//./'' @ bsl # ''a/'') default_config)) = ''/certs/a''"
proof -
  define s where "s = bsl # ''certs//./'' @ bsl # ''a/''"
  have s: "replace_byte bsl slash s = ''/certs//.//a/''"
    by (simp add: replace_byte_def s_def)
  then have "KeyPrefix (snd (WithPrefix s default_config)) = ''/certs/a''"
    using with_prefix_normal [of s default_config "fst (WithPrefix s default_config)"
        "snd (WithPrefix s default_config)"]
    by (simp add: comps_def no_dotdot_def render_def)
  then show ?thesis by (simp only: s_def)
qed

text \<open>C25: a configuration that \<open>NewClusterConfig\<close> makes from options of the program has a lock
  timeout of one second up to the largest duration, so the lease it asks for lasts between 1
  and 9223372036 seconds; every time of the connection is in the same range, every endpoint is
  an http or https URL with a host, and user name and password are both there or both not.\<close>

theorem new_config_bounds:
  assumes "NewClusterConfig sys opts = Inr c" and "\<forall>opt \<in> set opts. built_in sys opt"
  shows "Second \<le> LockTimeout c \<and> LockTimeout c \<le> max_duration \<and>
    1 \<le> lease_ttl (LockTimeout c) \<and> lease_ttl (LockTimeout c) \<le> 9223372036 \<and>
    settled_connection (Connection c) \<and> list_all server_url (ServerIP c) \<and>
    (Username (Auth c) = [] \<longleftrightarrow> Password (Auth c) = []) \<and>
    (opts \<noteq> [] \<longrightarrow> ServerIP c \<noteq> []) \<and> config_Validate sys c = None"
proof -
  note c = NewClusterConfig_settled [OF assms]
  have opts: "options c = length opts"
    using assms(1) by (auto simp: NewClusterConfig_result)
  have time: "Second \<le> LockTimeout c" "LockTimeout c \<le> max_duration"
    using c by (simp_all add: settled_def valid_config_def)
  have "1 \<le> lease_ttl (LockTimeout c)"
    using whole_seconds_ge [of 1] time by (simp add: lease_ttl_def max_duration_def)
  moreover have "lease_ttl (LockTimeout c) \<le> 9223372036"
    using whole_seconds_max [OF time(2)] by (simp add: lease_ttl_def)
  ultimately show ?thesis
    using c time opts by (auto simp: settled_def valid_config_def config_Validate_None)
qed

lemma demo_url: "url_Parse ''http://a:1'' = Some (''http'', ''a:1'')"
  by code_simp

lemma demo_servers:
  "WithServers ''http://a:1'' c = (None, c\<lparr>ServerIP := [''http://a:1'']\<rparr>)"
proof -
  have "server_texts ''http://a:1'' = [''http://a:1'']" "TrimSpace ''http://a:1'' = ''http://a:1''"
    by code_simp+
  then show ?thesis by (simp add: WithServers_def demo_url)
qed

lemma new_config_bounds_witness:
  "\<exists>c. NewClusterConfig (demo_sys []) [WithServers ''http://a:1''] = Inr c \<and>
     ServerIP c = [''http://a:1''] \<and> 1 \<le> lease_ttl (LockTimeout c)"
proof -
  have new: "NewClusterConfig (demo_sys []) [WithServers ''http://a:1'']
      = Inr (default_config\<lparr>ServerIP := [''http://a:1''], options := 1\<rparr>)"
    by (simp add: NewClusterConfig_result demo_servers valid_config_def
        server_url_def demo_url default_config_def Second_def Minute_def)
  have "\<forall>opt \<in> set [WithServers ''http://a:1'']. built_in (demo_sys []) opt"
    by (simp add: built_in_options)
  from new_config_bounds [OF new this] new show ?thesis by auto
qed

section \<open>The environment\<close>

lemma config_from_env_closed:
  assumes "visit_order order"
  shows "config_from_env sys order = Inr c \<longleftrightarrow>
    validateEnvPairs (env_vars sys) = None \<and> list_all (\<lambda>(e, _). env_ok sys e) env_options \<and>
    c = env_described sys \<and> valid_config sys c"
  using env_configuration [OF assms, of sys]
  by (cases "validateEnvPairs (env_vars sys)")
     (auto simp: config_from_env_def ConfigOptsFromEnvironment_def)

text \<open>C23: the configuration from the environment does not depend on the order in which Go
  visits its map of variables: it exists exactly if the variables that belong together are
  there together, every variable is accepted and the result is valid, and then it is the
  closed form in which every field has its variable's value or its default.\<close>

theorem env_configured:
  assumes "visit_order order"
  shows "config_from_env sys order = Inr c \<longleftrightarrow>
    validateEnvPairs (env_vars sys) = None \<and> list_all (\<lambda>(e, _). env_ok sys e) env_options \<and>
    c = env_described sys \<and> valid_config sys c"
  by (rule config_from_env_closed [OF assms])

definition source_order :: "string list" where
  "source_order = map fst env_options"

lemma source_order [simp]: "visit_order source_order"
  by (simp add: source_order_def visit_order_def env_options_def)

abbreviation demo_env :: "(string \<times> string) list" where
  "demo_env \<equiv> [(env_name ''SERVERS'', ''http://a:1''), (env_name ''PREFIX'', ''x'')]"

lemma demo_env_get:
  "os_Getenv (demo_sys demo_env) (env_name n) =
     (if n = ''SERVERS'' then ''http://a:1'' else if n = ''PREFIX'' then ''x'' else [])"
  by (simp add: demo_sys_def)

lemma demo_env_vars:
  "env_vars (demo_sys demo_env) = map_of demo_env"
  by (auto simp: env_vars_def demo_sys_def env_options_def fun_eq_iff)

lemma demo_env_described:
  "env_described (demo_sys demo_env) =
     default_config\<lparr>KeyPrefix := ''/x'', ServerIP := [''http://a:1''], options := 2\<rparr>"
proof -
  have "server_texts ''http://a:1'' = [''http://a:1'']" "TrimSpace ''http://a:1'' = ''http://a:1''"
    "prefix_of ''x'' = ''/x''"
    by code_simp+
  then show ?thesis
    by (simp add: env_described_def env_config_def env_set_def env_on_def env_value_def demo_env_get
        demo_env_vars default_config_def) (simp add: env_options_def)
qed

lemma env_configured_witness:
  "config_from_env (demo_sys demo_env) (rev source_order) =
     Inr (default_config\<lparr>KeyPrefix := ''/x'', ServerIP := [''http://a:1''], options := 2\<rparr>)"
proof -
  have order: "visit_order (rev source_order)"
    using source_order by (simp add: visit_order_def)
  have "validateEnvPairs (env_vars (demo_sys demo_env)) = None"
    by (simp add: validateEnvPairs_def demo_env_vars)
  moreover have "list_all (\<lambda>(e, _). env_ok (demo_sys demo_env) e) env_options"
    by (simp add: env_ok_def demo_env_vars env_options_def demo_servers WithPrefix_alt)
  moreover have "valid_config (demo_sys demo_env) (env_described (demo_sys demo_env))"
    by (simp add: demo_env_described valid_config_def server_url_def demo_url default_config_def
        Second_def Minute_def)
  ultimately show ?thesis
    using env_configured [OF order] by (simp add: demo_env_described)
qed

text \<open>C24: without endpoints no option can be used: if \<^verbatim>\<open>SERVERS\<close> is not set and any other
  variable is, there is no configuration; if none is set, the configuration is the default
  one, which has no endpoint.\<close>

theorem env_needs_endpoints:
  assumes "visit_order order" and "os_Getenv sys (env_name ''SERVERS'') = []"
  shows "if \<exists>e \<in> fst ` set env_options. os_Getenv sys e \<noteq> []
    then \<exists>err. config_from_env sys order = Inl err
    else config_from_env sys order = Inr default_config \<and> ServerIP default_config = []"
proof -
  note closed = config_from_env_closed [OF assms(1), of sys]
  have servers: "ServerIP (env_described sys) = []"
    using assms(2)
    by (simp add: env_described_def env_config_def env_set_def env_on_def env_value_def default_config_def)
  show ?thesis
  proof (cases "\<exists>e \<in> fst ` set env_options. os_Getenv sys e \<noteq> []")
    case True
    then have "env_vars sys \<noteq> Map.empty" by (auto simp: env_vars_def fun_eq_iff)
    moreover have "finite (dom (env_vars sys))"
      by (rule finite_subset [of _ "fst ` set env_options"]) (auto simp: env_vars_def split: if_splits)
    ultimately have "options (env_described sys) \<noteq> 0"
      by (simp add: env_described_def card_eq_0_iff)
    with servers have "config_from_env sys order \<noteq> Inr c" for c
      by (auto simp: closed valid_config_def)
    with True show ?thesis by (cases "config_from_env sys order") auto
  next
    case False
    then have vars: "env_vars sys = Map.empty" by (auto simp: env_vars_def fun_eq_iff)
    have "\<not> env_on sys (fst ` set env_options) n" for n
      using False by (auto simp: env_on_def env_value_def)
    then have "env_config sys (fst ` set env_options) default_config = default_config"
      by (simp add: env_config_def env_set_def)
    then have "env_described sys = default_config"
      by (simp add: env_described_def vars default_config_def)
    moreover have "validateEnvPairs Map.empty = None"
      by (simp add: validateEnvPairs_def)
    moreover have "valid_config sys default_config"
      by (simp add: valid_config_def default_config_def Second_def Minute_def)
    ultimately have "config_from_env sys order = Inr default_config"
      by (simp add: closed vars env_ok_def list_all_iff split: option.splits)
    with False show ?thesis by (simp add: default_config_def)
  qed
qed

lemma env_needs_endpoints_witness:
  "\<exists>err. config_from_env (demo_sys [(env_name ''PREFIX'', ''/x'')]) source_order = Inl err"
proof -
  have "\<exists>e \<in> fst ` set env_options. os_Getenv (demo_sys [(env_name ''PREFIX'', ''/x'')]) e \<noteq> []"
    by (simp add: demo_sys_def env_options_def)
  then show ?thesis
    using env_needs_endpoints [OF source_order, of "demo_sys [(env_name ''PREFIX'', ''/x'')]"]
    by (simp add: demo_sys_def)
qed

section \<open>The Caddyfile\<close>

text \<open>C20: reading the block of a \<^verbatim>\<open>storage etcd\<close> directive applies exactly the options its
  directives stand for, in order, to the default configuration; the first one that fails ends
  the reading with its error, and the cluster object keeps the configuration up to there.\<close>

theorem caddyfile_applies_options:
  assumes "dispenser dsp view" and "view d = Start (storage_line dirs)" and "list_all proper dirs"
  shows "\<exists>d'. UnmarshalCaddyfile dsp sys cl d =
    Some (fst (apply_options (concat (map (meaning sys) dirs)) default_config),
          cl\<lparr>cl_cfg := Some (snd (apply_options (concat (map (meaning sys) dirs)) default_config))\<rparr>, d')"
  by (rule dispenser.UnmarshalCaddyfile_meaning [OF assms])

abbreviation demo_dirs :: "directive list" where
  "demo_dirs \<equiv> [Prefix_dir ''x'', Endpoints_dir [''http://a:1''],
    Auth_dir [Username_opt ''u'', Password_opt ''p''], TLS_dir [Key_opt ''/k''], Disable_dir]"

lemma caddyfile_applies_options_witness:
  "\<exists>d'. UnmarshalCaddyfile text_dispenser (demo_sys []) no_cluster (Start (storage_line demo_dirs)) =
    Some (Some (Wrap (Errorf ''file does not exist'') ''TLS key file does not exist''),
      no_cluster\<lparr>cl_cfg := Some (default_config\<lparr>KeyPrefix := ''/x'', ServerIP := [''http://a:1''],
        Auth := \<lparr> Username = ''u'', Password = ''p'' \<rparr>\<rparr>)\<rparr>, d')"
proof -
  have prefix: "prefix_of ''x'' = ''/x''" by code_simp
  have key: "WithTLSKey (demo_sys []) ''/k'' c =
      (Some (Wrap (Errorf ''file does not exist'') ''TLS key file does not exist''), c)" for c
    by (simp add: WithTLSKey_def tls_file_option_def validateFileExists_def demo_sys_def
        del: validateFileExists_None)
  have "apply_options (concat (map (meaning (demo_sys [])) demo_dirs)) default_config =
      (Some (Wrap (Errorf ''file does not exist'') ''TLS key file does not exist''),
       default_config\<lparr>KeyPrefix := ''/x'', ServerIP := [''http://a:1''],
         Auth := \<lparr> Username = ''u'', Password = ''p'' \<rparr>\<rparr>)"
    by (simp add: WithPrefix_alt prefix demo_servers WithUsername_def WithPassword_def key)
  moreover have "list_all proper demo_dirs" by (simp add: proper_def)
  ultimately show ?thesis
    using caddyfile_applies_options [OF reader.dispenser_axioms refl, of demo_dirs "demo_sys []" no_cluster]
    by (metis fst_conv snd_conv)
qed

text \<open>C21: reading returns on every text, well formed or not, and leaves the cluster object as it
  was or with a configuration that keeps the invariant of the options.\<close>

theorem caddyfile_returns:
  assumes "dispenser dsp view" and "view d = Start l"
  shows "\<exists>r cl' d'. UnmarshalCaddyfile dsp sys cl d = Some (r, cl', d') \<and>
    (cl' = cl \<or> (\<exists>c. cl' = cl\<lparr>cl_cfg := Some c\<rparr> \<and> settled c))"
proof -
  obtain r cl' d' where run: "UnmarshalCaddyfile dsp sys cl d = Some (r, cl', d')"
    using dispenser.UnmarshalCaddyfile_total [OF assms, of sys cl] by auto
  with UnmarshalCaddyfile_settled [OF run] show ?thesis by auto
qed

lemma caddyfile_returns_witness:
  "\<exists>r cl' d'. UnmarshalCaddyfile text_dispenser (demo_sys []) no_cluster
     (Start (Line ''etcd'' [] (Some [Line ''endpoints'' [''x''] (Some [Line ''y'' [] (Some [])])])))
     = Some (r, cl', d')"
  using caddyfile_returns [OF reader.dispenser_axioms refl] by blast

text \<open>The default configuration with another lock timeout.\<close>

definition timeout_config :: "int \<Rightarrow> ClusterConfig" where
  "timeout_config n = default_config\<lparr>LockTimeout := n\<rparr>"

text \<open>C22: the Caddyfile can switch locking off.  \<open>UnmarshalCaddyfile\<close> does not validate, so a
  \<^verbatim>\<open>timeout\<close> of zero or less ends up in the configuration that \<open>Validate\<close> would reject, and
  a service with it grants every lock to every client at once.\<close>

theorem caddyfile_timeout_unchecked:
  assumes "dispenser dsp view" and "view d = Start (storage_line [Timeout_dir t])"
    and "ParseDuration t = Some n" and "n \<le> 0"
    and "etcd_live cli kv pause now healthy latency" and "healthy s"
    and "8 * latency \<le> RequestTimeout (Connection default_config)"
    and "read_lock (kv s) (lock_key (new_etcdsrv (timeout_config n)) key) = Some (l, obtained)"
    and "obtained \<le> now s"
  shows "(\<exists>d'. UnmarshalCaddyfile dsp sys cl d =
      Some (None, cl\<lparr>cl_cfg := Some (timeout_config n)\<rparr>, d')) \<and>
    config_Validate sys (timeout_config n) = Some (Errorf ''lock timeout must be at least 1 second'') \<and>
    (\<exists>u. srv_lock cli (new_etcdsrv (timeout_config n)) tok key s = (None, u))"
proof -
  have timeout: "LockTimeout (cfg (new_etcdsrv (timeout_config n))) = n"
    by (simp add: new_etcdsrv_def timeout_config_def)
  have "\<exists>u. srv_lock cli (new_etcdsrv (timeout_config n)) tok key s = (None, u) \<and> healthy u"
    by (rule etcd_live.srv_lock_live [OF assms(5,6)])
       (use assms(4,7-9) timeout in \<open>auto simp: Second_def new_etcdsrv_def timeout_config_def\<close>)
  moreover have "config_Validate sys (timeout_config n)
      = Some (Errorf ''lock timeout must be at least 1 second'')"
    using assms(4)
    by (simp add: config_Validate_def validate_tls_def timeout_config_def default_config_def Second_def)
  moreover have "\<exists>d'. UnmarshalCaddyfile dsp sys cl d =
      Some (None, cl\<lparr>cl_cfg := Some (timeout_config n)\<rparr>, d')"
    using dispenser.UnmarshalCaddyfile_meaning [OF assms(1,2), of sys cl] assms(3)
    by (simp add: proper_def WithTimeout_def timeout_config_def)
  ultimately show ?thesis by blast
qed

lemma caddyfile_timeout_unchecked_witness:
  "\<exists>t l n. read_lock (w_kv t) (lock_key default_srv ''k'') = Some (l, n) \<and> Token l = ''a'' \<and>
     (\<exists>u. srv_lock ref_etcd (new_etcdsrv (timeout_config 0)) ''b'' ''k'' t = (None, u))"
proof -
  obtain t l n where t: "w_healthy t" "n \<le> w_now t" "Token l = ''a''"
    "read_lock (w_kv t) (lock_key default_srv ''k'') = Some (l, n)"
    by (rule ref_locked [OF sanitize_a(1)])
  have patient: "8 * 1000 \<le> RequestTimeout (Connection default_config)"
    by (simp add: default_config_def Second_def)
  have zero: "ParseDuration ''0'' = Some 0" by (simp add: ParseDuration_def)
  have "lock_key (new_etcdsrv (timeout_config 0)) ''k'' = lock_key default_srv ''k''"
    by (simp add: timeout_config_def new_etcdsrv_def)
  with t(4) have "read_lock (w_kv t) (lock_key (new_etcdsrv (timeout_config 0)) ''k'') = Some (l, n)"
    by simp
  from caddyfile_timeout_unchecked [OF reader.dispenser_axioms refl zero order.refl
      ref_live.etcd_live_axioms t(1) patient this t(2), where tok = "''b''"] t
  show ?thesis by blast
qed

section \<open>Connecting\<close>

text \<open>TLS settings count only with a client certificate: without one, whatever the CA file,
  the server name and the verification switch say, etcd is dialled without TLS.\<close>

theorem tls_needs_client_cert:
  assumes "CertFile (TLS c) = []"
  shows "getClient sys net c s = dial_client net (ServerIP c) (client_config_of c None) s \<and>
    (\<forall>key ca name skip. getClient sys net
       (c\<lparr>TLS := \<lparr> CertFile = [], KeyFile = key, CAFile = ca, ServerName = name, SkipVerify = skip \<rparr>\<rparr>) s
     = getClient sys net c s)"
  using assms by (simp add: getClient_def client_config_of_def)

lemma tls_needs_client_cert_witness:
  "getClient (demo_sys []) demo_net (default_config\<lparr>TLS := \<lparr> CertFile = [], KeyFile = [],
       CAFile = ''/ca.pem'', ServerName = ''etcd'', SkipVerify = False \<rparr>\<rparr>) w_init
   = getClient (demo_sys []) demo_net default_config w_init"
proof -
  have "CertFile (TLS default_config) = []" by (simp add: default_config_def)
  from tls_needs_client_cert [OF this, of "demo_sys []" demo_net w_init] show ?thesis by blast
qed

section \<open>The life of the cluster object\<close>

text \<open>C19: at every point of its life, whatever is read, dialled and provisioned, with whatever
  failures, the configuration of the cluster object keeps the invariant of the options and its
  service, once there, is the well-formed one of such a configuration, with retries.\<close>

theorem cluster_always_settled:
  assumes "cluster_reachable sys cl"
  shows "(\<forall>c. cl_cfg cl = Some c \<longrightarrow> settled c) \<and>
    (\<forall>e. cl_srv cl = Some e \<longrightarrow> wf_srv e \<and> settled (cfg e) \<and> \<not> noBackoff e)"
  using cluster_reachable_settled [OF assms] by (simp add: cluster_settled_def)

lemma cluster_always_settled_witness:
  "\<exists>cl e. cluster_reachable (demo_sys []) cl \<and> cl_srv cl = Some e \<and> wf_srv e"
proof -
  obtain t where "cluster_Provision (demo_sys []) demo_net [] \<lparr> cl_srv = None, cl_cfg = Some default_config \<rparr> w_init =
      ((None, \<lparr> cl_srv = Some default_srv, cl_cfg = Some default_config \<rparr>, Some ref_etcd), t)"
    by (rule demo_provisioned)
  from cluster_reachable.provision [OF demo_reachable this]
  have "cluster_reachable (demo_sys []) \<lparr> cl_srv = Some default_srv, cl_cfg = Some default_config \<rparr>" .
  with cluster_always_settled [OF this] show ?thesis
    by (intro exI [of _ default_cluster] exI [of _ default_srv]) simp
qed

text \<open>C18: end to end, without a condition on the configuration: a cluster object that has been
  provisioned successfully is valid, and with a healthy etcd behind the client it got it
  returns what it stores.\<close>

theorem provisioned_roundtrip:
  assumes "cluster_reachable sys cl"
    and "cluster_Provision sys net order cl s = ((None, cl', Some cli), t)"
    and "cl_srv cl' = Some e"
    and "etcd_live cli kv pause now healthy latency" and "healthy t" and "consistent e (kv t)"
    and "good_key k" and "length v < 2 ^ 63" and "8 * latency \<le> Second"
  shows "cluster_Validate cl' = None \<and>
    (\<exists>u w. cluster_Store cli cl' k v t = Some (None, u) \<and> cluster_Load cli cl' k u = Some (Inr v, w))"
proof -
  have wf: "wf_srv e" and "settled (cfg e)"
    using Provision_settled [OF cluster_reachable_settled [OF assms(1)] assms(2)] assms(3)
    by (simp_all add: cluster_settled_def)
  then have patient: "8 * latency \<le> srv_timeout e"
    using assms(9) by (auto simp: settled_def settled_connection_def)
  obtain u w where "srv_Store cli e k v t = (None, u)" "srv_Load cli e k u = (Inr v, w)"
    using store_then_load [OF assms(4) wf assms(6,5,7,8) patient] by blast
  with assms(3) show ?thesis
    by (simp add: cluster_Validate_def cluster_Store_def cluster_Load_def)
qed

lemma provisioned_roundtrip_witness:
  "\<exists>t u w. cluster_Provision (demo_sys []) demo_net [] \<lparr> cl_srv = None, cl_cfg = Some default_config \<rparr> w_init =
       ((None, \<lparr> cl_srv = Some default_srv, cl_cfg = Some default_config \<rparr>, Some ref_etcd), t) \<and>
     cluster_Store ref_etcd \<lparr> cl_srv = Some default_srv, cl_cfg = Some default_config \<rparr> ''a/b'' ''hi'' t
       = Some (None, u) \<and>
     cluster_Load ref_etcd \<lparr> cl_srv = Some default_srv, cl_cfg = Some default_config \<rparr> ''a/b'' u
       = Some (Inr ''hi'', w)"
proof -
  obtain t where t: "cluster_Provision (demo_sys []) demo_net [] \<lparr> cl_srv = None, cl_cfg = Some default_config \<rparr> w_init =
      ((None, \<lparr> cl_srv = Some default_srv, cl_cfg = Some default_config \<rparr>, Some ref_etcd), t)"
    "w_healthy t" "w_kv t = Map.empty"
    by (rule demo_provisioned)
  have "consistent default_srv (w_kv t)" "good_key ''a/b''" "length ''hi'' < 2 ^ 63"
    using t(3) by simp_all
  from provisioned_roundtrip [OF demo_reachable t(1) _ ref_live.etcd_live_axioms t(2) this] t(1)
  show ?thesis by (simp add: Second_def)
qed

end
