(* ===== verification/Build_File.thy ===== *)
theory Build_File
  imports Etcd_Client Go_Path
begin

text \<open>
  \<open>src/magefile.go\<close>: the targets of the build file.  The file system and the commands it runs
  are the parameter \<open>mage\<close>, over a state \<open>'s\<close>; what is printed is left out.
\<close>

record 's mage =
  mg_Getwd :: "'s \<Rightarrow> (go_error + string) \<times> 's"
  mg_MkdirTemp :: "string \<Rightarrow> string \<Rightarrow> 's \<Rightarrow> (go_error + string) \<times> 's"
  mg_RemoveAll :: "string \<Rightarrow> 's \<Rightarrow> 's"
  mg_WriteFile :: "string \<Rightarrow> bytes \<Rightarrow> 's operation"
  mg_Run :: "string \<Rightarrow> string list \<Rightarrow> 's operation"

abbreviation newline :: char where
  "newline \<equiv> CHR 0x0A"

abbreviation tab :: char where
  "tab \<equiv> CHR 0x09"

text \<open>The program that is built: Caddy with its standard modules and the storage module.\<close>

definition xcaddy_content :: bytes where
  "xcaddy_content = join_with newline
     [''package main'',
      [],
      ''import ('',
      tab # ''caddycmd \"github.com/caddyserver/caddy/v2/cmd\"'',
      tab # ''_ \"github.com/caddyserver/caddy/v2/modules/standard\"'',
      tab # ''_ \"github.com/BTBurke/caddy-etcd\"'',
      '')'',
      [],
      ''func main() {'',
      tab # ''caddycmd.Main()'',
      ''}'']"

definition build_command :: "string \<Rightarrow> string \<Rightarrow> string" where
  "build_command cwd xcaddyFile = ''go build -o '' @ cwd @ ''/caddy '' @ xcaddyFile"

text \<open>\<open>Build\<close> once the temporary directory is there.\<close>

definition build_in :: "'s mage \<Rightarrow> string \<Rightarrow> string \<Rightarrow> 's operation" where
  "build_in mg cwd tmpDir s =
     (let xcaddyFile = path_Join [tmpDir, ''xcaddy.go''] in
      case mg_WriteFile mg xcaddyFile xcaddy_content s of
        (Some err, s1) \<Rightarrow> (Some (Errorf (''failed to write xcaddy.go: '' @ Error err)), s1)
      | (None, s1) \<Rightarrow>
          (case mg_Run mg ''sh'' [''-c'', build_command cwd xcaddyFile] s1 of
             (Some err, s2) \<Rightarrow> (Some (Errorf (''build failed: '' @ Error err)), s2)
           | (None, s2) \<Rightarrow> (None, s2)))"

text \<open>The deferred \<^verbatim>\<open>RemoveAll\<close> runs last, on every way out after it.\<close>

definition mage_Build :: "'s mage \<Rightarrow> 's operation" where
  "mage_Build mg s =
     (case mg_Getwd mg s of
        (Inl err, s1) \<Rightarrow> (Some (Errorf (''failed to get working directory: '' @ Error err)), s1)
      | (Inr cwd, s1) \<Rightarrow>
          (case mg_MkdirTemp mg [] ''caddy-build'' s1 of
             (Inl err, s2) \<Rightarrow> (Some (Errorf (''failed to create temp dir: '' @ Error err)), s2)
           | (Inr tmpDir, s2) \<Rightarrow>
               (case build_in mg cwd tmpDir s2 of (r, s3) \<Rightarrow> (r, mg_RemoveAll mg tmpDir s3))))"

definition mage_Test :: "'s mage \<Rightarrow> 's operation" where
  "mage_Test mg s = mg_Run mg ''go'' [''test'', ''-v'', ''./...''] s"

definition mage_Clean :: "'s mage \<Rightarrow> 's operation" where
  "mage_Clean mg s = mg_Run mg ''rm'' [''-f'', ''caddy''] s"

text \<open>What the build relies on: a new temporary directory does not exist before, and nothing
  but making it and removing it changes whether it does.\<close>

locale build_system =
  fixes mg :: "'s mage" and dirs :: "'s \<Rightarrow> string set"
  assumes getwd_frame: "mg_Getwd mg s = (w, t) \<Longrightarrow> dirs t = dirs s"
    and mkdir_new: "mg_MkdirTemp mg d p s = (Inr tmp, t) \<Longrightarrow> tmp \<notin> dirs s \<and> dirs t = insert tmp (dirs s)"
    and mkdir_fail: "mg_MkdirTemp mg d p s = (Inl err, t) \<Longrightarrow> dirs t = dirs s"
    and remove: "dirs (mg_RemoveAll mg d s) = dirs s - {d}"
    and write_frame: "mg_WriteFile mg f b s = (r, t) \<Longrightarrow> dirs t = dirs s"
    and run_frame: "mg_Run mg c args s = (r, t) \<Longrightarrow> dirs t = dirs s"
begin

lemma build_in_frame: "build_in mg cwd tmp s = (r, t) \<Longrightarrow> dirs t = dirs s"
  by (auto simp: build_in_def Let_def split: prod.splits option.splits dest!: write_frame run_frame)

text \<open>Whatever fails, \<open>Build\<close> leaves no directory behind.\<close>

lemma Build_cleans_up:
  assumes "mage_Build mg s = (r, t)"
  shows "dirs t = dirs s"
proof -
  obtain w s1 where 1: "mg_Getwd mg s = (w, s1)" by (cases "mg_Getwd mg s")
  note dirs = getwd_frame [OF 1]
  show ?thesis
  proof (cases w)
    case (Inl err)
    then show ?thesis using assms 1 dirs by (simp add: mage_Build_def)
  next
    case (Inr cwd)
    obtain d s2 where 2: "mg_MkdirTemp mg [] ''caddy-build'' s1 = (d, s2)"
      by (cases "mg_MkdirTemp mg [] ''caddy-build'' s1")
    show ?thesis
    proof (cases d)
      case (Inl err)
      then show ?thesis using assms 1 2 \<open>w = Inr cwd\<close> dirs mkdir_fail by (simp add: mage_Build_def)
    next
      case (Inr tmp)
      obtain x s3 where 3: "build_in mg cwd tmp s2 = (x, s3)" by (cases "build_in mg cwd tmp s2")
      have "t = mg_RemoveAll mg tmp s3"
        using assms 1 2 3 Inr \<open>w = Inr cwd\<close> by (simp add: mage_Build_def)
      then show ?thesis
        using mkdir_new [of "[]" "''caddy-build''" s1 tmp s2] 2 Inr build_in_frame [OF 3] dirs
        by (auto simp: remove)
    qed
  qed
qed

end

text \<open>A file system in which a path that is not taken becomes the temporary directory, and
  commands fail or succeed by a given test.\<close>

definition list_mage :: "(string \<Rightarrow> string list \<Rightarrow> bool) \<Rightarrow> string list mage" where
  "list_mage works =
     \<lparr> mg_Getwd = (\<lambda>s. (Inr ''/src'', s)),
       mg_MkdirTemp = (\<lambda>d p s. let tmp = ''/tmp/'' @ p in
          if tmp \<in> set s then (Inl (External ''file exists''), s) else (Inr tmp, tmp # s)),
       mg_RemoveAll = (\<lambda>d s. filter (\<lambda>x. x \<noteq> d) s),
       mg_WriteFile = (\<lambda>f b s. (None, s)),
       mg_Run = (\<lambda>c args s. (if works c args then None else Some (External ''exit status 1''), s)) \<rparr>"

interpretation list_mage: build_system "list_mage works" set
  by unfold_locales (auto simp: list_mage_def Let_def split: if_splits)

lemma Build_fails_clean:
  "mage_Build (list_mage (\<lambda>_ _. False)) [] = (Some (Errorf ''build failed: exit status 1''), [])"
  by (simp add: mage_Build_def build_in_def list_mage_def Let_def)

end
