(* ===== verification/Spec2Isabelle.thy ===== *)
theory Spec2Isabelle
  imports Storage_Properties Lock_Properties Shared_Properties Request_Properties
    Startup_Properties Build_File
begin

text \<open>
  A model of caddy-etcd, the storage module that keeps Caddy's certificates and locks in etcd,
  with the theorems that make it correct and the ones that show where it is not.

  The program.  Caddy makes a cluster object (\<open>Cluster\<close>, \<open>src/cluster.go\<close>) through
  \<open>CaddyModule\<close>, configures it from the environment or from a Caddyfile (\<open>src/config.go\<close>,
  \<open>src/caddyfile.go\<close>), provisions it (\<open>Provision\<close> calls \<open>NewService\<close>, which calls
  \<open>getClient\<close>) and then uses it as a \<^verbatim>\<open>certmagic.Storage\<close>.  Its methods delegate to the
  service \<open>etcdsrv\<close> (\<open>src/etcd.go\<close>), which stores a file under two etcd keys, its value and
  its metadata, both base64 text, the metadata JSON, and a lock under a third key.
  \<open>src/operations.go\<close> has single requests and \<open>pipeline\<close>, which runs several with rollback;
  \<open>src/errors.go\<close> the error values, \<open>src/ratelimit.go\<close> the rate limiter,
  \<open>src/magefile.go\<close> the targets of the build.

  Parameters.  Code outside the repository is an argument of the definitions that use it.  The
  etcd client, rate limiter, backoff library and clock are the record \<open>client\<close> over a state
  \<open>'s\<close> (\<open>Etcd_Client\<close>); a failed request may or may not have taken effect.
  Every request has a context, and \<open>context_WithTimeout\<close> makes one with a deadline where the
  code does: once per call for files, once per attempt in \<open>lock\<close>, once outside the retries in
  \<open>Unlock\<close>.  The locales \<open>etcd_kv\<close>, \<open>etcd_timed\<close>, \<open>etcd_deadline\<close>, \<open>etcd_paced\<close> and
  \<open>etcd_live\<close> state the documented behaviour and \<open>Etcd_Reference\<close> interprets them on an
  executable etcd with scripted failures, leases, deadlines and bounded retries.  Caddy's token reader is the record \<open>dispenser\<close> with a locale of the same
  name, interpreted on a reader of texts (\<open>Dispenser\<close>).  The process environment and the file
  system are the record \<open>os\<close>, certificates and dialling the record \<open>net\<close>.

  Standard library.  Modelled as far as it is used: strings and paths (\<open>Go_Strings\<close>,
  \<open>Go_Path\<close>), base64 (\<open>Go_Base64\<close>), time and RFC 3339 (\<open>Go_Time\<close>: the strict parser and
  the layout parser that \<^verbatim>\<open>UnmarshalText\<close> falls back to), durations (\<open>Go_Duration\<close>; \<open>Go_Float\<close> for
  the float64 that \<^verbatim>\<open>Duration.Seconds\<close> returns, rounded to 53 bits), JSON (\<open>Go_Json_String\<close>, \<open>Go_Json\<close>, with the struct decoding in
  \<open>Records\<close>), SHA-1 (\<open>Go_Sha1\<close>), URLs, lower case and white space (\<open>Go_Url\<close>).  Bytes and
  strings are lists of characters; a Go int is an \<open>int\<close> with \<open>wrap64\<close> where it can overflow.

  Theories and code.
  \<^item> \<open>Errors\<close>: \<open>src/errors.go\<close>, all error types, their messages, predicates, \<open>errors.Is\<close>.
  \<^item> \<open>Records\<close>: \<open>Lock\<close>, \<open>Metadata\<close>, \<open>NewMetadata\<close> of \<open>src/etcd.go\<close> and their stored form.
  \<^item> \<open>Operations\<close>: \<open>get\<close>, \<open>set\<close>, \<open>del\<close>, \<open>setMD\<close>, \<open>getMD\<close>, \<open>exists\<close>, \<open>list\<close>, \<open>noop\<close>, \<open>tx\<close>,
    \<open>pipeline\<close> of \<open>src/operations.go\<close>, named \<open>op_get\<close> and so on; \<open>Pipeline\<close> and
    \<open>Requests\<close> have their lemmas.
  \<^item> \<open>Service\<close>: \<open>Store\<close>, \<open>Load\<close>, \<open>Delete\<close>, \<open>Metadata\<close>, \<open>List\<close>, \<open>execute\<close> and the filters of
    \<open>src/etcd.go\<close>, named \<open>srv_Store\<close> and so on.  \<open>Storage_Spec\<close> has what they promise,
    \<open>Blob_Store\<close> the abstract store, \<open>Storage\<close> the lemmas, with the locale
    \<open>etcd_service\<close> and its sublocale \<open>blob_store\<close>.
  \<^item> \<open>Rate_Limit\<close>: \<open>src/ratelimit.go\<close>.
  \<^item> \<open>Locks\<close>: \<open>init\<close> (the token), \<open>Lock\<close>, \<open>lock\<close>, \<open>Unlock\<close> of \<open>src/etcd.go\<close>.
  \<^item> \<open>Programs\<close>: the operations of the service once more, as programs of requests, with the
    proof that running a program is calling the operation.  A call of \<open>Lock\<close> or \<open>Unlock\<close> is
    the whole call with any number of retries, a context per attempt in \<open>Lock\<close> and one for all
    of them in \<open>Unlock\<close>.  \<open>Shared\<close>: any number of processes running such programs on one
    etcd, a transition system that interleaves their requests.  Each process has a clock of its
    own; the clocks advance independently and do not run backwards;
    \<open>Shared_Files\<close>: its invariant and the atomic specification of the files;
    \<open>Lock_Protocol\<close>: the competition for one lock as an abstract transition system, a
    specification and not a translation, with a bound on the drift of the clocks as a
    parameter;
    \<open>Shared_Locks\<close>: the simulation of the processes by that protocol; \<open>Shared_Deadlines\<close>:
    how old a lock is when it is acquired.
  \<^item> \<open>Config_Types\<close>, \<open>Config\<close>: \<open>src/config.go\<close>, every option, \<open>NewClusterConfig\<close>,
    \<open>Validate\<close>, \<open>ConfigOptsFromEnvironment\<close>; \<open>Config_Spec\<close> and \<open>Config_Env\<close> say what they
    amount to.
  \<^item> \<open>Caddyfile\<close>: \<open>UnmarshalCaddyfile\<close> of \<open>src/caddyfile.go\<close>; \<open>Caddyfile_Spec\<close>: the
    directives, their text and their meaning; \<open>Caddyfile_Total\<close>: termination.
  \<^item> \<open>Connect\<close>: \<open>getClient\<close>, \<open>createTLSConfig\<close>, \<open>NewService\<close>, the constructor of
    \<open>CaddyModule\<close>, \<open>Provision\<close>; \<open>Cluster\<close>: the storage methods of \<open>src/cluster.go\<close>;
    \<open>Startup\<close>: the life of the cluster object.
  \<^item> \<open>Build_File\<close>: \<open>Build\<close>, \<open>Test\<close> and \<open>Clean\<close> of \<open>src/magefile.go\<close>, over the file system and
    commands as a parameter; whatever fails, \<open>Build\<close> leaves no directory behind.

  What is shown.
  \<^item> Storage (\<open>Storage_Properties\<close>): any run of \<open>Store\<close>, \<open>Load\<close> and \<open>Delete\<close>, whatever fails,
    refines a map from paths to contents; content and metadata change together; loads are
    checked against the hash and report damage; \<open>Metadata\<close>, \<open>Stat\<close>, \<open>Exists\<close> and the listings
    are characterised; the listings also show the lock records, and hide or invent other
    entries; two files, or a file and a lock, share a key exactly where a path leads into a
    reserved area, \<^verbatim>\<open>md\<close> or \<^verbatim>\<open>lock\<close>.
  \<^item> Locks (\<open>Lock_Properties\<close>): an unexpired lock of another client excludes; a lock that
    should be available is acquired; \<open>Unlock\<close> needs the owner, and releases nothing, because
    the record is written without its lease; retrying stops after at most 61 attempts, and
    retries of \<open>Unlock\<close> are in vain once its only context has ended; a file stored or deleted
    in the area of the locks replaces or removes a lock.
  \<^item> Concurrency (\<open>Shared_Properties\<close>): under any interleaving and any failures the files
    stay consistent and change atomically, and a load that succeeds is right at the moment of
    its last request, but it can fail on intact data; locks exclude if attempts do not overlap
    and the clocks of the processes do not drift too far apart: with a drift of at most
    \<open>drift\<close>, for \<open>LockTimeout - drift\<close> after the time in the record, and for no longer, because
    the age of a record is the difference of two clocks; they do not exclude if attempts
    overlap; a lock is, by the clock of its process, at most \<open>RequestTimeout\<close> old when it is acquired, which may
    be more than its \<open>LockTimeout\<close>.
  \<^item> Requests (\<open>Request_Properties\<close>): \<open>pipeline\<close> equals its reference and is all or nothing
    when rollbacks undo and the commit that fails has changed nothing itself; stored records and requests round-trip.
  \<^item> Start-up (\<open>Startup_Properties\<close>): the configuration does not depend on the order in which
    Go visits the environment; the Caddyfile applies exactly the options its directives mean,
    and reading it ends; at every point of its life the cluster object is fit for the storage
    theorems, which then hold end to end without a condition on the configuration.

  Bounds and fuel.  The JSON parser has fuel \<open>2 * length s + 1\<close>, the duration parser one more
  than its text is long; each recursive call consumes a byte of the text or descends into it,
  so neither runs out, and \<open>Unmarshal_Marshal_Metadata\<close> and \<open>Unmarshal_Marshal_Lock\<close>
  show it for what the program writes.  Retrying is a relation: \<open>retried\<close> allows any
  number of runs, which is enough for safety; \<open>attempts\<close> adds the pace of the policy and so a
  bound.  The loops of \<open>UnmarshalCaddyfile\<close> are a partial function
  whose value is \<open>None\<close> if they do not end.

  Where the model is coarser than the code.  Texts of errors made by the standard library are
  fixed words.  The target of a request that fails while decoding is left as it was.
  Fractions of durations are scaled exactly.  The file
  system and the environment are constant during one call.  A clock may be set forwards, not
  backwards, and a deadline is kept by the clock of its process.  Rejecting a JSON text that nests more than 10000 deep is not modelled.
  With several processes, a write whose answer is lost takes effect, if it does, before its
  failure is reported.  The success theorems ask for a \<open>RequestTimeout\<close> of eight times the
  latency, enough for every request of one context.

  Not modelled: logging, what the build prints and the clock readings that only feed them;
  \<open>cancel\<close>, which frees the resources of a context; tests and test helpers; the module's
  identifier and interface guards in \<open>src/cluster.go\<close>.
\<close>

end
